(* ===== verification/MFS_Prelude.thy ===== *)
theory MFS_Prelude
  imports Main "HOL-Library.Word" "HOL-Library.Multiset"
begin

text \<open>
  Shared vocabulary of the development: the machine integers of the sources, the
  status codes of \<^verbatim>\<open>mfscommon/MFSCommunication.h\<close>, the outputs that the master's
  operations produce (changelog lines and wake-up packets), intrusive hash chains, and the
  lemma collections used by the component theories.
\<close>

subsection \<open>Machine integers\<close>

type_synonym u8 = "8 word"
type_synonym u16 = "16 word"
type_synonym u32 = "32 word"
type_synonym u64 = "64 word"

text \<open>A \<^verbatim>\<open>void *connptr\<close> is only ever compared for equality.\<close>

type_synonym connptr = nat

subsection \<open>Lemma collections\<close>

named_theorems range_simps \<open>equations of the lock range component\<close>
named_theorems lock_inv_intros \<open>preservation of the lock table invariants\<close>

subsection \<open>Order on words\<close>

text \<open>Conditional rewrite rules that decide a comparison from its converse.\<close>

lemma not_le_of_less: "(a :: 'a :: linorder) < b \<Longrightarrow> \<not> b \<le> a"
  by simp

lemmas ord_simps = leD not_le_of_less

text \<open>An existential over an overridden function.\<close>

lemma ex_override:
  assumes "\<And>x. \<not> C (g a x)"
  shows "(\<exists>k x. P k \<and> Q x \<and> C (if a = k then f x else g k x)) \<longleftrightarrow>
    (P a \<and> (\<exists>x. Q x \<and> C (f x))) \<or> (\<exists>k x. P k \<and> Q x \<and> C (g k x))"
    (is "?L \<longleftrightarrow> ?R")
proof
  assume ?L
  then obtain k x where "P k" "Q x" "C (if a = k then f x else g k x)" by blast
  then show ?R by (cases "a = k") auto
next
  assume ?R
  then show ?L
  proof
    assume "P a \<and> (\<exists>x. Q x \<and> C (f x))"
    then show ?L by (metis (full_types))
  next
    assume "\<exists>k x. P k \<and> Q x \<and> C (g k x)"
    then obtain k x where "P k" "Q x" "C (g k x)" by blast
    moreover from this assms have "a \<noteq> k" by metis
    ultimately show ?L by (metis (full_types))
  qed
qed

subsection \<open>Status codes (MFSCommunication.h)\<close>

definition MFS_STATUS_OK :: u8 where [simp]: "MFS_STATUS_OK = 0"
definition MFS_ERROR_EINVAL :: u8 where [simp]: "MFS_ERROR_EINVAL = 6"
definition MFS_ERROR_NOTOPENED :: u8 where [simp]: "MFS_ERROR_NOTOPENED = 17"
definition MFS_ERROR_MISMATCH :: u8 where [simp]: "MFS_ERROR_MISMATCH = 32"
definition MFS_ERROR_WAITING :: u8 where [simp]: "MFS_ERROR_WAITING = 44"
definition MFS_ERROR_EAGAIN :: u8 where [simp]: "MFS_ERROR_EAGAIN = 45"
definition MFS_ERROR_EINTR :: u8 where [simp]: "MFS_ERROR_EINTR = 46"
definition MFS_ERROR_ECANCELED :: u8 where [simp]: "MFS_ERROR_ECANCELED = 47"

subsection \<open>Outputs of the master's operations\<close>

text \<open>
  A changelog line without its version and timestamp prefix: the keyword and the
  arguments that \<^verbatim>\<open>changelog(...)\<close> prints and that \<^verbatim>\<open>restore.c\<close> parses back.
\<close>

datatype changelog_entry =
    ACQUIRE u32 u32                       \<comment> \<open>sessionid, inode\<close>
  | RELEASE u32 u32                       \<comment> \<open>sessionid, inode\<close>
  | FLOCK u32 u32 u64 char                \<comment> \<open>inode, sessionid, owner, cmd\<close>
  | POSIXLOCK u32 u32 u64 char u64 u64 u32 \<comment> \<open>inode, sessionid, owner, cmd, start, end, pid\<close>

datatype out_event =
    Changelog changelog_entry
  | Flock_wake_up connptr u32 u8          \<comment> \<open>connection, msgid, status\<close>
  | Posix_wake_up connptr u32 u8
  | Meta_version_inc                      \<comment> \<open>\<^verbatim>\<open>meta_version_inc()\<close> during replay\<close>
  | Abort string                          \<comment> \<open>a \<^verbatim>\<open>massert\<close> failed: the process stops here\<close>

fun changelog_of :: "out_event list \<Rightarrow> changelog_entry list" where
  "changelog_of [] = []"
| "changelog_of (Changelog e # es) = e # changelog_of es"
| "changelog_of (_ # es) = changelog_of es"

lemma changelog_of_append [simp]: "changelog_of (xs @ ys) = changelog_of xs @ changelog_of ys"
  by (induction xs rule: changelog_of.induct) auto

subsection \<open>Hash chains\<close>

text \<open>
  \<open>chain_upd p f xs\<close> is the effect of writing through a pointer that a search for the
  first element with \<open>p\<close> returned.
\<close>

fun chain_upd :: "('a \<Rightarrow> bool) \<Rightarrow> ('a \<Rightarrow> 'a) \<Rightarrow> 'a list \<Rightarrow> 'a list" where
  "chain_upd p f [] = []"
| "chain_upd p f (x # xs) = (if p x then f x # xs else x # chain_upd p f xs)"

text \<open>Unlinking the first element with \<open>p\<close> from a list.\<close>

fun remove_first :: "('a \<Rightarrow> bool) \<Rightarrow> 'a list \<Rightarrow> 'a list" where
  "remove_first p [] = []"
| "remove_first p (x # xs) = (if p x then xs else x # remove_first p xs)"

lemma remove_first_subset: "set (remove_first p xs) \<subseteq> set xs"
  by (induction xs) auto

lemma find_mem: "List.find p xs = Some x \<Longrightarrow> x \<in> set xs \<and> p x"
  by (auto simp: find_Some_iff)

lemma set_chain_upd: "set (chain_upd p f xs) \<subseteq> set xs \<union> f ` {x \<in> set xs. p x}"
  by (induction xs) auto

lemma chain_upd_Nil [simp]: "chain_upd p f xs = [] \<longleftrightarrow> xs = []"
  by (cases xs) auto

subsection \<open>Tables of per-inode records\<close>

text \<open>
  Both lock managers keep one record per locked inode in a chained hash table. What their
  operations rely on is the contract of a finite map that is changed in place: searching,
  writing to a record that was found, adding an empty record and removing one. \<open>all_recs\<close> lifts
  a property of records to tables.
\<close>

locale inode_dict =
  fixes dfind :: "'t \<Rightarrow> u32 \<Rightarrow> 'v option"
    and dput :: "'t \<Rightarrow> 'v \<Rightarrow> 't"
    and dkey :: "'v \<Rightarrow> u32"
    and dnew :: "'t \<Rightarrow> u32 \<Rightarrow> 't"
    and dempty :: "u32 \<Rightarrow> 'v"
    and dremove :: "'t \<Rightarrow> u32 \<Rightarrow> 't \<times> out_event list"
    and unused :: "'v \<Rightarrow> bool"
    and dinv :: "'t \<Rightarrow> bool"
  assumes find_key: "dfind t k = Some v \<Longrightarrow> dkey v = k"
    and find_put: "dfind t (dkey v) \<noteq> None \<Longrightarrow>
          dfind (dput t v) k = (if k = dkey v then Some v else dfind t k)"
    and find_new: "dfind (dnew t k) j = (if j = k then Some (dempty k) else dfind t j)"
    and find_remove: "dfind (fst (dremove t k)) j = (if j = k then None else dfind t j)"
    and remove_quiet: "dinv t \<Longrightarrow> dfind t k = Some v \<Longrightarrow> unused v \<Longrightarrow> snd (dremove t k) = []"
    and inv_put: "dinv t \<Longrightarrow> dinv (dput t v)"
    and inv_new: "dinv t \<Longrightarrow> dfind t k = None \<Longrightarrow> dinv (dnew t k)"
    and inv_remove: "dinv t \<Longrightarrow> dinv (fst (dremove t k))"
begin

definition all_recs :: "('v \<Rightarrow> bool) \<Rightarrow> 't \<Rightarrow> bool" where
  "all_recs P t \<longleftrightarrow> (\<forall>k v. dfind t k = Some v \<longrightarrow> P v)"

lemma all_recsD: "all_recs P t \<Longrightarrow> dfind t k = Some v \<Longrightarrow> P v"
  by (auto simp: all_recs_def)

lemma all_recs_put:
  "all_recs P t \<Longrightarrow> dfind t (dkey v) \<noteq> None \<Longrightarrow> P v \<Longrightarrow> all_recs P (dput t v)"
  by (auto simp: all_recs_def find_put split: if_splits)

lemma all_recs_new: "all_recs P t \<Longrightarrow> P (dempty k) \<Longrightarrow> all_recs P (dnew t k)"
  by (auto simp: all_recs_def find_new split: if_splits)

lemma all_recs_remove: "all_recs P t \<Longrightarrow> all_recs P (fst (dremove t k))"
  by (auto simp: all_recs_def find_remove split: if_splits)

lemma find_put_put: "dfind t (dkey v) \<noteq> None \<Longrightarrow> dkey v = dkey w \<Longrightarrow>
   dfind (dput (dput t v) w) k = dfind (dput t w) k"
  by (simp add: find_put)

lemma find_put_same: "dfind t (dkey v) \<noteq> None \<Longrightarrow> dfind (dput t v) (dkey v) = Some v"
  by (simp add: find_put)

lemma find_new_same: "dfind (dnew t k) k = Some (dempty k)"
  by (simp add: find_new)

end

text \<open>The chains themselves, for any hash function and key.\<close>

definition chains_ok :: "('v \<Rightarrow> u32) \<Rightarrow> (u32 \<Rightarrow> nat) \<Rightarrow> (nat \<Rightarrow> 'v list) \<Rightarrow> bool" where
  "chains_ok key hash tab \<longleftrightarrow>
     (\<forall>h. distinct (map key (tab h)) \<and> (\<forall>v \<in> set (tab h). hash (key v) = h))"

lemma find_map_None: "List.find (\<lambda>v. key v = k) xs = None \<longleftrightarrow> k \<notin> set (map key xs)"
  by (induction xs) auto

lemma chain_find_put:
  assumes "List.find (\<lambda>x. key x = key v) xs \<noteq> None"
  shows "List.find (\<lambda>x. key x = k) (chain_upd (\<lambda>x. key x = key v) (\<lambda>_. v) xs) =
    (if k = key v then Some v else List.find (\<lambda>x. key x = k) xs)"
  using assms by (induction xs) auto

lemma chain_upd_keys: "map key (chain_upd (\<lambda>x. key x = key v) (\<lambda>_. v) xs) = map key xs"
  by (induction xs) auto

lemma chain_upd_mem:
  assumes "y \<in> set (chain_upd (\<lambda>x. key x = key v) (\<lambda>_. v) xs)"
  shows "y \<in> set xs \<or> (y = v \<and> key v \<in> key ` set xs)"
  using assms by (induction xs) (auto split: if_splits)

lemma chain_find_filter:
  "List.find (\<lambda>x. key x = k) (filter (\<lambda>x. key x \<noteq> j) xs) =
    (if k = j then None else List.find (\<lambda>x. key x = k) xs)"
  by (induction xs) auto

lemma chain_filter_unique:
  assumes "distinct (map key xs)" and "List.find (\<lambda>x. key x = k) xs = Some v" and "\<not> P v"
  shows "filter (\<lambda>x. key x = k \<and> P x) xs = []"
  using assms by (induction xs) (auto simp: filter_empty_conv image_iff split: if_splits)

lemma chains_ok_put:
  "chains_ok key hash tab \<Longrightarrow>
   chains_ok key hash (tab(hash (key v) := chain_upd (\<lambda>x. key x = key v) (\<lambda>_. v) (tab (hash (key v)))))"
  by (auto simp: chains_ok_def chain_upd_keys dest: chain_upd_mem)

lemma chains_ok_new:
  "chains_ok key hash tab \<Longrightarrow> List.find (\<lambda>x. key x = key v) (tab (hash (key v))) = None \<Longrightarrow>
   chains_ok key hash (tab(hash (key v) := v # tab (hash (key v))))"
  by (auto simp: chains_ok_def find_map_None)

lemma chains_ok_filter:
  "chains_ok key hash tab \<Longrightarrow> chains_ok key hash (tab(h := filter P (tab h)))"
  by (auto simp: chains_ok_def distinct_map_filter)

end
