(* ===== verification/Posix_Ranges.thy ===== *)
theory Posix_Ranges
  imports MFS_Prelude
begin

text \<open>
  The range list of one lock owner (\<^verbatim>\<open>mfsmaster/posixlocks.c\<close>, \<^verbatim>\<open>posix_lock_test_wlock\<close>
  and \<^verbatim>\<open>posix_lock_apply_range\<close>): closed-open ranges in increasing order. The abstract
  view of a list is the lock type at every byte position (\<open>range_at\<close>).
\<close>

subsection \<open>Data\<close>

definition POSIX_LOCK_UNLCK :: u8 where [simp]: "POSIX_LOCK_UNLCK = 0"
definition POSIX_LOCK_RDLCK :: u8 where [simp]: "POSIX_LOCK_RDLCK = 1"
definition POSIX_LOCK_WRLCK :: u8 where [simp]: "POSIX_LOCK_WRLCK = 2"

text \<open>\<^verbatim>\<open>UINT64_MAX\<close>\<close>

definition UINT64_MAX :: u64 where "UINT64_MAX = - 1"

record range =
  r_start :: u64
  r_end :: u64
  r_type :: u8

definition mk_range :: "u64 \<Rightarrow> u64 \<Rightarrow> u8 \<Rightarrow> range" where
  "mk_range s e t = \<lparr>r_start = s, r_end = e, r_type = t\<rparr>"

lemma mk_range_sel [simp]:
  "r_start (mk_range s e t) = s" "r_end (mk_range s e t) = e" "r_type (mk_range s e t) = t"
  by (simp_all add: mk_range_def)

subsection \<open>Operations\<close>

text \<open>
  The search for a conflicting range. The C function returns 1 and writes the range it found
  through its three pointer arguments; the model returns that range.
\<close>

fun posix_lock_test_wlock :: "range list \<Rightarrow> u8 \<Rightarrow> u64 \<Rightarrow> u64 \<Rightarrow> range option" where
  "posix_lock_test_wlock [] type start end = None"
| "posix_lock_test_wlock (r # rs) type start end =
     (if (type = POSIX_LOCK_WRLCK \<or> r_type r = POSIX_LOCK_WRLCK)
         \<and> end > r_start r \<and> start < r_end r
      then Some r
      else posix_lock_test_wlock rs type start end)"

fun posix_lock_apply_range :: "range list \<Rightarrow> u8 \<Rightarrow> u64 \<Rightarrow> u64 \<Rightarrow> range list" where
  "posix_lock_apply_range [] type start end =
     (if type \<noteq> POSIX_LOCK_UNLCK then [mk_range start end type] else [])"
| "posix_lock_apply_range (r # rs) type start end =
     (if r_end r < start then r # posix_lock_apply_range rs type start end
      else if r_start r > end then
        (if type \<noteq> POSIX_LOCK_UNLCK then [mk_range start end type] else []) @ r # rs
      else if start \<le> r_start r \<and> end \<ge> r_end r then
        posix_lock_apply_range rs type start end
      else if r_start r < start \<and> r_end r \<le> end then
        (if r_type r = type then posix_lock_apply_range rs type (r_start r) end
         else r\<lparr>r_end := start\<rparr> # posix_lock_apply_range rs type start end)
      else if r_start r \<ge> start \<and> r_end r > end then
        (if r_type r = type then r\<lparr>r_start := start\<rparr> # rs
         else (if type \<noteq> POSIX_LOCK_UNLCK then [mk_range start end type] else [])
              @ r\<lparr>r_start := end\<rparr> # rs)
      else
        (if r_type r \<noteq> type then
           r\<lparr>r_end := start\<rparr>
             # (if type \<noteq> POSIX_LOCK_UNLCK then [mk_range start end type] else [])
             @ mk_range end (r_end r) (r_type r) # rs
         else r # rs))"

subsection \<open>Specification: the lock type at a byte\<close>

definition in_range :: "u64 \<Rightarrow> range \<Rightarrow> bool" where
  "in_range x r \<longleftrightarrow> r_start r \<le> x \<and> x < r_end r"

fun range_at :: "range list \<Rightarrow> u64 \<Rightarrow> u8" where
  "range_at [] x = POSIX_LOCK_UNLCK"
| "range_at (r # rs) x = (if in_range x r then r_type r else range_at rs x)"

text \<open>
  The normal form the code keeps: non-empty ranges of a real lock type, in increasing
  order, disjoint, and no two touching ranges of the same type.
\<close>

definition range_ok :: "range \<Rightarrow> bool" where
  "range_ok r \<longleftrightarrow> r_start r < r_end r \<and> r_type r \<noteq> POSIX_LOCK_UNLCK"

definition range_sep :: "range \<Rightarrow> range \<Rightarrow> bool" where
  "range_sep a b \<longleftrightarrow>
     r_end a < r_start b \<or> (r_end a = r_start b \<and> r_type a \<noteq> r_type b)"

fun hd_sep :: "range \<Rightarrow> range list \<Rightarrow> bool" where
  "hd_sep r [] \<longleftrightarrow> True"
| "hd_sep r (r' # _) \<longleftrightarrow> range_sep r r'"

fun ranges_ok :: "range list \<Rightarrow> bool" where
  "ranges_ok [] \<longleftrightarrow> True"
| "ranges_ok (r # rs) \<longleftrightarrow> range_ok r \<and> hd_sep r rs \<and> ranges_ok rs"

lemmas range_defs = in_range_def range_ok_def range_sep_def

subsection \<open>Lemmas on normal lists\<close>

lemma ranges_okD: "ranges_ok (r # rs) \<Longrightarrow> range_ok r \<and> ranges_ok rs"
  by simp

lemma ranges_ok_le: "ranges_ok (r # rs) \<Longrightarrow> q \<in> set rs \<Longrightarrow> r_end r \<le> r_start q"
proof (induction rs arbitrary: r)
  case (Cons a rs)
  have "r_end r \<le> r_start a" "r_start a < r_end a"
    using Cons.prems(1) by (auto simp: range_defs)
  moreover have "q = a \<or> r_end a \<le> r_start q"
    using Cons.prems Cons.IH [of a] by auto
  ultimately show ?case by auto
qed simp

lemma ranges_ok_set: "ranges_ok rs \<Longrightarrow> q \<in> set rs \<Longrightarrow> range_ok q"
  by (induction rs) auto

lemma range_at_unlck: "(\<And>q. q \<in> set rs \<Longrightarrow> \<not> in_range x q) \<Longrightarrow> range_at rs x = POSIX_LOCK_UNLCK"
  by (induction rs) auto

lemma range_at_below:
  assumes "ranges_ok (r # rs)" and "x < r_end r"
  shows "range_at rs x = POSIX_LOCK_UNLCK"
proof (rule range_at_unlck)
  fix q assume "q \<in> set rs"
  with ranges_ok_le [OF assms(1)] have "r_end r \<le> r_start q" by blast
  with assms(2) show "\<not> in_range x q" by (auto simp: in_range_def)
qed

lemma range_at_below_hd:
  assumes "ranges_ok (r # rs)" and "x < r_start r"
  shows "range_at (r # rs) x = POSIX_LOCK_UNLCK"
  using range_at_below [OF assms(1), of x] assms by (auto simp: range_defs)

lemma range_at_mem: "ranges_ok rs \<Longrightarrow> q \<in> set rs \<Longrightarrow> in_range x q \<Longrightarrow> range_at rs x = r_type q"
proof (induction rs)
  case (Cons r rs)
  show ?case
  proof (cases "q = r")
    case False
    with Cons.prems have "q \<in> set rs" by simp
    with ranges_ok_le [OF Cons.prems(1)] have "r_end r \<le> r_start q" by blast
    with Cons.prems(3) have "\<not> in_range x r" by (auto simp: in_range_def)
    with Cons \<open>q \<in> set rs\<close> show ?thesis by simp
  qed (use Cons.prems in simp)
qed simp

lemma range_at_neq_unlckD:
  "range_at rs x \<noteq> POSIX_LOCK_UNLCK \<Longrightarrow> \<exists>q \<in> set rs. in_range x q \<and> r_type q = range_at rs x"
  by (induction rs) auto

subsection \<open>Applying a range: the six positions\<close>

text \<open>
  How the first range lies relative to \<^verbatim>\<open><start,end)\<close>: the pictures in the comments of
  the C function.
\<close>

lemma range_position_cases [case_names before after cover left right inside]:
  fixes r :: range and s e :: u64
  assumes "r_end r < s \<Longrightarrow> P"
    and "s \<le> r_end r \<Longrightarrow> e < r_start r \<Longrightarrow> P"
    and "s \<le> r_end r \<Longrightarrow> r_start r \<le> e \<Longrightarrow> s \<le> r_start r \<Longrightarrow> r_end r \<le> e \<Longrightarrow> P"
    and "s \<le> r_end r \<Longrightarrow> r_start r \<le> e \<Longrightarrow> r_start r < s \<Longrightarrow> r_end r \<le> e \<Longrightarrow> P"
    and "s \<le> r_end r \<Longrightarrow> r_start r \<le> e \<Longrightarrow> s \<le> r_start r \<Longrightarrow> e < r_end r \<Longrightarrow> P"
    and "s \<le> r_end r \<Longrightarrow> r_start r \<le> e \<Longrightarrow> r_start r < s \<Longrightarrow> e < r_end r \<Longrightarrow> P"
  shows P
  using assms not_le by metis

lemma apply_range_before [range_simps]:
  "r_end r < start \<Longrightarrow> posix_lock_apply_range (r # rs) type start end =
     r # posix_lock_apply_range rs type start end"
  by (simp add: ord_simps)

lemma apply_range_behind [range_simps]:
  "start \<le> r_end r \<Longrightarrow> end < r_start r \<Longrightarrow> posix_lock_apply_range (r # rs) type start end =
     (if type \<noteq> POSIX_LOCK_UNLCK then [mk_range start end type] else []) @ r # rs"
  by (simp add: ord_simps)

lemma apply_range_cover [range_simps]:
  "start \<le> r_end r \<Longrightarrow> r_start r \<le> end \<Longrightarrow> start \<le> r_start r \<Longrightarrow> r_end r \<le> end \<Longrightarrow>
   posix_lock_apply_range (r # rs) type start end = posix_lock_apply_range rs type start end"
  by (simp add: ord_simps)

lemma apply_range_left [range_simps]:
  "start \<le> r_end r \<Longrightarrow> r_start r \<le> end \<Longrightarrow> r_start r < start \<Longrightarrow> r_end r \<le> end \<Longrightarrow>
   posix_lock_apply_range (r # rs) type start end =
     (if r_type r = type then posix_lock_apply_range rs type (r_start r) end
      else r\<lparr>r_end := start\<rparr> # posix_lock_apply_range rs type start end)"
  by (simp add: ord_simps)

lemma apply_range_right [range_simps]:
  "start \<le> r_end r \<Longrightarrow> r_start r \<le> end \<Longrightarrow> start \<le> r_start r \<Longrightarrow> end < r_end r \<Longrightarrow>
   posix_lock_apply_range (r # rs) type start end =
     (if r_type r = type then r\<lparr>r_start := start\<rparr> # rs
      else (if type \<noteq> POSIX_LOCK_UNLCK then [mk_range start end type] else [])
           @ r\<lparr>r_start := end\<rparr> # rs)"
  by (simp add: ord_simps)

lemma apply_range_inside [range_simps]:
  "start \<le> r_end r \<Longrightarrow> r_start r \<le> end \<Longrightarrow> r_start r < start \<Longrightarrow> end < r_end r \<Longrightarrow>
   posix_lock_apply_range (r # rs) type start end =
     (if r_type r \<noteq> type then
        r\<lparr>r_end := start\<rparr>
          # (if type \<noteq> POSIX_LOCK_UNLCK then [mk_range start end type] else [])
          @ mk_range end (r_end r) (r_type r) # rs
      else r # rs)"
  by (simp add: ord_simps)

declare posix_lock_apply_range.simps(2) [simp del]

subsection \<open>Applying a range keeps the normal form\<close>

lemma hd_sep_drop: "ranges_ok (r # rs) \<Longrightarrow> range_sep p r \<Longrightarrow> hd_sep p rs"
  by (cases rs) (auto simp: range_defs)

lemma ranges_ok_replace_hd:
  "ranges_ok (r # rs) \<Longrightarrow> range_ok q \<Longrightarrow> r_end q \<le> r_end r \<Longrightarrow>
   r_type q = r_type r \<Longrightarrow> ranges_ok (q # rs)"
  by (cases rs) (auto simp: range_defs)

lemma apply_range_hd_sep:
  assumes "ranges_ok rs" and "start < end" and "hd_sep p rs"
    and "r_end p < start \<or> (r_end p = start \<and> r_type p \<noteq> type)"
  shows "hd_sep p (posix_lock_apply_range rs type start end)"
  using assms
proof (induction rs arbitrary: start)
  case Nil
  then show ?case by (auto simp: range_sep_def)
next
  case (Cons r rs)
  have drop: "hd_sep p rs" using Cons.prems(1,3) by (auto intro: hd_sep_drop)
  show ?case
  proof (cases rule: range_position_cases [where r = r and s = start and e = "end"])
    case before
    then show ?thesis using Cons.prems(3) by (simp add: range_simps)
  next
    case cover
    then show ?thesis using Cons drop by (simp add: range_simps)
  next
    case left
    have "r_start r < end" using left(3) Cons.prems(2) by simp
    moreover have "r_end p < r_start r \<or> (r_end p = r_start r \<and> r_type p \<noteq> r_type r)"
      using Cons.prems(3) by (simp add: range_sep_def)
    ultimately have "r_type r = type \<Longrightarrow> hd_sep p (posix_lock_apply_range rs type (r_start r) end)"
      using Cons.IH [of "r_start r"] Cons.prems(1) drop by auto
    with left Cons.prems(3) show ?thesis by (auto simp: range_simps range_sep_def)
  qed (use Cons.prems in \<open>auto simp: range_simps range_sep_def\<close>)
qed

text \<open>Positions at which the loop stops.\<close>

lemma apply_range_right_ok:
  assumes ok: "ranges_ok (r # rs)" and ne: "start < end"
    and pos: "start \<le> r_end r" "r_start r \<le> end" "start \<le> r_start r" "end < r_end r"
  shows "ranges_ok (posix_lock_apply_range (r # rs) type start end)"
proof -
  have "ranges_ok (r\<lparr>r_start := start\<rparr> # rs)" "ranges_ok (r\<lparr>r_start := end\<rparr> # rs)"
    using ranges_ok_replace_hd [OF ok] ok pos ne by (simp_all add: range_ok_def)
  then show ?thesis using pos ne by (auto simp: range_simps range_ok_def range_sep_def)
qed

lemma apply_range_inside_ok:
  assumes ok: "ranges_ok (r # rs)" and ne: "start < end"
    and pos: "start \<le> r_end r" "r_start r \<le> end" "r_start r < start" "end < r_end r"
  shows "ranges_ok (posix_lock_apply_range (r # rs) type start end)"
proof -
  have "ranges_ok (mk_range end (r_end r) (r_type r) # rs)" "range_ok (r\<lparr>r_end := start\<rparr>)"
    using ranges_ok_replace_hd [OF ok] ok pos by (simp_all add: range_ok_def)
  then show ?thesis using pos ne ok by (auto simp: range_simps range_ok_def range_sep_def)
qed

lemma apply_range_ok [lock_inv_intros]:
  assumes "ranges_ok rs" and "start < end"
  shows "ranges_ok (posix_lock_apply_range rs type start end)"
  using assms
proof (induction rs arbitrary: start)
  case Nil
  then show ?case by (auto simp: range_defs)
next
  case (Cons r rs)
  show ?case
  proof (cases rule: range_position_cases [where r = r and s = start and e = "end"])
    case before
    then show ?thesis using Cons apply_range_hd_sep [of rs start "end" r type]
      by (simp add: range_simps)
  next
    case after
    then show ?thesis using Cons.prems by (auto simp: range_simps range_ok_def range_sep_def)
  next
    case cover
    then show ?thesis using Cons by (simp add: range_simps)
  next
    case left
    let ?r = "r\<lparr>r_end := start\<rparr>"
    have "r_start r < end" using left(3) Cons.prems(2) by simp
    then have "ranges_ok (posix_lock_apply_range rs type (r_start r) end)"
      "ranges_ok (posix_lock_apply_range rs type start end)"
      using Cons by simp_all
    moreover have "ranges_ok (?r # rs)"
      using ranges_ok_replace_hd [OF Cons.prems(1), of ?r] left Cons.prems by (simp add: range_ok_def)
    ultimately show ?thesis
      using left Cons.prems(2) apply_range_hd_sep [of rs start "end" ?r type] by (auto simp: range_simps)
  qed (use Cons.prems apply_range_right_ok apply_range_inside_ok in blast)+
qed

subsection \<open>Applying a range changes the type exactly on that range\<close>

lemma range_at_apply:
  assumes "ranges_ok rs" and "start < end"
  shows "range_at (posix_lock_apply_range rs type start end) x =
    (if start \<le> x \<and> x < end then type else range_at rs x)"
  using assms
proof (induction rs arbitrary: start)
  case Nil
  then show ?case by (auto simp: in_range_def)
next
  case (Cons r rs)
  have IH: "ranges_ok rs" "r_start r < r_end r" using Cons.prems by (auto simp: range_ok_def)
  show ?case
  proof (cases rule: range_position_cases [where r = r and s = start and e = "end"])
    case before
    then show ?thesis using Cons IH by (auto simp: range_simps in_range_def)
  next
    case after
    have "x < end \<Longrightarrow> range_at (r # rs) x = POSIX_LOCK_UNLCK"
      using range_at_below_hd [OF Cons.prems(1)] after(2) by fastforce
    then show ?thesis using after by (auto simp: range_simps in_range_def)
  next
    case cover
    then show ?thesis using Cons IH by (auto simp: range_simps in_range_def)
  next
    case left
    have "r_start r < end" using left(3) Cons.prems(2) by simp
    then show ?thesis
      using left Cons.IH [OF IH(1), of "r_start r"] Cons.IH [OF IH(1), of start] Cons.prems(2)
      by (auto simp: range_simps in_range_def)
  next
    case right
    have "x < r_end r \<Longrightarrow> range_at rs x = POSIX_LOCK_UNLCK"
      using range_at_below [OF Cons.prems(1)] .
    then show ?thesis using right Cons.prems(2) by (auto simp: range_simps in_range_def)
  next
    case inside
    have "x < r_end r \<Longrightarrow> range_at rs x = POSIX_LOCK_UNLCK"
      using range_at_below [OF Cons.prems(1)] .
    then show ?thesis using inside Cons.prems(2) by (auto simp: range_simps in_range_def)
  qed
qed

subsection \<open>The normal form is canonical\<close>

lemma range_at_start: "ranges_ok (r # rs) \<Longrightarrow> range_at (r # rs) (r_start r) = r_type r"
  by (simp add: range_ok_def in_range_def)

lemma range_at_end_neq:
  assumes "ranges_ok (r # rs)"
  shows "range_at (r # rs) (r_end r) \<noteq> r_type r"
proof (cases rs)
  case Nil
  with assms show ?thesis by (auto simp: in_range_def range_ok_def)
next
  case (Cons q qs)
  have r: "range_ok r" "ranges_ok (q # qs)" "range_sep r q" using assms Cons by auto
  show ?thesis
  proof (cases "r_end r = r_start q")
    case True
    with r show ?thesis
      using Cons range_at_start [OF r(2)] by (auto simp: in_range_def range_sep_def)
  next
    case False
    with r(3) have "r_end r < r_start q" by (auto simp: range_sep_def)
    from range_at_below_hd [OF r(2) this] r(1) Cons show ?thesis
      by (auto simp: in_range_def range_ok_def)
  qed
qed

lemma ranges_hd_start_le:
  assumes "ranges_ok (a # as)" "ranges_ok (b # bs)" "range_at (a # as) = range_at (b # bs)"
  shows "r_start b \<le> r_start a"
proof (rule ccontr)
  assume "\<not> ?thesis"
  then have "range_at (b # bs) (r_start a) = POSIX_LOCK_UNLCK"
    using range_at_below_hd [OF assms(2)] by simp
  with assms range_at_start [OF assms(1)] show False by (simp add: range_ok_def)
qed

lemma ranges_hd_end_le:
  assumes "ranges_ok (a # as)" "ranges_ok (b # bs)" "range_at (a # as) = range_at (b # bs)"
    and "r_start a = r_start b" "r_type a = r_type b"
  shows "r_end b \<le> r_end a"
proof (rule ccontr)
  assume "\<not> ?thesis"
  then have "range_at (b # bs) (r_end a) = r_type b"
    using assms(1,4) by (auto simp: in_range_def range_ok_def)
  with assms(3,5) range_at_end_neq [OF assms(1)] show False by metis
qed

lemma ranges_nonempty_at:
  assumes "ranges_ok rs" and "rs \<noteq> []"
  shows "range_at rs \<noteq> range_at []"
proof -
  obtain r rs' where rs: "rs = r # rs'" using assms(2) by (cases rs) auto
  with assms have "range_at rs (r_start r) \<noteq> POSIX_LOCK_UNLCK"
    using range_at_start [of r rs'] by (simp add: range_ok_def)
  then show ?thesis by auto
qed

lemma ranges_canonical:
  assumes "ranges_ok xs" "ranges_ok ys" "range_at xs = range_at ys"
  shows "xs = ys"
  using assms
proof (induction xs arbitrary: ys)
  case Nil
  then show ?case using ranges_nonempty_at [of ys] by metis
next
  case (Cons a as)
  show ?case
  proof (cases ys)
    case Nil
    with Cons.prems show ?thesis using ranges_nonempty_at [of "a # as"] by metis
  next
    case b: (Cons b bs)
    have bok: "ranges_ok (b # bs)" and eq: "range_at (a # as) = range_at (b # bs)"
      using Cons.prems(2,3) unfolding b by blast+
    have start: "r_start a = r_start b"
      using ranges_hd_start_le [OF Cons.prems(1) bok eq]
        ranges_hd_start_le [OF bok Cons.prems(1) eq [symmetric]] by (rule antisym [rotated])
    have type: "r_type a = r_type b"
      using range_at_start [OF Cons.prems(1)] range_at_start [OF bok] eq start by metis
    have "r_end a = r_end b"
      using ranges_hd_end_le [OF Cons.prems(1) bok eq start type]
        ranges_hd_end_le [OF bok Cons.prems(1) eq [symmetric] start [symmetric] type [symmetric]]
      by (rule antisym [rotated])
    with start type have ab: "a = b" by simp
    have "range_at as x = range_at bs x" for x
      using range_at_below [OF Cons.prems(1), of x] range_at_below [OF bok, of x] fun_cong [OF eq, of x] ab
      by (auto simp: in_range_def not_less split: if_splits)
    then have "as = bs" using Cons.IH [of bs] Cons.prems(1) bok by (simp add: fun_eq_iff)
    with ab b show ?thesis by simp
  qed
qed

subsection \<open>Searching for a conflict\<close>

lemma test_wlock_None:
  "posix_lock_test_wlock rs type start end = None \<longleftrightarrow>
   (\<forall>r \<in> set rs. \<not> ((type = POSIX_LOCK_WRLCK \<or> r_type r = POSIX_LOCK_WRLCK) \<and>
      end > r_start r \<and> start < r_end r))"
  by (induction rs) auto

lemma test_wlock_Some:
  "posix_lock_test_wlock rs type start end = Some r \<Longrightarrow>
   r \<in> set rs \<and> (type = POSIX_LOCK_WRLCK \<or> r_type r = POSIX_LOCK_WRLCK) \<and>
     end > r_start r \<and> start < r_end r"
  by (induction rs) (auto split: if_splits)

text \<open>Two lock types that may not be held on one byte by different owners.\<close>

definition conflicting :: "u8 \<Rightarrow> u8 \<Rightarrow> bool" where
  "conflicting a b \<longleftrightarrow> a \<noteq> POSIX_LOCK_UNLCK \<and> b \<noteq> POSIX_LOCK_UNLCK \<and>
     (a = POSIX_LOCK_WRLCK \<or> b = POSIX_LOCK_WRLCK)"

lemma conflicting_sym: "conflicting a b \<Longrightarrow> conflicting b a"
  by (auto simp: conflicting_def)

lemma conflicting_unlck [simp]: "\<not> conflicting t 0" "\<not> conflicting 0 t"
  by (simp_all add: conflicting_def)

lemma overlap_point:
  fixes a b c d :: "'a :: linorder"
  assumes "a < b" "c < d" "c < b" "a < d"
  shows "max a c < b \<and> max a c < d \<and> a \<le> max a c \<and> c \<le> max a c"
  using assms by auto

lemma test_wlock_range_at:
  assumes ok: "ranges_ok rs" and ne: "start < end" and ty: "type \<noteq> POSIX_LOCK_UNLCK"
  shows "posix_lock_test_wlock rs type start end \<noteq> None \<longleftrightarrow>
    (\<exists>x. start \<le> x \<and> x < end \<and> conflicting type (range_at rs x))"
proof
  assume "posix_lock_test_wlock rs type start end \<noteq> None"
  then obtain r where r: "r \<in> set rs" "type = POSIX_LOCK_WRLCK \<or> r_type r = POSIX_LOCK_WRLCK"
    "r_start r < end" "start < r_end r"
    using test_wlock_Some by blast
  have rok: "range_ok r" using ranges_ok_set [OF ok r(1)] .
  let ?x = "max start (r_start r)"
  have x: "?x < end" "?x < r_end r" "start \<le> ?x" "r_start r \<le> ?x"
    using overlap_point [of start "end" "r_start r" "r_end r"] ne r(3,4) rok
    by (auto simp: range_ok_def)
  then have "range_at rs ?x = r_type r"
    using range_at_mem [OF ok r(1)] by (simp add: in_range_def)
  with x r(2) rok ty show "\<exists>x. start \<le> x \<and> x < end \<and> conflicting type (range_at rs x)"
    by (metis conflicting_def range_ok_def)
next
  assume "\<exists>x. start \<le> x \<and> x < end \<and> conflicting type (range_at rs x)"
  then obtain x where x: "start \<le> x" "x < end" "conflicting type (range_at rs x)" by blast
  then obtain q where q: "q \<in> set rs" "in_range x q" "r_type q = range_at rs x"
    using range_at_neq_unlckD [of rs x] by (auto simp: conflicting_def)
  then have "(type = POSIX_LOCK_WRLCK \<or> r_type q = POSIX_LOCK_WRLCK) \<and> end > r_start q \<and> start < r_end q"
    using x by (auto simp: conflicting_def in_range_def)
  with q(1) show "posix_lock_test_wlock rs type start end \<noteq> None"
    unfolding test_wlock_None by blast
qed

subsection \<open>Unlocking everything\<close>

lemma apply_range_unlock_all:
  "posix_lock_apply_range rs POSIX_LOCK_UNLCK 0 UINT64_MAX = []"
proof (induction rs)
  case (Cons r rs)
  have "r_end r \<le> UINT64_MAX" "r_start r \<le> UINT64_MAX"
    by (simp_all add: UINT64_MAX_def)
  with Cons show ?case by (simp add: posix_lock_apply_range.simps ord_simps)
qed simp

subsection \<open>Property\<close>

text \<open>
  C3. \<^verbatim>\<open>posix_lock_apply_range\<close> is correct: on a list of ranges in normal form and for a non-empty
  range, the result is in normal form again; inside the range every byte then has the requested
  type, outside of it every byte keeps its type; and the result is the only list in normal form
  with this meaning, so the in-place cutting, merging and inserting of the code has no freedom left.
\<close>

theorem posix_apply_range_correct:
  assumes "ranges_ok rs" "start < end"
    and "rs' = posix_lock_apply_range rs type start end"
  shows "ranges_ok rs' \<and>
    (\<forall>x. range_at rs' x = (if start \<le> x \<and> x < end then type else range_at rs x)) \<and>
    (\<forall>rs''. ranges_ok rs'' \<and> (\<forall>x. range_at rs'' x = range_at rs' x) \<longrightarrow> rs'' = rs')"
  using apply_range_ok range_at_apply ranges_canonical assms by blast

theorem posix_apply_range_correct_witness:
  "let rs = [mk_range 0 10 POSIX_LOCK_WRLCK, mk_range 20 30 POSIX_LOCK_RDLCK];
       rs' = posix_lock_apply_range rs POSIX_LOCK_RDLCK 5 20
   in rs' = [mk_range 0 5 POSIX_LOCK_WRLCK, mk_range 5 30 POSIX_LOCK_RDLCK] \<and>
      ranges_ok rs' \<and> range_at rs' 25 = range_at rs 25"
  using posix_apply_range_correct [of "[mk_range 0 10 POSIX_LOCK_WRLCK, mk_range 20 30 POSIX_LOCK_RDLCK]"
      5 20 _ POSIX_LOCK_RDLCK]
  by (simp add: mk_range_def posix_lock_apply_range.simps range_ok_def range_sep_def)

end
