(* ===== verification/Posix_Locks.thy ===== *)
theory Posix_Locks
  imports Posix_Ranges
begin

text \<open>
  The POSIX lock manager of the master (\<^verbatim>\<open>mfsmaster/posixlocks.c\<close>): per inode the active
  locks of every (session, owner) pair and the queue of waiting requests; the client command
  \<^verbatim>\<open>posix_lock_cmd\<close>, the clean-up calls for closed files and lost connections, and the
  changelog replay \<^verbatim>\<open>posix_lock_mr_change\<close>. The open-file check \<^verbatim>\<open>of_checknode\<close> of
  \<^verbatim>\<open>openfiles.c\<close> is an argument here and is supplied in the theory of the lock service.
\<close>

subsection \<open>Data\<close>

definition POSIX_LOCK_CMD_GET :: u8 where [simp]: "POSIX_LOCK_CMD_GET = 0"
definition POSIX_LOCK_CMD_SET :: u8 where [simp]: "POSIX_LOCK_CMD_SET = 1"
definition POSIX_LOCK_CMD_TRY :: u8 where [simp]: "POSIX_LOCK_CMD_TRY = 2"
definition POSIX_LOCK_CMD_INT :: u8 where [simp]: "POSIX_LOCK_CMD_INT = 3"

record alock =
  a_owner :: u64
  a_sessionid :: u32
  a_pid :: u32
  a_ranges :: "range list"

record wlock =
  w_owner :: u64
  w_connptr :: connptr
  w_sessionid :: u32
  w_pid :: u32
  w_msgid :: u32
  w_reqid :: u32
  w_start :: u64
  w_end :: u64
  w_type :: u8

record pinodelocks =
  p_inode :: u32
  p_active :: "alock list"
  p_waiting :: "wlock list"

text \<open>\<^verbatim>\<open>inodehash\<close>: the chain of every hash position.\<close>

type_synonym ptable = "nat \<Rightarrow> pinodelocks list"

definition POSIX_LOCK_INODE_HASHSIZE :: nat where "POSIX_LOCK_INODE_HASHSIZE = 1024"

definition POSIX_LOCK_INODE_HASH :: "u32 \<Rightarrow> nat" where
  "POSIX_LOCK_INODE_HASH inode = unat (inode * 0x738A2379) mod POSIX_LOCK_INODE_HASHSIZE"

subsection \<open>The inode table\<close>

definition posix_lock_inode_find :: "ptable \<Rightarrow> u32 \<Rightarrow> pinodelocks option" where
  "posix_lock_inode_find tab inode =
     List.find (\<lambda>il. p_inode il = inode) (tab (POSIX_LOCK_INODE_HASH inode))"

definition posix_lock_inode_empty :: "u32 \<Rightarrow> pinodelocks" where
  "posix_lock_inode_empty inode = \<lparr>p_inode = inode, p_active = [], p_waiting = []\<rparr>"

definition posix_lock_inode_new :: "ptable \<Rightarrow> u32 \<Rightarrow> ptable" where
  "posix_lock_inode_new tab inode =
     (let hash = POSIX_LOCK_INODE_HASH inode
      in tab(hash := posix_lock_inode_empty inode # tab hash))"

text \<open>Writing to the record that a previous search returned.\<close>

definition posix_lock_inode_put :: "ptable \<Rightarrow> pinodelocks \<Rightarrow> ptable" where
  "posix_lock_inode_put tab il =
     (let hash = POSIX_LOCK_INODE_HASH (p_inode il)
      in tab(hash := chain_upd (\<lambda>x. p_inode x = p_inode il) (\<lambda>_. il) (tab hash)))"

definition posix_lock_inode_remove :: "ptable \<Rightarrow> u32 \<Rightarrow> ptable \<times> out_event list" where
  "posix_lock_inode_remove tab inode =
     (let hash = POSIX_LOCK_INODE_HASH inode; chain = tab hash
      in (tab(hash := filter (\<lambda>il. p_inode il \<noteq> inode) chain),
          map (\<lambda>il. Abort ''inode posix lock record not empty !!!'')
            (filter (\<lambda>il. p_inode il = inode \<and> \<not> (p_active il = [] \<and> p_waiting il = [])) chain)))"

subsection \<open>Conflicts\<close>

text \<open>
  The first foreign lock that conflicts with the request: the range found and the holder's pid,
  which is reported only to its own session.
\<close>

fun posix_lock_get_offensive_lock ::
  "alock list \<Rightarrow> u32 \<Rightarrow> u64 \<Rightarrow> u8 \<Rightarrow> u64 \<Rightarrow> u64 \<Rightarrow> (range \<times> u32) option" where
  "posix_lock_get_offensive_lock [] sessionid owner type start end = None"
| "posix_lock_get_offensive_lock (al # als) sessionid owner type start end =
     (if a_owner al \<noteq> owner \<or> a_sessionid al \<noteq> sessionid then
        (case posix_lock_test_wlock (a_ranges al) type start end of
           Some r \<Rightarrow> Some (r, if sessionid = a_sessionid al then a_pid al else 0)
         | None \<Rightarrow> posix_lock_get_offensive_lock als sessionid owner type start end)
      else posix_lock_get_offensive_lock als sessionid owner type start end)"

fun posix_lock_find_offensive_lock ::
  "alock list \<Rightarrow> u32 \<Rightarrow> u64 \<Rightarrow> u8 \<Rightarrow> u64 \<Rightarrow> u64 \<Rightarrow> bool" where
  "posix_lock_find_offensive_lock [] sessionid owner type start end = False"
| "posix_lock_find_offensive_lock (al # als) sessionid owner type start end =
     (if a_owner al \<noteq> owner \<or> a_sessionid al \<noteq> sessionid then
        (if posix_lock_test_wlock (a_ranges al) type start end \<noteq> None then True
         else posix_lock_find_offensive_lock als sessionid owner type start end)
      else posix_lock_find_offensive_lock als sessionid owner type start end)"

subsection \<open>Applying a lock\<close>

fun posix_lock_do_apply_lock ::
  "alock list \<Rightarrow> u32 \<Rightarrow> u64 \<Rightarrow> u8 \<Rightarrow> u64 \<Rightarrow> u64 \<Rightarrow> u32 \<Rightarrow> alock list" where
  "posix_lock_do_apply_lock [] sessionid owner type start end pid =
     (if type = POSIX_LOCK_UNLCK then []
      else [\<lparr>a_owner = owner, a_sessionid = sessionid, a_pid = pid,
             a_ranges = posix_lock_apply_range [] type start end\<rparr>])"
| "posix_lock_do_apply_lock (al # als) sessionid owner type start end pid =
     (if a_owner al = owner \<and> a_sessionid al = sessionid then
        (let rs = posix_lock_apply_range (a_ranges al) type start end
         in if rs = [] then als else al\<lparr>a_ranges := rs\<rparr> # als)
      else al # posix_lock_do_apply_lock als sessionid owner type start end pid)"

definition posix_cmd_char :: "u8 \<Rightarrow> char" where
  "posix_cmd_char type =
     (if type = POSIX_LOCK_RDLCK then CHR ''R''
      else if type = POSIX_LOCK_WRLCK then CHR ''W'' else CHR ''U'')"

definition posix_lock_apply_lock ::
  "u32 \<Rightarrow> alock list \<Rightarrow> u32 \<Rightarrow> u64 \<Rightarrow> u8 \<Rightarrow> u64 \<Rightarrow> u64 \<Rightarrow> u32 \<Rightarrow> alock list \<times> out_event list" where
  "posix_lock_apply_lock inode active sessionid owner type start end pid =
     (posix_lock_do_apply_lock active sessionid owner type start end pid,
      [Changelog (POSIXLOCK inode sessionid owner (posix_cmd_char type) start end pid)])"

definition posix_lock_append_lock ::
  "pinodelocks \<Rightarrow> connptr \<Rightarrow> u32 \<Rightarrow> u32 \<Rightarrow> u32 \<Rightarrow> u64 \<Rightarrow> u8 \<Rightarrow> u64 \<Rightarrow> u64 \<Rightarrow> u32 \<Rightarrow> pinodelocks" where
  "posix_lock_append_lock il connptr sessionid msgid reqid owner type start end pid =
     il\<lparr>p_waiting := p_waiting il @
        [\<lparr>w_owner = owner, w_connptr = connptr, w_sessionid = sessionid, w_pid = pid,
          w_msgid = msgid, w_reqid = reqid, w_start = start, w_end = end, w_type = type\<rparr>]\<rparr>"

subsection \<open>Waiting requests\<close>

fun posix_lock_interrupt :: "wlock list \<Rightarrow> connptr \<Rightarrow> u32 \<Rightarrow> wlock list \<times> out_event list" where
  "posix_lock_interrupt [] connptr reqid = ([], [])"
| "posix_lock_interrupt (wl # wls) connptr reqid =
     (if w_connptr wl = connptr \<and> w_reqid wl = reqid
      then (wls, [Posix_wake_up connptr (w_msgid wl) MFS_ERROR_EINTR])
      else let (wls', ev) = posix_lock_interrupt wls connptr reqid in (wl # wls', ev))"

text \<open>The loop over the queue: grant every request that nothing blocks any more.\<close>

fun posix_lock_grant ::
  "u32 \<Rightarrow> alock list \<Rightarrow> wlock list \<Rightarrow> alock list \<times> wlock list \<times> out_event list" where
  "posix_lock_grant inode active [] = (active, [], [])"
| "posix_lock_grant inode active (wl # wls) =
     (if \<not> posix_lock_find_offensive_lock active (w_sessionid wl) (w_owner wl) (w_type wl)
            (w_start wl) (w_end wl)
      then
        (let (active1, ev1) = posix_lock_apply_lock inode active (w_sessionid wl) (w_owner wl)
               (w_type wl) (w_start wl) (w_end wl) (w_pid wl);
             (active2, rest, ev2) = posix_lock_grant inode active1 wls
         in (active2, rest,
             ev1 @ Posix_wake_up (w_connptr wl) (w_msgid wl) MFS_STATUS_OK # ev2))
      else
        (let (active2, rest, ev2) = posix_lock_grant inode active wls
         in (active2, wl # rest, ev2)))"

definition posix_lock_check_waiting :: "ptable \<Rightarrow> pinodelocks \<Rightarrow> ptable \<times> out_event list" where
  "posix_lock_check_waiting tab il =
     (if p_active il = [] \<and> p_waiting il = [] then posix_lock_inode_remove tab (p_inode il)
      else
        (let (active, waiting, ev) = posix_lock_grant (p_inode il) (p_active il) (p_waiting il)
         in (posix_lock_inode_put tab (il\<lparr>p_active := active, p_waiting := waiting\<rparr>), ev)))"

definition posix_lock_disconnected :: "ptable \<Rightarrow> connptr \<Rightarrow> ptable" where
  "posix_lock_disconnected tab connptr = (\<lambda>h.
     if h < POSIX_LOCK_INODE_HASHSIZE
     then map (\<lambda>il. il\<lparr>p_waiting := filter (\<lambda>wl. w_connptr wl \<noteq> connptr) (p_waiting il)\<rparr>) (tab h)
     else tab h)"

subsection \<open>The client command\<close>

text \<open>What \<^verbatim>\<open>posix_lock_cmd\<close> leaves in its four in/out arguments.\<close>

record plock_args =
  pa_type :: u8
  pa_start :: u64
  pa_end :: u64
  pa_pid :: u32

record plock_result =
  pr_status :: u8
  pr_args :: plock_args
  pr_table :: ptable
  pr_events :: "out_event list"

definition posix_lock_set ::
  "ptable \<Rightarrow> pinodelocks \<Rightarrow> u32 \<Rightarrow> u64 \<Rightarrow> plock_args \<Rightarrow> ptable \<times> out_event list" where
  "posix_lock_set tab il sessionid owner args =
     (let (active, ev1) = posix_lock_apply_lock (p_inode il) (p_active il) sessionid owner
            (pa_type args) (pa_start args) (pa_end args) (pa_pid args);
          il1 = il\<lparr>p_active := active\<rparr>;
          (tab2, ev2) = posix_lock_check_waiting (posix_lock_inode_put tab il1) il1
      in (tab2, ev1 @ ev2))"

definition posix_lock_cmd ::
  "(u32 \<Rightarrow> u32 \<Rightarrow> bool) \<Rightarrow> ptable \<Rightarrow> connptr \<Rightarrow> u32 \<Rightarrow> u32 \<Rightarrow> u32 \<Rightarrow> u32 \<Rightarrow> u64 \<Rightarrow> u8 \<Rightarrow> plock_args
     \<Rightarrow> plock_result" where
  "posix_lock_cmd of_checknode tab connptr sessionid msgid reqid inode owner op args =
     (let ret = (\<lambda>status tab' ev.
            \<lparr>pr_status = status, pr_args = args, pr_table = tab', pr_events = ev\<rparr>);
          i_type = pa_type args; i_start = pa_start args; i_end = pa_end args; i_pid = pa_pid args;
          append = (\<lambda>il. posix_lock_append_lock il connptr sessionid msgid reqid owner
                      i_type i_start i_end i_pid)
      in
      if (op = POSIX_LOCK_CMD_SET \<or> op = POSIX_LOCK_CMD_TRY) \<and> i_type \<noteq> POSIX_LOCK_UNLCK
         \<and> \<not> of_checknode sessionid inode
      then ret MFS_ERROR_NOTOPENED tab []
      else
        (case posix_lock_inode_find tab inode of
           None \<Rightarrow>
             if op = POSIX_LOCK_CMD_INT then ret MFS_STATUS_OK tab []
             else if op = POSIX_LOCK_CMD_GET then
               (ret MFS_STATUS_OK tab [])
                 \<lparr>pr_args := \<lparr>pa_type = POSIX_LOCK_UNLCK, pa_start = 0, pa_end = 0, pa_pid = 0\<rparr>\<rparr>
             else if i_type = POSIX_LOCK_UNLCK then ret MFS_STATUS_OK tab []
             else
               (let tab1 = posix_lock_inode_new tab inode; il = posix_lock_inode_empty inode in
                if posix_lock_find_offensive_lock (p_active il) sessionid owner i_type i_start i_end
                then ret MFS_ERROR_WAITING (posix_lock_inode_put tab1 (append il)) []
                else let (tab2, ev) = posix_lock_set tab1 il sessionid owner args
                     in ret MFS_STATUS_OK tab2 ev)
         | Some il \<Rightarrow>
             if op = POSIX_LOCK_CMD_INT then
               (let (waiting, ev) = posix_lock_interrupt (p_waiting il) connptr reqid
                in ret MFS_STATUS_OK (posix_lock_inode_put tab (il\<lparr>p_waiting := waiting\<rparr>)) ev)
             else if op = POSIX_LOCK_CMD_GET then
               (case (if i_type \<noteq> POSIX_LOCK_UNLCK
                      then posix_lock_get_offensive_lock (p_active il) sessionid owner
                             i_type i_start i_end
                      else None) of
                  Some (r, pid) \<Rightarrow>
                    (ret MFS_STATUS_OK tab [])
                      \<lparr>pr_args := \<lparr>pa_type = r_type r, pa_start = r_start r, pa_end = r_end r,
                                  pa_pid = pid\<rparr>\<rparr>
                | None \<Rightarrow>
                    (ret MFS_STATUS_OK tab [])
                      \<lparr>pr_args := \<lparr>pa_type = POSIX_LOCK_UNLCK, pa_start = 0, pa_end = 0,
                                  pa_pid = 0\<rparr>\<rparr>)
             else if i_type \<noteq> POSIX_LOCK_UNLCK
                     \<and> posix_lock_find_offensive_lock (p_active il) sessionid owner
                         i_type i_start i_end
             then
               (if op = POSIX_LOCK_CMD_TRY then ret MFS_ERROR_EAGAIN tab []
                else ret MFS_ERROR_WAITING (posix_lock_inode_put tab (append il)) [])
             else if i_type = POSIX_LOCK_UNLCK then
               (let (tab2, ev) = posix_lock_set tab il sessionid owner args
                in ret MFS_STATUS_OK tab2 ev)
             else if posix_lock_find_offensive_lock (p_active il) sessionid owner
                       i_type i_start i_end
             then ret MFS_ERROR_WAITING (posix_lock_inode_put tab (append il)) []
             else
               (let (tab2, ev) = posix_lock_set tab il sessionid owner args
                in ret MFS_STATUS_OK tab2 ev)))"

subsection \<open>Closed files\<close>

fun posix_lock_drop_session :: "u32 \<Rightarrow> alock list \<Rightarrow> alock list \<times> bool \<times> out_event list" where
  "posix_lock_drop_session sessionid [] = ([], False, [])"
| "posix_lock_drop_session sessionid (al # als) =
     (let (als', changed, ev) = posix_lock_drop_session sessionid als
      in if a_sessionid al = sessionid then
           (als', True,
            (if posix_lock_apply_range (a_ranges al) POSIX_LOCK_UNLCK 0 UINT64_MAX = [] then []
             else [Abort ''locks axists after unlocking everything !!!'']) @ ev)
         else (al # als', changed, ev))"

definition posix_lock_file_closed :: "ptable \<Rightarrow> u32 \<Rightarrow> u32 \<Rightarrow> ptable \<times> out_event list" where
  "posix_lock_file_closed tab sessionid inode =
     (case posix_lock_inode_find tab inode of
        None \<Rightarrow> (tab, [])
      | Some il \<Rightarrow>
          (let waiting = filter (\<lambda>wl. w_sessionid wl \<noteq> sessionid) (p_waiting il);
               (active, changed, ev1) = posix_lock_drop_session sessionid (p_active il);
               il1 = il\<lparr>p_active := active, p_waiting := waiting\<rparr>;
               tab1 = posix_lock_inode_put tab il1
           in if changed then
                (let (tab2, ev2) = posix_lock_check_waiting tab1 il1 in (tab2, ev1 @ ev2))
              else if active = [] \<and> waiting = [] then
                (let (tab2, ev2) = posix_lock_inode_remove tab1 (p_inode il1) in (tab2, ev1 @ ev2))
              else (tab1, ev1)))"

subsection \<open>Changelog replay\<close>

definition posix_mr_type :: "char \<Rightarrow> u8 option" where
  "posix_mr_type cmd =
     (if cmd \<in> {CHR ''U'', CHR ''u''} then Some POSIX_LOCK_UNLCK
      else if cmd \<in> {CHR ''R'', CHR ''r'', CHR ''S'', CHR ''s''} then Some POSIX_LOCK_RDLCK
      else if cmd \<in> {CHR ''W'', CHR ''w'', CHR ''E'', CHR ''e''} then Some POSIX_LOCK_WRLCK
      else None)"

text \<open>
  The search, with a new record for a command that sets a lock. On an error after that the new
  record stays in the table, as in the source.
\<close>

definition posix_lock_mr_change ::
  "ptable \<Rightarrow> u32 \<Rightarrow> u32 \<Rightarrow> u64 \<Rightarrow> char \<Rightarrow> u64 \<Rightarrow> u64 \<Rightarrow> u32 \<Rightarrow> u8 \<times> ptable \<times> out_event list" where
  "posix_lock_mr_change tab inode sessionid owner cmd start end pid =
     (case posix_mr_type cmd of
        None \<Rightarrow> (MFS_ERROR_EINVAL, tab, [])
      | Some type \<Rightarrow>
          (case (case posix_lock_inode_find tab inode of
                   Some il \<Rightarrow> Some (tab, il)
                 | None \<Rightarrow> if type = POSIX_LOCK_UNLCK then None
                           else Some (posix_lock_inode_new tab inode, posix_lock_inode_empty inode)) of
             None \<Rightarrow> (MFS_ERROR_MISMATCH, tab, [])
           | Some (tab1, il) \<Rightarrow>
               if type \<noteq> POSIX_LOCK_UNLCK
                  \<and> posix_lock_find_offensive_lock (p_active il) sessionid owner type start end
               then (MFS_ERROR_MISMATCH, tab1, [])
               else
                 (let il1 = il\<lparr>p_active := posix_lock_do_apply_lock (p_active il) sessionid owner
                              type start end pid\<rparr>;
                      tab2 = posix_lock_inode_put tab1 il1
                  in if p_active il1 = [] \<and> p_waiting il1 = []
                     then let (tab3, ev) = posix_lock_inode_remove tab2 (p_inode il1)
                          in (MFS_STATUS_OK, tab3, ev @ [Meta_version_inc])
                     else (MFS_STATUS_OK, tab2, [Meta_version_inc]))))"

subsection \<open>The table as a dictionary\<close>

definition ptable_chains :: "ptable \<Rightarrow> bool" where
  "ptable_chains tab \<longleftrightarrow> chains_ok p_inode POSIX_LOCK_INODE_HASH tab"

interpretation pd: inode_dict posix_lock_inode_find posix_lock_inode_put p_inode
  posix_lock_inode_new posix_lock_inode_empty posix_lock_inode_remove
  "\<lambda>il. p_active il = [] \<and> p_waiting il = []" ptable_chains
proof unfold_locales
  fix t k v
  show "posix_lock_inode_find t k = Some v \<Longrightarrow> p_inode v = k"
    by (auto simp: posix_lock_inode_find_def find_Some_iff)
next
  fix t v k
  show "posix_lock_inode_find t (p_inode v) \<noteq> None \<Longrightarrow>
    posix_lock_inode_find (posix_lock_inode_put t v) k =
      (if k = p_inode v then Some v else posix_lock_inode_find t k)"
    by (simp add: posix_lock_inode_find_def posix_lock_inode_put_def Let_def chain_find_put)
next
  fix t k j
  show "posix_lock_inode_find (posix_lock_inode_new t k) j =
      (if j = k then Some (posix_lock_inode_empty k) else posix_lock_inode_find t j)"
    by (simp add: posix_lock_inode_find_def posix_lock_inode_new_def posix_lock_inode_empty_def Let_def)
next
  fix t k j
  show "posix_lock_inode_find (fst (posix_lock_inode_remove t k)) j =
      (if j = k then None else posix_lock_inode_find t j)"
    by (simp add: posix_lock_inode_find_def posix_lock_inode_remove_def Let_def chain_find_filter)
next
  fix t k v
  assume "ptable_chains t" "posix_lock_inode_find t k = Some v" "p_active v = [] \<and> p_waiting v = []"
  then show "snd (posix_lock_inode_remove t k) = []"
    using chain_filter_unique [of p_inode "t (POSIX_LOCK_INODE_HASH k)" k v
        "\<lambda>il. \<not> (p_active il = [] \<and> p_waiting il = [])"]
    by (simp add: posix_lock_inode_find_def posix_lock_inode_remove_def ptable_chains_def chains_ok_def Let_def)
next
  fix t v
  show "ptable_chains t \<Longrightarrow> ptable_chains (posix_lock_inode_put t v)"
    unfolding ptable_chains_def posix_lock_inode_put_def Let_def by (rule chains_ok_put)
next
  fix t k
  show "ptable_chains t \<Longrightarrow> posix_lock_inode_find t k = None \<Longrightarrow> ptable_chains (posix_lock_inode_new t k)"
    using chains_ok_new [of p_inode POSIX_LOCK_INODE_HASH t "posix_lock_inode_empty k"]
    by (simp add: ptable_chains_def posix_lock_inode_find_def posix_lock_inode_new_def
        posix_lock_inode_empty_def Let_def)
next
  fix t k
  show "ptable_chains t \<Longrightarrow> ptable_chains (fst (posix_lock_inode_remove t k))"
    by (simp add: ptable_chains_def posix_lock_inode_remove_def Let_def chains_ok_filter)
qed

subsection \<open>What an owner holds\<close>

type_synonym lock_owner = "u32 \<times> u64"

definition akey :: "alock \<Rightarrow> lock_owner" where
  "akey al = (a_sessionid al, a_owner al)"

definition held :: "alock list \<Rightarrow> lock_owner \<Rightarrow> u64 \<Rightarrow> u8" where
  "held active k x =
     (case List.find (\<lambda>al. akey al = k) active of
        None \<Rightarrow> POSIX_LOCK_UNLCK
      | Some al \<Rightarrow> range_at (a_ranges al) x)"

lemma held_Nil [simp]: "held [] k x = POSIX_LOCK_UNLCK"
  by (simp add: held_def)

lemma held_Cons: "held (al # als) k x = (if akey al = k then range_at (a_ranges al) x else held als k x)"
  by (simp add: held_def)

text \<open>Structure of the active list: one entry per owner, never empty, in normal form.\<close>

definition active_ok :: "alock list \<Rightarrow> bool" where
  "active_ok active \<longleftrightarrow> distinct (map akey active) \<and>
     (\<forall>al \<in> set active. ranges_ok (a_ranges al) \<and> a_ranges al \<noteq> [])"

text \<open>Mutual exclusion: no byte is locked by two owners unless both only read.\<close>

definition exclusive :: "alock list \<Rightarrow> bool" where
  "exclusive active \<longleftrightarrow>
     (\<forall>k k' x. k \<noteq> k' \<longrightarrow> \<not> conflicting (held active k x) (held active k' x))"

lemma active_ok_Nil [simp]: "active_ok []"
  by (simp add: active_ok_def)

lemma active_ok_Cons:
  "active_ok (al # als) \<longleftrightarrow> akey al \<notin> akey ` set als \<and> ranges_ok (a_ranges al) \<and>
     a_ranges al \<noteq> [] \<and> active_ok als"
  by (auto simp: active_ok_def)

lemma exclusive_Nil [simp]: "exclusive []"
  by (simp add: exclusive_def conflicting_def)

lemma held_not_mem: "k \<notin> akey ` set als \<Longrightarrow> held als k x = POSIX_LOCK_UNLCK"
  by (induction als) (auto simp: held_Cons)

lemma held_mem: "active_ok als \<Longrightarrow> al \<in> set als \<Longrightarrow> held als (akey al) x = range_at (a_ranges al) x"
  by (induction als) (auto simp: held_Cons active_ok_Cons)

lemma keys_do_apply:
  "akey ` set (posix_lock_do_apply_lock als ses own type start end pid) \<subseteq> insert (ses, own) (akey ` set als)"
  by (induction als) (auto simp: akey_def Let_def)

lemma active_ok_do_apply [lock_inv_intros]:
  assumes "active_ok als" and "start < end"
  shows "active_ok (posix_lock_do_apply_lock als ses own type start end pid)"
  using assms
proof (induction als)
  case Nil
  then show ?case by (auto simp: active_ok_def range_ok_def)
next
  case (Cons al als)
  then have IH: "active_ok (posix_lock_do_apply_lock als ses own type start end pid)"
    by (simp add: active_ok_Cons)
  have "akey al \<noteq> (ses, own) \<Longrightarrow>
    akey al \<notin> akey ` set (posix_lock_do_apply_lock als ses own type start end pid)"
    using keys_do_apply [of als ses own type start "end" pid] Cons.prems by (auto simp: active_ok_Cons)
  with Cons.prems IH apply_range_ok [of "a_ranges al" start "end" type] show ?case
    by (auto simp: active_ok_Cons akey_def Let_def)
qed

lemma held_do_apply:
  assumes "active_ok als" and "start < end"
  shows "held (posix_lock_do_apply_lock als ses own type start end pid) k x =
    (if k = (ses, own) \<and> start \<le> x \<and> x < end then type else held als k x)"
  using assms
proof (induction als)
  case Nil
  then show ?case by (auto simp: held_Cons akey_def in_range_def)
next
  case (Cons al als)
  have at: "range_at (posix_lock_apply_range (a_ranges al) type start end) x =
      (if start \<le> x \<and> x < end then type else range_at (a_ranges al) x)"
    using Cons.prems range_at_apply by (simp add: active_ok_Cons)
  show ?case
  proof (cases "akey al = (ses, own)")
    case True
    with Cons.prems have "held als (ses, own) x = POSIX_LOCK_UNLCK"
      by (simp add: held_not_mem active_ok_Cons)
    with True at show ?thesis by (auto simp: held_Cons akey_def Let_def)
  next
    case False
    with Cons show ?thesis by (auto simp: held_Cons akey_def active_ok_Cons)
  qed
qed

lemma find_offensive_iff:
  assumes "active_ok als" and "start < end" and "type \<noteq> POSIX_LOCK_UNLCK"
  shows "posix_lock_find_offensive_lock als ses own type start end \<longleftrightarrow>
    (\<exists>k x. k \<noteq> (ses, own) \<and> start \<le> x \<and> x < end \<and> conflicting type (held als k x))"
  using assms(1)
proof (induction als)
  case Nil
  then show ?case by (simp add: conflicting_def)
next
  case (Cons al als)
  have al: "ranges_ok (a_ranges al)" "akey al \<notin> akey ` set als" "active_ok als"
    using Cons.prems by (auto simp: active_ok_Cons)
  have "\<not> conflicting type (held als (akey al) x)" for x
    by (simp add: held_not_mem [OF al(2)])
  then have eq: "(\<exists>k x. k \<noteq> (ses, own) \<and> start \<le> x \<and> x < end \<and> conflicting type (held (al # als) k x)) \<longleftrightarrow>
      (akey al \<noteq> (ses, own) \<and> (\<exists>x. start \<le> x \<and> x < end \<and> conflicting type (range_at (a_ranges al) x))) \<or>
      (\<exists>k x. k \<noteq> (ses, own) \<and> start \<le> x \<and> x < end \<and> conflicting type (held als k x))"
    unfolding held_Cons
    using ex_override [of "conflicting type" "held als" "akey al" "\<lambda>k. k \<noteq> (ses, own)"
        "\<lambda>x. start \<le> x \<and> x < end" "\<lambda>x. range_at (a_ranges al) x"]
    by (simp only: conj_assoc simp_thms)
  show ?case
    unfolding eq Cons.IH [OF al(3), symmetric] test_wlock_range_at [OF al(1) assms(2,3), symmetric]
    by (simp add: akey_def) blast
qed

lemma exclusive_do_apply [lock_inv_intros]:
  assumes "active_ok als" and "exclusive als" and "start < end"
    and "type \<noteq> POSIX_LOCK_UNLCK \<Longrightarrow> \<not> posix_lock_find_offensive_lock als ses own type start end"
  shows "exclusive (posix_lock_do_apply_lock als ses own type start end pid)"
proof -
  have no: "\<not> conflicting type (held als k x)" if "k \<noteq> (ses, own)" "start \<le> x" "x < end" for k x
  proof (cases "type = POSIX_LOCK_UNLCK")
    case False
    with assms(4) find_offensive_iff [OF assms(1,3) False] that show ?thesis by blast
  qed (simp add: conflicting_def)
  show ?thesis
    unfolding exclusive_def held_do_apply [OF assms(1,3)]
  proof (intro allI impI)
    fix k k' :: lock_owner and x
    assume ne: "k \<noteq> k'"
    with assms(2) have "\<not> conflicting (held als k x) (held als k' x)"
      unfolding exclusive_def by blast
    with ne show "\<not> conflicting
       (if k = (ses, own) \<and> start \<le> x \<and> x < end then type else held als k x)
       (if k' = (ses, own) \<and> start \<le> x \<and> x < end then type else held als k' x)"
      using no [of k x] no [of k' x] conflicting_sym [of "held als k x" type] by (cases "start \<le> x \<and> x < end") auto
  qed
qed

text \<open>The two searches agree, and the one that reports returns a real conflict.\<close>

lemma get_offensive_None:
  "posix_lock_get_offensive_lock als ses own type start end = None \<longleftrightarrow>
   \<not> posix_lock_find_offensive_lock als ses own type start end"
  by (induction als) (auto split: option.splits)

lemma get_offensive_Some:
  assumes "posix_lock_get_offensive_lock als ses own type start end = Some (r, pid)"
  shows "\<exists>al \<in> set als. akey al \<noteq> (ses, own) \<and> r \<in> set (a_ranges al) \<and>
     (type = POSIX_LOCK_WRLCK \<or> r_type r = POSIX_LOCK_WRLCK) \<and> r_start r < end \<and> start < r_end r \<and>
     pid = (if a_sessionid al = ses then a_pid al else 0)"
  using assms
proof (induction als)
  case (Cons al als)
  then show ?case
    by (auto simp: akey_def split: if_splits option.splits dest: test_wlock_Some)
qed simp

subsection \<open>Granting waiting requests\<close>

definition wkey :: "wlock \<Rightarrow> lock_owner" where
  "wkey wl = (w_sessionid wl, w_owner wl)"

definition waiting_ok :: "wlock list \<Rightarrow> bool" where
  "waiting_ok ws \<longleftrightarrow> (\<forall>wl \<in> set ws. w_start wl < w_end wl \<and> w_type wl \<noteq> POSIX_LOCK_UNLCK)"

lemma waiting_ok_simps [simp]:
  "waiting_ok []"
  "waiting_ok (wl # ws) \<longleftrightarrow> w_start wl < w_end wl \<and> w_type wl \<noteq> POSIX_LOCK_UNLCK \<and> waiting_ok ws"
  "waiting_ok (ws @ ws') \<longleftrightarrow> waiting_ok ws \<and> waiting_ok ws'"
  by (auto simp: waiting_ok_def)

lemma waiting_ok_filter: "waiting_ok ws \<Longrightarrow> waiting_ok (filter P ws)"
  by (auto simp: waiting_ok_def)

lemma do_apply_nonempty:
  assumes "active_ok als" and "start < end" and "type \<noteq> POSIX_LOCK_UNLCK"
  shows "posix_lock_do_apply_lock als ses own type start end pid \<noteq> []"
proof
  assume "posix_lock_do_apply_lock als ses own type start end pid = []"
  then have "held [] (ses, own) start = type"
    using held_do_apply [OF assms(1,2), of ses own type pid "(ses, own)" start] assms(2) by auto
  with assms(3) show False by simp
qed

lemma grant_inv:
  assumes "active_ok active" "exclusive active" "waiting_ok ws"
    and "posix_lock_grant inode active ws = (active', ws', ev)"
  shows "active_ok active' \<and> exclusive active' \<and> waiting_ok ws' \<and>
    (active' = [] \<longrightarrow> active = [] \<and> ws = [])"
  using assms
proof (induction inode active ws arbitrary: active' ws' ev rule: posix_lock_grant.induct)
  case (1 inode active)
  then show ?case by simp
next
  case (2 inode active wl wls)
  let ?f = "posix_lock_find_offensive_lock active (w_sessionid wl) (w_owner wl) (w_type wl)
            (w_start wl) (w_end wl)"
  let ?a = "posix_lock_do_apply_lock active (w_sessionid wl) (w_owner wl) (w_type wl)
            (w_start wl) (w_end wl) (w_pid wl)"
  have w: "w_start wl < w_end wl" "w_type wl \<noteq> POSIX_LOCK_UNLCK" "waiting_ok wls"
    using "2.prems"(3) by auto
  show ?case
  proof (cases ?f)
    case True
    then have "active \<noteq> []" by auto
    with True "2.prems" "2.IH"(2) w show ?thesis by (auto split: prod.splits)
  next
    case False
    have "active_ok ?a" "exclusive ?a" "?a \<noteq> []"
      using active_ok_do_apply [OF "2.prems"(1) w(1)] exclusive_do_apply [OF "2.prems"(1,2) w(1)]
        do_apply_nonempty [OF "2.prems"(1) w(1,2)] False by auto
    with False "2.prems" "2.IH"(1) w show ?thesis
      by (auto simp: posix_lock_apply_lock_def split: prod.splits)
  qed
qed

lemma grant_no_abort:
  "posix_lock_grant inode active ws = (active', ws', ev) \<Longrightarrow> Abort msg \<notin> set ev"
  by (induction inode active ws arbitrary: active' ws' ev rule: posix_lock_grant.induct)
    (auto simp: posix_lock_apply_lock_def split: prod.splits if_splits)

lemma grant_subset:
  "posix_lock_grant inode active ws = (active', ws', ev) \<Longrightarrow> set ws' \<subseteq> set ws"
  by (induction inode active ws arbitrary: active' ws' ev rule: posix_lock_grant.induct)
    (fastforce simp: posix_lock_apply_lock_def split: prod.splits if_splits)+

text \<open>An owner that is not waiting keeps exactly what it holds.\<close>

lemma grant_held_other:
  assumes "active_ok active" "waiting_ok ws" "k \<notin> wkey ` set ws"
    and "posix_lock_grant inode active ws = (active', ws', ev)"
  shows "held active' k x = held active k x"
  using assms
proof (induction inode active ws arbitrary: active' ws' ev rule: posix_lock_grant.induct)
  case (2 inode active wl wls)
  let ?a = "posix_lock_do_apply_lock active (w_sessionid wl) (w_owner wl) (w_type wl)
            (w_start wl) (w_end wl) (w_pid wl)"
  have "active_ok ?a" "held ?a k x = held active k x"
    using "2.prems" active_ok_do_apply held_do_apply by (auto simp: wkey_def)
  with 2 show ?case
    by (auto simp: posix_lock_apply_lock_def split: prod.splits if_splits)
qed simp

subsection \<open>The invariant of the table\<close>

definition pil_struct :: "pinodelocks \<Rightarrow> bool" where
  "pil_struct il \<longleftrightarrow>
     active_ok (p_active il) \<and> exclusive (p_active il) \<and> waiting_ok (p_waiting il)"

definition pil_ok :: "pinodelocks \<Rightarrow> bool" where
  "pil_ok il \<longleftrightarrow> pil_struct il \<and> p_active il \<noteq> []"

definition ptable_ok :: "ptable \<Rightarrow> bool" where
  "ptable_ok tab \<longleftrightarrow> ptable_chains tab \<and>
     (\<forall>inode il. posix_lock_inode_find tab inode = Some il \<longrightarrow> pil_ok il)"

lemmas posix_result_simps =
  posix_lock_apply_lock_def posix_lock_append_lock_def posix_lock_inode_empty_def

definition posix_lock_init :: ptable where
  "posix_lock_init = (\<lambda>_. [])"

lemma ptable_ok_init: "ptable_ok posix_lock_init"
  by (simp add: ptable_ok_def posix_lock_init_def ptable_chains_def chains_ok_def
      posix_lock_inode_find_def)

lemma ptable_okD: "ptable_ok tab \<Longrightarrow> posix_lock_inode_find tab inode = Some il \<Longrightarrow>
   ptable_chains tab \<and> pil_ok il \<and> pil_struct il \<and> p_inode il = inode"
  by (auto simp: ptable_ok_def pil_ok_def dest: pd.find_key)

text \<open>The table is fine but for the record of one inode, which is being worked on.\<close>

definition ptable_but :: "u32 \<Rightarrow> ptable \<Rightarrow> bool" where
  "ptable_but inode tab \<longleftrightarrow> ptable_chains tab \<and>
     (\<forall>k il. posix_lock_inode_find tab k = Some il \<longrightarrow> k \<noteq> inode \<longrightarrow> pil_ok il)"

lemma ptable_but_put:
  "ptable_but inode tab \<Longrightarrow> p_inode il = inode \<Longrightarrow> posix_lock_inode_find tab inode \<noteq> None \<Longrightarrow>
   ptable_but inode (posix_lock_inode_put tab il)"
  by (auto simp: ptable_but_def pd.inv_put pd.find_put split: if_splits)

lemma ptable_but_new:
  "ptable_ok tab \<Longrightarrow> posix_lock_inode_find tab inode = None \<Longrightarrow>
   ptable_but inode (posix_lock_inode_new tab inode)"
  by (auto simp: ptable_but_def ptable_ok_def pd.inv_new pd.find_new split: if_splits)

lemma ptable_ok_but: "ptable_ok tab \<Longrightarrow> ptable_but inode tab"
  by (auto simp: ptable_but_def ptable_ok_def)

lemma ptable_ok_put [lock_inv_intros]:
  "ptable_but (p_inode il) tab \<Longrightarrow> posix_lock_inode_find tab (p_inode il) \<noteq> None \<Longrightarrow> pil_ok il \<Longrightarrow>
   ptable_ok (posix_lock_inode_put tab il)"
  by (auto simp: ptable_but_def ptable_ok_def pd.inv_put pd.find_put split: if_splits)

lemma ptable_ok_remove [lock_inv_intros]:
  "ptable_but inode tab \<Longrightarrow> ptable_ok (fst (posix_lock_inode_remove tab inode))"
  by (auto simp: ptable_but_def ptable_ok_def pd.inv_remove pd.find_remove split: if_splits)

lemma check_waiting_ok:
  assumes "ptable_but (p_inode il) tab" "posix_lock_inode_find tab (p_inode il) = Some il"
    and "pil_struct il"
  shows "ptable_ok (fst (posix_lock_check_waiting tab il)) \<and>
    Abort msg \<notin> set (snd (posix_lock_check_waiting tab il))"
proof (cases "p_active il = [] \<and> p_waiting il = []")
  case True
  then have "snd (posix_lock_inode_remove tab (p_inode il)) = []"
    using pd.remove_quiet [OF _ assms(2)] assms(1) by (simp add: ptable_but_def)
  with True ptable_ok_remove [OF assms(1)] show ?thesis by (simp add: posix_lock_check_waiting_def)
next
  case False
  obtain act ws ev where g: "posix_lock_grant (p_inode il) (p_active il) (p_waiting il) = (act, ws, ev)"
    by (metis prod_cases3)
  have "pil_ok (il\<lparr>p_active := act, p_waiting := ws\<rparr>)"
    using grant_inv [OF _ _ _ g] assms(3) False by (auto simp: pil_struct_def pil_ok_def)
  with False g assms grant_no_abort [OF g] show ?thesis
    by (auto simp: posix_lock_check_waiting_def intro!: ptable_ok_put)
qed

subsection \<open>Every operation keeps the invariant\<close>

lemma posix_lock_set_ok:
  assumes "ptable_but (p_inode il) tab" "posix_lock_inode_find tab (p_inode il) \<noteq> None"
    and il: "pil_struct il" and args: "pa_start args < pa_end args"
    and free: "pa_type args \<noteq> POSIX_LOCK_UNLCK \<Longrightarrow>
      \<not> posix_lock_find_offensive_lock (p_active il) ses own (pa_type args) (pa_start args) (pa_end args)"
  shows "ptable_ok (fst (posix_lock_set tab il ses own args)) \<and>
    Abort msg \<notin> set (snd (posix_lock_set tab il ses own args))"
proof -
  let ?a = "posix_lock_do_apply_lock (p_active il) ses own (pa_type args) (pa_start args)
      (pa_end args) (pa_pid args)"
  let ?il = "il\<lparr>p_active := ?a\<rparr>"
  have "pil_struct ?il"
    using il args free by (auto simp: pil_struct_def intro: lock_inv_intros)
  then show ?thesis
    using check_waiting_ok [of ?il "posix_lock_inode_put tab ?il" msg] assms(1,2)
      ptable_but_put [of "p_inode il" tab ?il] pd.find_put_same [of tab ?il]
    by (auto simp: posix_lock_set_def posix_lock_apply_lock_def Let_def split: prod.splits)
qed

lemma interrupt_subset:
  "set (fst (posix_lock_interrupt ws c r)) \<subseteq> set ws \<and>
   Abort msg \<notin> set (snd (posix_lock_interrupt ws c r))"
  by (induction ws) (auto simp: split_def Let_def)

lemma waiting_ok_subset: "waiting_ok ws \<Longrightarrow> set ws' \<subseteq> set ws \<Longrightarrow> waiting_ok ws'"
  by (auto simp: waiting_ok_def)

lemma ptable_ok_waiting:
  assumes "ptable_ok tab" "posix_lock_inode_find tab inode = Some il" "waiting_ok ws"
  shows "ptable_ok (posix_lock_inode_put tab (il\<lparr>p_waiting := ws\<rparr>))"
proof -
  have "pil_ok (il\<lparr>p_waiting := ws\<rparr>)" "p_inode il = inode"
    using ptable_okD [OF assms(1,2)] assms(3) by (auto simp: pil_ok_def pil_struct_def)
  then show ?thesis using assms(1,2) by (auto intro!: ptable_ok_put ptable_ok_but)
qed

lemma posix_lock_cmd_new_ok:
  assumes "ptable_ok tab" "posix_lock_inode_find tab inode = None" "pa_start args < pa_end args"
  shows "ptable_ok (fst (posix_lock_set (posix_lock_inode_new tab inode) (posix_lock_inode_empty inode)
       ses own args)) \<and>
    Abort msg \<notin> set (snd (posix_lock_set (posix_lock_inode_new tab inode) (posix_lock_inode_empty inode)
       ses own args))"
  using assms
  by (intro posix_lock_set_ok)
    (auto simp: posix_lock_inode_empty_def pil_struct_def pd.find_new intro: ptable_but_new)

lemma posix_lock_cmd_old_ok:
  assumes "ptable_ok tab" "posix_lock_inode_find tab inode = Some il" "pa_start args < pa_end args"
    and "pa_type args \<noteq> POSIX_LOCK_UNLCK \<Longrightarrow>
      \<not> posix_lock_find_offensive_lock (p_active il) ses own (pa_type args) (pa_start args) (pa_end args)"
  shows "ptable_ok (fst (posix_lock_set tab il ses own args)) \<and>
    Abort msg \<notin> set (snd (posix_lock_set tab il ses own args))"
  using assms ptable_okD [OF assms(1,2)]
  by (intro posix_lock_set_ok) (auto intro: ptable_ok_but)

text \<open>A range that a client may ask for; it is not looked at by the two query commands.\<close>

definition plock_args_ok :: "u8 \<Rightarrow> plock_args \<Rightarrow> bool" where
  "plock_args_ok op args \<longleftrightarrow>
     op = POSIX_LOCK_CMD_INT \<or> op = POSIX_LOCK_CMD_GET \<or> pa_start args < pa_end args"

lemma posix_lock_cmd_ok:
  assumes "ptable_ok tab" and "plock_args_ok op args"
  shows "ptable_ok (pr_table (posix_lock_cmd chk tab conn ses msgid reqid inode own op args)) \<and>
    Abort msg \<notin> set (pr_events (posix_lock_cmd chk tab conn ses msgid reqid inode own op args))"
proof (cases "posix_lock_inode_find tab inode")
  case None
  show ?thesis
    using assms posix_lock_cmd_new_ok [OF assms(1) None, of args ses own msg]
    by (auto simp: posix_lock_cmd_def None plock_args_ok_def Let_def posix_lock_inode_empty_def
        split: prod.splits)
next
  case (Some il)
  have "waiting_ok (fst (posix_lock_interrupt (p_waiting il) conn reqid))"
    "Abort msg \<notin> set (snd (posix_lock_interrupt (p_waiting il) conn reqid))"
    using ptable_okD [OF assms(1) Some] interrupt_subset [of "p_waiting il" conn reqid msg]
    by (auto simp: pil_struct_def intro: waiting_ok_subset)
  moreover have "ptable_ok (posix_lock_inode_put tab (posix_lock_append_lock il conn ses msgid reqid own
      (pa_type args) (pa_start args) (pa_end args) (pa_pid args)))"
    if "pa_start args < pa_end args" "pa_type args \<noteq> POSIX_LOCK_UNLCK"
    using ptable_okD [OF assms(1) Some] that unfolding posix_lock_append_lock_def
    by (intro ptable_ok_waiting [OF assms(1) Some]) (auto simp: pil_struct_def)
  ultimately show ?thesis
    using assms posix_lock_cmd_old_ok [OF assms(1) Some, of args ses own msg]
      ptable_ok_waiting [OF assms(1) Some]
    by (auto simp: posix_lock_cmd_def Some plock_args_ok_def Let_def split: prod.splits option.splits)
qed

text \<open>Closing a file.\<close>

lemma drop_session_eq:
  "posix_lock_drop_session ses als =
     (filter (\<lambda>al. a_sessionid al \<noteq> ses) als, \<exists>al \<in> set als. a_sessionid al = ses, [])"
  by (induction als) (auto simp: apply_range_unlock_all [simplified])

lemma held_filter_session:
  "held (filter (\<lambda>al. a_sessionid al \<noteq> ses) als) k x =
     (if fst k = ses then POSIX_LOCK_UNLCK else held als k x)"
  by (induction als) (auto simp: held_Cons akey_def)

lemma active_ok_filter: "active_ok als \<Longrightarrow> active_ok (filter P als)"
  by (auto simp: active_ok_def distinct_map_filter)

lemma exclusive_filter_session:
  "exclusive als \<Longrightarrow> exclusive (filter (\<lambda>al. a_sessionid al \<noteq> ses) als)"
  unfolding exclusive_def held_filter_session by simp

lemma posix_lock_file_closed_ok:
  assumes "ptable_ok tab"
  shows "ptable_ok (fst (posix_lock_file_closed tab ses inode)) \<and>
    Abort msg \<notin> set (snd (posix_lock_file_closed tab ses inode))"
proof (cases "posix_lock_inode_find tab inode")
  case None
  with assms show ?thesis by (simp add: posix_lock_file_closed_def)
next
  case (Some il)
  let ?il = "il\<lparr>p_active := filter (\<lambda>al. a_sessionid al \<noteq> ses) (p_active il),
                p_waiting := filter (\<lambda>wl. w_sessionid wl \<noteq> ses) (p_waiting il)\<rparr>"
  let ?tab = "posix_lock_inode_put tab ?il"
  note il = ptable_okD [OF assms Some]
  have struct: "pil_struct ?il"
    using il by (auto simp: pil_struct_def active_ok_filter exclusive_filter_session waiting_ok_filter)
  have but: "ptable_but inode ?tab" and here: "posix_lock_inode_find ?tab inode = Some ?il"
    using il Some assms ptable_but_put [of inode tab ?il] pd.find_put_same [of tab ?il]
    by (auto intro: ptable_ok_but)
  show ?thesis
  proof (cases "\<exists>al \<in> set (p_active il). a_sessionid al = ses")
    case True
    then show ?thesis
      using check_waiting_ok [of ?il ?tab msg] but here struct il Some
      by (simp add: posix_lock_file_closed_def drop_session_eq Let_def split: prod.splits)
  next
    case False
    then have same: "filter (\<lambda>al. a_sessionid al \<noteq> ses) (p_active il) = p_active il"
      by (auto simp: filter_id_conv)
    with il have "pil_ok ?il" using struct by (simp add: pil_ok_def)
    with False same il Some assms show ?thesis
      by (auto simp: posix_lock_file_closed_def drop_session_eq pil_ok_def Let_def
          intro!: ptable_ok_put ptable_ok_but)
  qed
qed

text \<open>Losing a connection.\<close>

lemma find_disconnected:
  "posix_lock_inode_find (posix_lock_disconnected tab c) inode =
     map_option (\<lambda>il. il\<lparr>p_waiting := filter (\<lambda>wl. w_connptr wl \<noteq> c) (p_waiting il)\<rparr>)
       (posix_lock_inode_find tab inode)"
proof -
  have *: "List.find (\<lambda>il. p_inode il = inode)
      (map (\<lambda>il. il\<lparr>p_waiting := filter (\<lambda>wl. w_connptr wl \<noteq> c) (p_waiting il)\<rparr>) xs) =
     map_option (\<lambda>il. il\<lparr>p_waiting := filter (\<lambda>wl. w_connptr wl \<noteq> c) (p_waiting il)\<rparr>)
       (List.find (\<lambda>il. p_inode il = inode) xs)" for xs
    by (induction xs) auto
  show ?thesis
    by (simp add: posix_lock_inode_find_def posix_lock_disconnected_def POSIX_LOCK_INODE_HASH_def
        POSIX_LOCK_INODE_HASHSIZE_def *)
qed

lemma posix_lock_disconnected_ok:
  assumes "ptable_ok tab"
  shows "ptable_ok (posix_lock_disconnected tab c)"
proof -
  have "ptable_chains (posix_lock_disconnected tab c)"
    using assms by (auto simp: ptable_ok_def ptable_chains_def chains_ok_def posix_lock_disconnected_def
        comp_def)
  with assms show ?thesis
    by (auto simp: ptable_ok_def find_disconnected pil_ok_def pil_struct_def waiting_ok_filter)
qed

text \<open>Replaying a changelog line on a table without waiting requests.\<close>

definition ptable_quiet :: "ptable \<Rightarrow> bool" where
  "ptable_quiet tab \<longleftrightarrow> (\<forall>inode il. posix_lock_inode_find tab inode = Some il \<longrightarrow> p_waiting il = [])"

definition active_of :: "ptable \<Rightarrow> u32 \<Rightarrow> alock list" where
  "active_of tab inode =
     (case posix_lock_inode_find tab inode of None \<Rightarrow> [] | Some il \<Rightarrow> p_active il)"

lemma active_of_ok: "ptable_ok tab \<Longrightarrow> active_ok (active_of tab inode) \<and> exclusive (active_of tab inode)"
  by (auto simp: active_of_def ptable_ok_def pil_ok_def pil_struct_def split: option.splits)

lemma active_of_put:
  "posix_lock_inode_find tab (p_inode il) \<noteq> None \<Longrightarrow>
   active_of (posix_lock_inode_put tab il) k = (if k = p_inode il then p_active il else active_of tab k)"
  by (simp add: active_of_def pd.find_put)

lemma active_of_new:
  "posix_lock_inode_find tab inode = None \<Longrightarrow> active_of (posix_lock_inode_new tab inode) k = active_of tab k"
  by (simp add: active_of_def pd.find_new posix_lock_inode_empty_def)

lemma active_of_remove:
  "active_of (fst (posix_lock_inode_remove tab inode)) k = (if k = inode then [] else active_of tab k)"
  by (simp add: active_of_def pd.find_remove)

lemma posix_lock_mr_change_spec:
  assumes ok: "ptable_ok tab" and quiet: "ptable_quiet tab" and ne: "start < end"
    and type: "posix_mr_type cmd = Some type"
    and found: "type = POSIX_LOCK_UNLCK \<Longrightarrow> posix_lock_inode_find tab inode \<noteq> None"
    and free: "type \<noteq> POSIX_LOCK_UNLCK \<Longrightarrow>
      \<not> posix_lock_find_offensive_lock (active_of tab inode) ses own type start end"
    and res: "posix_lock_mr_change tab inode ses own cmd start end pid = (st, tab', ev)"
  shows "st = MFS_STATUS_OK \<and> ptable_ok tab' \<and> ptable_quiet tab' \<and> ev = [Meta_version_inc] \<and>
    (\<forall>k. active_of tab' k =
      (if k = inode then posix_lock_do_apply_lock (active_of tab inode) ses own type start end pid
       else active_of tab k))"
proof -
  let ?a = "posix_lock_do_apply_lock (active_of tab inode) ses own type start end pid"
  obtain tab1 il where t: "(case posix_lock_inode_find tab inode of
         Some il \<Rightarrow> Some (tab, il)
       | None \<Rightarrow> if type = POSIX_LOCK_UNLCK then None
                 else Some (posix_lock_inode_new tab inode, posix_lock_inode_empty inode)) = Some (tab1, il)"
    using found by (cases "posix_lock_inode_find tab inode"; cases "type = POSIX_LOCK_UNLCK") auto
  have a: "p_active il = active_of tab inode" "p_inode il = inode" "p_waiting il = []"
    and t1: "posix_lock_inode_find tab1 inode = Some il" "ptable_but inode tab1"
    and rest: "\<And>k. k \<noteq> inode \<Longrightarrow> posix_lock_inode_find tab1 k = posix_lock_inode_find tab k"
    using t ok quiet ptable_okD [OF ok] ptable_but_new [OF ok]
    by (auto simp: active_of_def posix_lock_inode_empty_def ptable_quiet_def pd.find_new
        split: option.splits if_splits intro: ptable_ok_but)
  let ?il = "il\<lparr>p_active := ?a\<rparr>"
  have struct: "pil_struct ?il"
    using active_of_ok [OF ok, of inode] ne free a(3) by (auto simp: pil_struct_def intro: lock_inv_intros)
  have t2: "posix_lock_inode_find (posix_lock_inode_put tab1 ?il) inode = Some ?il"
    "ptable_but inode (posix_lock_inode_put tab1 ?il)"
    using t1 a pd.find_put_same [of tab1 ?il] ptable_but_put [of inode tab1 ?il] by auto
  have rem: "?a = [] \<Longrightarrow> snd (posix_lock_inode_remove (posix_lock_inode_put tab1 ?il) inode) = []"
    using pd.remove_quiet [OF _ t2(1)] t2(2) a by (simp add: ptable_but_def)
  have "tab' = (if ?a = [] then fst (posix_lock_inode_remove (posix_lock_inode_put tab1 ?il) inode)
        else posix_lock_inode_put tab1 ?il)"
    and st: "st = MFS_STATUS_OK" "ev = [Meta_version_inc]"
    using res t type free a rem
    by (auto simp: posix_lock_mr_change_def Let_def split: if_splits prod.splits option.splits)
  moreover have "?a \<noteq> [] \<Longrightarrow> ptable_ok (posix_lock_inode_put tab1 ?il)"
    using struct t1 a by (auto simp: pil_ok_def intro!: ptable_ok_put)
  ultimately show ?thesis
    using ptable_ok_remove [OF t2(2)] t1 t2 a rest quiet
    by (auto simp: active_of_remove active_of_put ptable_quiet_def pd.find_remove pd.find_put
        active_of_def)
qed

end
