(* ===== verification/Posix_Replay.thy ===== *)
theory Posix_Replay
  imports Posix_Locks
begin

text \<open>
  The changelog that the POSIX lock manager writes and its replay on a metalogger or on a restarted
  master (\<^verbatim>\<open>do_posixlock\<close> in \<^verbatim>\<open>restore.c\<close>): replaying the lines of any client command on a replica
  is accepted and gives the active locks of the live master.
\<close>

subsection \<open>Replaying one line\<close>

text \<open>Replaying the \<^verbatim>\<open>POSIXLOCK\<close> lines of a changelog (\<^verbatim>\<open>do_posixlock\<close> in \<^verbatim>\<open>restore.c\<close>): the
  replay stops at the first line that is refused.\<close>

fun posix_replay :: "ptable \<Rightarrow> changelog_entry list \<Rightarrow> u8 \<times> ptable" where
  "posix_replay tab [] = (MFS_STATUS_OK, tab)"
| "posix_replay tab (POSIXLOCK inode ses own cmd start end pid # es) =
     (let (st, tab', ev) = posix_lock_mr_change tab inode ses own cmd start end pid
      in if st = MFS_STATUS_OK then posix_replay tab' es else (st, tab'))"
| "posix_replay tab (e # es) = posix_replay tab es"

definition real_type :: "u8 \<Rightarrow> bool" where
  "real_type t \<longleftrightarrow> t = POSIX_LOCK_UNLCK \<or> t = POSIX_LOCK_RDLCK \<or> t = POSIX_LOCK_WRLCK"

lemma mr_type_cmd_char: "real_type t \<Longrightarrow> posix_mr_type (posix_cmd_char t) = Some t"
  by (auto simp: real_type_def posix_mr_type_def posix_cmd_char_def)

definition waiting_real :: "ptable \<Rightarrow> bool" where
  "waiting_real tab \<longleftrightarrow> (\<forall>inode il. posix_lock_inode_find tab inode = Some il \<longrightarrow>
     (\<forall>wl \<in> set (p_waiting il). real_type (w_type wl)))"

text \<open>A live table and a replica rebuilt from the changelog.\<close>

definition replica_of :: "ptable \<Rightarrow> ptable \<Rightarrow> bool" where
  "replica_of live rep \<longleftrightarrow> ptable_ok rep \<and> ptable_quiet rep \<and>
     (\<forall>k. active_of rep k = active_of live k)"

lemma replay_one:
  assumes "ptable_ok rep" "ptable_quiet rep" "start < end" "real_type type"
    and "type = POSIX_LOCK_UNLCK \<Longrightarrow> active_of rep inode \<noteq> []"
    and "type \<noteq> POSIX_LOCK_UNLCK \<Longrightarrow>
      \<not> posix_lock_find_offensive_lock (active_of rep inode) ses own type start end"
  shows "\<exists>rep'. posix_replay rep (POSIXLOCK inode ses own (posix_cmd_char type) start end pid # es) =
      posix_replay rep' es \<and> ptable_ok rep' \<and> ptable_quiet rep' \<and>
      (\<forall>k. active_of rep' k = (if k = inode
         then posix_lock_do_apply_lock (active_of rep inode) ses own type start end pid
         else active_of rep k))"
proof -
  obtain st rep' ev where r:
    "posix_lock_mr_change rep inode ses own (posix_cmd_char type) start end pid = (st, rep', ev)"
    by (metis prod_cases3)
  have "type = POSIX_LOCK_UNLCK \<Longrightarrow> posix_lock_inode_find rep inode \<noteq> None"
    using assms(5) by (auto simp: active_of_def split: option.splits)
  from posix_lock_mr_change_spec [OF assms(1-3) mr_type_cmd_char [OF assms(4)] this assms(6) r]
  show ?thesis using r by (intro exI [of _ rep']) auto
qed

lemma grant_replay:
  assumes "posix_lock_grant inode active ws = (active', ws', ev)"
    and "waiting_ok ws" "\<forall>wl \<in> set ws. real_type (w_type wl)"
    and "ptable_ok rep" "ptable_quiet rep" "active_of rep inode = active"
  shows "\<exists>rep'. posix_replay rep (changelog_of ev) = (MFS_STATUS_OK, rep') \<and>
    ptable_ok rep' \<and> ptable_quiet rep' \<and>
    (\<forall>k. active_of rep' k = (if k = inode then active' else active_of rep k))"
  using assms
proof (induction inode active ws arbitrary: active' ws' ev rep rule: posix_lock_grant.induct)
  case (1 inode active)
  then show ?case by auto
next
  case (2 inode active wl wls)
  show ?case
  proof (cases "posix_lock_find_offensive_lock active (w_sessionid wl) (w_owner wl) (w_type wl)
      (w_start wl) (w_end wl)")
    case True
    obtain ws2 where "posix_lock_grant inode active wls = (active', ws2, ev)"
      using True "2.prems"(1) by (auto split: prod.splits)
    from "2.IH"(2) [OF _ this] show ?thesis using True "2.prems"(2-6) by simp
  next
    case False
    let ?a = "posix_lock_do_apply_lock active (w_sessionid wl) (w_owner wl) (w_type wl)
      (w_start wl) (w_end wl) (w_pid wl)"
    obtain ev2 where ev2: "posix_lock_grant inode ?a wls = (active', ws', ev2)"
      and ev: "changelog_of ev = POSIXLOCK inode (w_sessionid wl) (w_owner wl)
          (posix_cmd_char (w_type wl)) (w_start wl) (w_end wl) (w_pid wl) # changelog_of ev2"
      using False "2.prems"(1) by (auto simp: posix_lock_apply_lock_def split: prod.splits)
    obtain rep1 where rep1: "posix_replay rep (changelog_of ev) = posix_replay rep1 (changelog_of ev2)"
      "ptable_ok rep1" "ptable_quiet rep1"
      "\<forall>k. active_of rep1 k = (if k = inode then ?a else active_of rep k)"
      using replay_one [of rep "w_start wl" "w_end wl" "w_type wl" inode "w_sessionid wl"
          "w_owner wl" "w_pid wl" "changelog_of ev2"] "2.prems" False ev by auto
    have "\<exists>rep'. posix_replay rep1 (changelog_of ev2) = (MFS_STATUS_OK, rep') \<and>
      ptable_ok rep' \<and> ptable_quiet rep' \<and>
      (\<forall>k. active_of rep' k = (if k = inode then active' else active_of rep1 k))"
      using "2.IH"(1) [OF False _ _ ev2, of _ _ rep1] "2.prems"(2,3) rep1
      by (auto simp: posix_lock_apply_lock_def)
    with rep1 show ?thesis by auto
  qed
qed

lemma check_waiting_active:
  assumes "posix_lock_inode_find tab (p_inode il) \<noteq> None"
    and "posix_lock_grant (p_inode il) (p_active il) (p_waiting il) = (active', ws', ev)"
  shows "active_of (fst (posix_lock_check_waiting tab il)) k =
    (if k = p_inode il then active' else active_of tab k)"
  using assms by (auto simp: posix_lock_check_waiting_def active_of_remove active_of_put)

lemma check_waiting_changelog:
  assumes "ptable_but (p_inode il) tab" "posix_lock_inode_find tab (p_inode il) = Some il"
    and "posix_lock_grant (p_inode il) (p_active il) (p_waiting il) = (active', ws', ev)"
  shows "snd (posix_lock_check_waiting tab il) = ev"
  using assms pd.remove_quiet [OF _ assms(2)]
  by (auto simp: posix_lock_check_waiting_def ptable_but_def)

lemma posix_set_replay:
  assumes tab: "ptable_but (p_inode il) tab" "posix_lock_inode_find tab (p_inode il) \<noteq> None"
    and il: "pil_struct il" "\<forall>wl \<in> set (p_waiting il). real_type (w_type wl)"
    and args: "pa_start args < pa_end args" "real_type (pa_type args)"
    and free: "pa_type args \<noteq> POSIX_LOCK_UNLCK \<Longrightarrow>
      \<not> posix_lock_find_offensive_lock (p_active il) ses own (pa_type args) (pa_start args) (pa_end args)"
    and held: "pa_type args = POSIX_LOCK_UNLCK \<Longrightarrow> p_active il \<noteq> []"
    and rep: "ptable_ok rep" "ptable_quiet rep" "active_of rep (p_inode il) = p_active il"
      "\<forall>k. k \<noteq> p_inode il \<longrightarrow> active_of rep k = active_of tab k"
  shows "\<exists>rep'. posix_replay rep (changelog_of (snd (posix_lock_set tab il ses own args))) =
      (MFS_STATUS_OK, rep') \<and> replica_of (fst (posix_lock_set tab il ses own args)) rep'"
proof -
  let ?a = "posix_lock_do_apply_lock (p_active il) ses own (pa_type args) (pa_start args)
      (pa_end args) (pa_pid args)"
  let ?il = "il\<lparr>p_active := ?a\<rparr>"
  let ?tab = "posix_lock_inode_put tab ?il"
  have il1: "pil_struct ?il" "waiting_ok (p_waiting il)"
    using il args free by (auto simp: pil_struct_def intro: lock_inv_intros)
  have t1: "ptable_but (p_inode il) ?tab" "posix_lock_inode_find ?tab (p_inode il) = Some ?il"
    using ptable_but_put [OF tab(1), of ?il] pd.find_put_same [of tab ?il] tab by auto
  obtain act ws ev where g: "posix_lock_grant (p_inode il) ?a (p_waiting il) = (act, ws, ev)"
    by (metis prod_cases3)
  have ev: "snd (posix_lock_check_waiting ?tab ?il) = ev"
    using check_waiting_changelog [of ?il ?tab act ws ev] t1 g by simp
  have cw: "active_of (fst (posix_lock_check_waiting ?tab ?il)) k =
      (if k = p_inode il then act else active_of tab k)" for k
    using check_waiting_active [of ?tab ?il act ws ev k] t1 g tab(2)
    by (simp add: active_of_put [of tab ?il])
  obtain rep1 where rep1: "ptable_ok rep1" "ptable_quiet rep1"
    "posix_replay rep (POSIXLOCK (p_inode il) ses own (posix_cmd_char (pa_type args)) (pa_start args)
       (pa_end args) (pa_pid args) # changelog_of ev) = posix_replay rep1 (changelog_of ev)"
    "\<forall>k. active_of rep1 k = (if k = p_inode il then ?a else active_of rep k)"
    using replay_one [of rep "pa_start args" "pa_end args" "pa_type args" "p_inode il" ses own
        "pa_pid args" "changelog_of ev"] rep args free held by auto
  obtain rep' where "posix_replay rep1 (changelog_of ev) = (MFS_STATUS_OK, rep')"
    "ptable_ok rep'" "ptable_quiet rep'"
    "\<forall>k. active_of rep' k = (if k = p_inode il then act else active_of rep1 k)"
    using grant_replay [OF g il1(2) il(2) rep1(1,2)] rep1(4) by auto
  then show ?thesis
    using rep1 rep(4) cw ev
    by (auto simp: posix_lock_set_def posix_lock_apply_lock_def Let_def replica_of_def split_def)
qed

lemma replica_of_cong:
  "replica_of tab rep \<Longrightarrow> (\<And>k. active_of tab' k = active_of tab k) \<Longrightarrow> replica_of tab' rep"
  by (simp add: replica_of_def)

lemma active_of_put_waiting:
  "posix_lock_inode_find tab inode = Some il \<Longrightarrow> p_inode il' = inode \<Longrightarrow> p_active il' = p_active il \<Longrightarrow>
   active_of (posix_lock_inode_put tab il') k = active_of tab k"
  by (simp add: active_of_def pd.find_put)

lemma interrupt_no_changelog [simp]:
  "changelog_of (snd (posix_lock_interrupt ws c r)) = []"
  by (induction ws) (auto simp: split_def Let_def)

subsection \<open>Replaying a client command\<close>

lemma posix_cmd_replay:
  assumes tab: "ptable_ok tab" "waiting_real tab" and args: "plock_args_ok op args"
    and real: "real_type (pa_type args)" and rep: "replica_of tab rep"
  shows "\<exists>rep'. posix_replay rep (changelog_of (pr_events
        (posix_lock_cmd chk tab conn ses msgid reqid inode own op args))) = (MFS_STATUS_OK, rep') \<and>
      replica_of (pr_table (posix_lock_cmd chk tab conn ses msgid reqid inode own op args)) rep'"
proof (cases "posix_lock_inode_find tab inode")
  case None
  let ?il = "posix_lock_inode_empty inode" let ?tab = "posix_lock_inode_new tab inode"
  have "\<exists>rep'. posix_replay rep (changelog_of (snd (posix_lock_set ?tab ?il ses own args))) =
      (MFS_STATUS_OK, rep') \<and> replica_of (fst (posix_lock_set ?tab ?il ses own args)) rep'"
    if "pa_start args < pa_end args" "pa_type args \<noteq> POSIX_LOCK_UNLCK"
    using that real rep tab None
    by (intro posix_set_replay)
      (auto simp: posix_lock_inode_empty_def pil_struct_def pd.find_new replica_of_def active_of_new
        active_of_def intro: ptable_but_new)
  then show ?thesis
    using rep args
    by (auto simp: posix_lock_cmd_def None plock_args_ok_def Let_def split_def
        posix_lock_inode_empty_def)
next
  case (Some il)
  note il = ptable_okD [OF tab(1) Some]
  have set: "\<exists>rep'. posix_replay rep (changelog_of (snd (posix_lock_set tab il ses own args))) =
      (MFS_STATUS_OK, rep') \<and> replica_of (fst (posix_lock_set tab il ses own args)) rep'"
    if "pa_start args < pa_end args" "pa_type args \<noteq> POSIX_LOCK_UNLCK \<Longrightarrow>
      \<not> posix_lock_find_offensive_lock (p_active il) ses own (pa_type args) (pa_start args) (pa_end args)"
    using that real rep tab il Some
    by (intro posix_set_replay)
      (auto simp: pil_ok_def waiting_real_def replica_of_def active_of_def intro: ptable_ok_but)
  have put: "replica_of (posix_lock_inode_put tab il') rep"
    if "p_inode il' = inode" "p_active il' = p_active il" for il'
    using replica_of_cong [OF rep] active_of_put_waiting [OF Some that] by blast
  show ?thesis
    using rep args set il
    by (auto simp: posix_lock_cmd_def Some plock_args_ok_def Let_def split_def
        posix_lock_append_lock_def split: option.splits intro!: put)
qed

subsection \<open>Property\<close>

text \<open>
  C8. Replay of the POSIX lock manager: if a replica has the active locks of the live table, then the
  changelog lines that \<^verbatim>\<open>posix_lock_cmd\<close> writes for a request with a real lock type and a non-empty
  range, including those for the waiting requests it grants (which have real types too), are accepted
  one after the other, and
  the replica then has the active locks of the new live table again: every owner, every range and
  every process number.
\<close>

theorem posix_cmd_replays:
  assumes "ptable_ok tab" "waiting_real tab" "plock_args_ok op args" "real_type (pa_type args)"
    and "replica_of tab rep"
    and "r = posix_lock_cmd chk tab conn ses msgid reqid inode own op args"
  shows "\<exists>rep'. posix_replay rep (changelog_of (pr_events r)) = (MFS_STATUS_OK, rep') \<and>
    replica_of (pr_table r) rep'"
  using posix_cmd_replay [OF assms(1-5)] assms(6) by simp

theorem posix_cmd_replays_witness:
  "\<exists>rep'. posix_replay posix_lock_init [POSIXLOCK 8 5 9 (CHR ''W'') 10 20 7] = (MFS_STATUS_OK, rep') \<and>
    replica_of (pr_table (posix_lock_cmd (\<lambda>_ _. True) posix_lock_init 1 5 6 7 8 9 POSIX_LOCK_CMD_SET
      \<lparr>pa_type = POSIX_LOCK_WRLCK, pa_start = 10, pa_end = 20, pa_pid = 7\<rparr>)) rep'"
proof -
  let ?r = "posix_lock_cmd (\<lambda>_ _. True) posix_lock_init 1 5 6 7 8 9 POSIX_LOCK_CMD_SET
      \<lparr>pa_type = POSIX_LOCK_WRLCK, pa_start = 10, pa_end = 20, pa_pid = 7\<rparr>"
  have "waiting_real posix_lock_init" "replica_of posix_lock_init posix_lock_init"
    using ptable_ok_init
    by (auto simp: waiting_real_def replica_of_def ptable_quiet_def posix_lock_init_def posix_lock_inode_find_def)
  moreover have "changelog_of (pr_events ?r) = [POSIXLOCK 8 5 9 (CHR ''W'') 10 20 7]"
    by (simp add: posix_lock_cmd_def posix_lock_init_def posix_lock_inode_find_def posix_lock_inode_empty_def
        posix_lock_set_def posix_lock_apply_lock_def posix_lock_check_waiting_def posix_cmd_char_def Let_def)
  ultimately show ?thesis
    using posix_cmd_replays [OF ptable_ok_init _ _ _ _ refl, of POSIX_LOCK_CMD_SET
        "\<lparr>pa_type = POSIX_LOCK_WRLCK, pa_start = 10, pa_end = 20, pa_pid = 7\<rparr>" posix_lock_init
        "\<lambda>_ _. True" 1 5 6 7 8 9]
    by (simp add: plock_args_ok_def real_type_def)
qed

end
