(* ===== verification/Posix_Spec.thy ===== *)
theory Posix_Spec
  imports Posix_Locks
begin

text \<open>
  What the POSIX lock manager promises, without its hash table, its per-owner lists and its range
  lists: per inode a function that says what every owner holds at every byte, and the queue of
  waiting requests. The client command of \<^verbatim>\<open>posixlocks.c\<close> refines this specification: same
  status, same changelog lines and wake-ups, and the abstract states correspond. The liveness
  statement about the queue is proved on the specification and carried over.
\<close>

subsection \<open>The specification\<close>

type_synonym pheld = "lock_owner \<Rightarrow> u64 \<Rightarrow> u8"
type_synonym pspec = "u32 \<Rightarrow> pheld \<times> wlock list"

definition nothing_held :: pheld where
  "nothing_held = (\<lambda>_ _. POSIX_LOCK_UNLCK)"

definition spec_blocked :: "pheld \<Rightarrow> lock_owner \<Rightarrow> u8 \<Rightarrow> u64 \<Rightarrow> u64 \<Rightarrow> bool" where
  "spec_blocked h k type start end \<longleftrightarrow>
     (\<exists>k' x. k' \<noteq> k \<and> start \<le> x \<and> x < end \<and> conflicting type (h k' x))"

definition spec_apply :: "pheld \<Rightarrow> lock_owner \<Rightarrow> u8 \<Rightarrow> u64 \<Rightarrow> u64 \<Rightarrow> pheld" where
  "spec_apply h k type start end =
     (\<lambda>k' x. if k' = k \<and> start \<le> x \<and> x < end then type else h k' x)"

abbreviation w_blocked :: "pheld \<Rightarrow> wlock \<Rightarrow> bool" where
  "w_blocked h wl \<equiv> spec_blocked h (wkey wl) (w_type wl) (w_start wl) (w_end wl)"

abbreviation w_apply :: "pheld \<Rightarrow> wlock \<Rightarrow> pheld" where
  "w_apply h wl \<equiv> spec_apply h (wkey wl) (w_type wl) (w_start wl) (w_end wl)"

text \<open>One pass over the queue: what is held then, who still waits, who was granted.\<close>

fun spec_grant :: "pheld \<Rightarrow> wlock list \<Rightarrow> pheld \<times> wlock list \<times> wlock list" where
  "spec_grant h [] = (h, [], [])"
| "spec_grant h (wl # wls) =
     (if w_blocked h wl then (let (h', ws, gs) = spec_grant h wls in (h', wl # ws, gs))
      else (let (h', ws, gs) = spec_grant (w_apply h wl) wls in (h', ws, wl # gs)))"

definition spec_line :: "u32 \<Rightarrow> lock_owner \<Rightarrow> u8 \<Rightarrow> u64 \<Rightarrow> u64 \<Rightarrow> u32 \<Rightarrow> out_event" where
  "spec_line inode k type start end pid =
     Changelog (POSIXLOCK inode (fst k) (snd k) (posix_cmd_char type) start end pid)"

definition spec_granted :: "u32 \<Rightarrow> wlock list \<Rightarrow> out_event list" where
  "spec_granted inode gs = concat (map (\<lambda>wl.
     [spec_line inode (wkey wl) (w_type wl) (w_start wl) (w_end wl) (w_pid wl),
      Posix_wake_up (w_connptr wl) (w_msgid wl) MFS_STATUS_OK]) gs)"

definition spec_set ::
  "pspec \<Rightarrow> u32 \<Rightarrow> lock_owner \<Rightarrow> plock_args \<Rightarrow> pspec \<times> out_event list" where
  "spec_set st inode k args =
     (let (h', ws, gs) = spec_grant
            (spec_apply (fst (st inode)) k (pa_type args) (pa_start args) (pa_end args)) (snd (st inode))
      in (st(inode := (h', ws)),
          spec_line inode k (pa_type args) (pa_start args) (pa_end args) (pa_pid args)
            # spec_granted inode gs))"

text \<open>An interrupt takes the first matching request out of the queue.\<close>

definition spec_interrupt :: "wlock list \<Rightarrow> connptr \<Rightarrow> u32 \<Rightarrow> wlock list \<times> out_event list" where
  "spec_interrupt ws conn reqid =
     (let other = (\<lambda>wl. \<not> (w_connptr wl = conn \<and> w_reqid wl = reqid))
      in case dropWhile other ws of
           [] \<Rightarrow> (ws, [])
         | wl # rest \<Rightarrow> (takeWhile other ws @ rest, [Posix_wake_up conn (w_msgid wl) MFS_ERROR_EINTR]))"

definition spec_cmd ::
  "(u32 \<Rightarrow> u32 \<Rightarrow> bool) \<Rightarrow> pspec \<Rightarrow> connptr \<Rightarrow> u32 \<Rightarrow> u32 \<Rightarrow> u32 \<Rightarrow> u32 \<Rightarrow> u64 \<Rightarrow> u8 \<Rightarrow> plock_args
     \<Rightarrow> u8 \<times> pspec \<times> out_event list" where
  "spec_cmd is_open st conn ses msgid reqid inode own op args =
     (let (h, ws) = st inode; k = (ses, own);
          type = pa_type args; start = pa_start args; end' = pa_end args
      in if op \<in> {POSIX_LOCK_CMD_SET, POSIX_LOCK_CMD_TRY} \<and> type \<noteq> POSIX_LOCK_UNLCK
            \<and> \<not> is_open ses inode then (MFS_ERROR_NOTOPENED, st, [])
         else if op = POSIX_LOCK_CMD_INT then
           (let (ws', ev) = spec_interrupt ws conn reqid in (MFS_STATUS_OK, st(inode := (h, ws')), ev))
         else if op = POSIX_LOCK_CMD_GET \<or> (type = POSIX_LOCK_UNLCK \<and> h = nothing_held)
         then (MFS_STATUS_OK, st, [])
         else if type \<noteq> POSIX_LOCK_UNLCK \<and> spec_blocked h k type start end' then
           (if op = POSIX_LOCK_CMD_TRY then (MFS_ERROR_EAGAIN, st, [])
            else (MFS_ERROR_WAITING,
                  st(inode := (h, ws @ [\<lparr>w_owner = own, w_connptr = conn, w_sessionid = ses,
                       w_pid = pa_pid args, w_msgid = msgid, w_reqid = reqid, w_start = start,
                       w_end = end', w_type = type\<rparr>])), []))
         else (let (st', ev) = spec_set st inode k args in (MFS_STATUS_OK, st', ev)))"

subsection \<open>The abstraction\<close>

definition waiting_of :: "ptable \<Rightarrow> u32 \<Rightarrow> wlock list" where
  "waiting_of tab inode =
     (case posix_lock_inode_find tab inode of None \<Rightarrow> [] | Some il \<Rightarrow> p_waiting il)"

definition posix_abs :: "ptable \<Rightarrow> pspec" where
  "posix_abs tab = (\<lambda>inode. (held (active_of tab inode), waiting_of tab inode))"

lemma held_Nil_fun: "held [] = nothing_held"
  by (simp add: fun_eq_iff nothing_held_def)

lemma held_do_apply_fun:
  "active_ok als \<Longrightarrow> start < end \<Longrightarrow>
   held (posix_lock_do_apply_lock als ses own type start end pid) = spec_apply (held als) (ses, own) type start end"
  by (simp add: fun_eq_iff spec_apply_def held_do_apply)

lemma find_offensive_spec:
  "active_ok als \<Longrightarrow> start < end \<Longrightarrow> type \<noteq> POSIX_LOCK_UNLCK \<Longrightarrow>
   posix_lock_find_offensive_lock als ses own type start end = spec_blocked (held als) (ses, own) type start end"
  unfolding spec_blocked_def by (rule find_offensive_iff)

lemma held_nonempty:
  assumes "active_ok als" "als \<noteq> []"
  shows "held als \<noteq> nothing_held"
proof -
  obtain al als' where als: "als = al # als'" using assms(2) by (cases als) auto
  then obtain r rs where r: "a_ranges al = r # rs" "range_ok r"
    using assms(1) by (cases "a_ranges al") (auto simp: active_ok_def)
  then have "range_at (a_ranges al) (r_start r) \<noteq> POSIX_LOCK_UNLCK"
    by (auto simp: in_range_def range_ok_def)
  then have "held als (akey al) (r_start r) \<noteq> nothing_held (akey al) (r_start r)"
    by (simp add: als held_Cons nothing_held_def)
  then show ?thesis by metis
qed

lemma grant_spec:
  assumes "active_ok active" "waiting_ok ws"
    and "posix_lock_grant inode active ws = (active', ws', ev)"
  shows "\<exists>gs. spec_grant (held active) ws = (held active', ws', gs) \<and> ev = spec_granted inode gs"
  using assms
proof (induction inode active ws arbitrary: active' ws' ev rule: posix_lock_grant.induct)
  case (1 inode active)
  then show ?case by (simp add: spec_granted_def)
next
  case (2 inode active wl wls)
  let ?a = "posix_lock_do_apply_lock active (w_sessionid wl) (w_owner wl) (w_type wl)
            (w_start wl) (w_end wl) (w_pid wl)"
  have w: "w_start wl < w_end wl" "w_type wl \<noteq> POSIX_LOCK_UNLCK" "waiting_ok wls"
    using "2.prems"(2) by auto
  have blk: "posix_lock_find_offensive_lock active (w_sessionid wl) (w_owner wl) (w_type wl)
      (w_start wl) (w_end wl) = w_blocked (held active) wl"
    using find_offensive_spec [OF "2.prems"(1) w(1,2)] by (simp add: wkey_def)
  have a: "held ?a = w_apply (held active) wl" "active_ok ?a"
    using held_do_apply_fun [OF "2.prems"(1) w(1)] active_ok_do_apply [OF "2.prems"(1) w(1)]
    by (auto simp: wkey_def)
  show ?case
  proof (cases "w_blocked (held active) wl")
    case True
    obtain ws2 where "posix_lock_grant inode active wls = (active', ws2, ev)" "ws' = wl # ws2"
      using True blk "2.prems"(3) by (auto split: prod.splits)
    with "2.IH"(2) [of active' ws2 ev] True blk "2.prems"(1) w(3) show ?thesis by auto
  next
    case False
    obtain ev2 where ev2: "posix_lock_grant inode ?a wls = (active', ws', ev2)"
      and ev: "ev = spec_granted inode [wl] @ ev2"
      using False blk "2.prems"(3)
      by (auto simp: posix_lock_apply_lock_def spec_granted_def spec_line_def wkey_def split: prod.splits)
    then obtain gs where "spec_grant (w_apply (held active) wl) wls = (held active', ws', gs)"
      "ev2 = spec_granted inode gs"
      using "2.IH"(1) [unfolded posix_lock_apply_lock_def, OF _ refl refl a(2) w(3) ev2] False blk a(1)
      by auto
    with False ev show ?thesis by (intro exI [of _ "wl # gs"]) (auto simp: spec_granted_def)
  qed
qed

lemma interrupt_spec: "posix_lock_interrupt ws conn reqid = spec_interrupt ws conn reqid"
  by (induction ws) (auto simp: spec_interrupt_def Let_def simp del: dropWhile_eq_Nil_conv
      split: list.splits)

subsection \<open>The command refines the specification\<close>

lemma find_posix_set:
  assumes "ptable_but (p_inode il) tab" "posix_lock_inode_find tab (p_inode il) \<noteq> None"
    and "posix_lock_grant (p_inode il) (posix_lock_do_apply_lock (p_active il) ses own (pa_type args)
        (pa_start args) (pa_end args) (pa_pid args)) (p_waiting il) = (act, ws, ev)"
  shows "active_of (fst (posix_lock_set tab il ses own args)) k =
      (if k = p_inode il then act else active_of tab k) \<and>
    waiting_of (fst (posix_lock_set tab il ses own args)) k =
      (if k = p_inode il then ws else waiting_of tab k) \<and>
    snd (posix_lock_set tab il ses own args) =
      spec_line (p_inode il) (ses, own) (pa_type args) (pa_start args) (pa_end args) (pa_pid args) # ev"
proof -
  let ?il = "il\<lparr>p_active := posix_lock_do_apply_lock (p_active il) ses own (pa_type args)
        (pa_start args) (pa_end args) (pa_pid args)\<rparr>"
  let ?tab = "posix_lock_inode_put tab ?il"
  have t: "ptable_but (p_inode il) ?tab" "posix_lock_inode_find ?tab (p_inode il) = Some ?il"
    using ptable_but_put [OF assms(1), of ?il] pd.find_put_same [of tab ?il] assms(2) by auto
  have "snd (posix_lock_inode_remove ?tab (p_inode il)) = []"
    if "p_active ?il = []" "p_waiting ?il = []"
    using pd.remove_quiet [OF _ t(2)] t(1) that by (simp add: ptable_but_def)
  then show ?thesis
    using assms t
    by (auto simp: posix_lock_set_def posix_lock_apply_lock_def posix_lock_check_waiting_def Let_def
        split_def spec_line_def active_of_def waiting_of_def pd.find_put pd.find_remove)
qed

lemma posix_set_spec:
  assumes "ptable_but (p_inode il) tab" "posix_lock_inode_find tab (p_inode il) \<noteq> None"
    and il: "pil_struct il" and args: "pa_start args < pa_end args"
    and abs: "st (p_inode il) = (held (p_active il), p_waiting il)"
      "\<And>k. k \<noteq> p_inode il \<Longrightarrow> st k = posix_abs tab k"
  shows "spec_set st (p_inode il) (ses, own) args =
    (posix_abs (fst (posix_lock_set tab il ses own args)), snd (posix_lock_set tab il ses own args))"
proof -
  let ?a = "posix_lock_do_apply_lock (p_active il) ses own (pa_type args) (pa_start args)
      (pa_end args) (pa_pid args)"
  obtain act ws ev where g: "posix_lock_grant (p_inode il) ?a (p_waiting il) = (act, ws, ev)"
    by (metis prod_cases3)
  have ok: "active_ok (p_active il)" "waiting_ok (p_waiting il)" using il by (auto simp: pil_struct_def)
  have h: "held ?a = spec_apply (held (p_active il)) (ses, own) (pa_type args) (pa_start args) (pa_end args)"
    using held_do_apply_fun [OF ok(1) args] .
  obtain gs where "spec_grant (held ?a) (p_waiting il) = (held act, ws, gs)"
    "ev = spec_granted (p_inode il) gs"
    using grant_spec [OF active_ok_do_apply [OF ok(1) args] ok(2) g] by blast
  with h abs find_posix_set [OF assms(1,2) g] show ?thesis
    by (auto simp: spec_set_def posix_abs_def intro!: ext)
qed

lemma posix_abs_put:
  "posix_lock_inode_find tab (p_inode il) \<noteq> None \<Longrightarrow>
   posix_abs (posix_lock_inode_put tab il) =
     (posix_abs tab)(p_inode il := (held (p_active il), p_waiting il))"
  by (auto simp: posix_abs_def active_of_def waiting_of_def pd.find_put intro!: ext)

lemma posix_abs_None:
  "posix_lock_inode_find tab inode = None \<Longrightarrow> posix_abs tab inode = (nothing_held, [])"
  by (simp add: posix_abs_def active_of_def waiting_of_def held_Nil_fun)

lemma posix_abs_Some:
  "posix_lock_inode_find tab inode = Some il \<Longrightarrow> posix_abs tab inode = (held (p_active il), p_waiting il)"
  by (simp add: posix_abs_def active_of_def waiting_of_def)

lemma nothing_blocks: "\<not> spec_blocked nothing_held k type start end"
  by (simp add: spec_blocked_def nothing_held_def)

lemma posix_cmd_refines_None:
  assumes "ptable_ok tab" "plock_args_ok op args" "posix_lock_inode_find tab inode = None"
    and r: "r = posix_lock_cmd chk tab conn ses msgid reqid inode own op args"
  shows "spec_cmd chk (posix_abs tab) conn ses msgid reqid inode own op args =
    (pr_status r, posix_abs (pr_table r), pr_events r)"
proof -
  let ?il = "posix_lock_inode_empty inode" let ?tab = "posix_lock_inode_new tab inode"
  have set: "spec_set (posix_abs tab) inode (ses, own) args =
      (posix_abs (fst (posix_lock_set ?tab ?il ses own args)), snd (posix_lock_set ?tab ?il ses own args))"
    if "pa_start args < pa_end args"
    using posix_set_spec [of ?il ?tab args "posix_abs tab" ses own] that assms(1,3)
      ptable_but_new [OF assms(1,3)] posix_abs_None [OF assms(3)]
    by (simp add: posix_lock_inode_empty_def pil_struct_def pd.find_new held_Nil_fun posix_abs_def
        active_of_def waiting_of_def)
  show ?thesis
    unfolding r spec_cmd_def posix_lock_cmd_def posix_abs_None [OF assms(3)] assms(3)
    using assms(2) set
    by (auto simp: nothing_blocks plock_args_ok_def Let_def split_def spec_interrupt_def
        posix_lock_inode_empty_def fun_upd_idem posix_abs_None [OF assms(3)])
qed

lemma posix_cmd_refines_Some:
  assumes "ptable_ok tab" "plock_args_ok op args" "posix_lock_inode_find tab inode = Some il"
    and r: "r = posix_lock_cmd chk tab conn ses msgid reqid inode own op args"
  shows "spec_cmd chk (posix_abs tab) conn ses msgid reqid inode own op args =
    (pr_status r, posix_abs (pr_table r), pr_events r)"
proof -
  have il: "p_inode il = inode" "pil_struct il" "active_ok (p_active il)" "held (p_active il) \<noteq> nothing_held"
    using ptable_okD [OF assms(1,3)] held_nonempty by (auto simp: pil_ok_def pil_struct_def)
  have set: "spec_set (posix_abs tab) inode (ses, own) args =
      (posix_abs (fst (posix_lock_set tab il ses own args)), snd (posix_lock_set tab il ses own args))"
    if "pa_start args < pa_end args"
    using posix_set_spec [of il tab args "posix_abs tab" ses own] that il assms(3)
      ptable_ok_but [OF assms(1)] posix_abs_Some [OF assms(3)] by simp
  have blk: "posix_lock_find_offensive_lock (p_active il) ses own (pa_type args) (pa_start args) (pa_end args) =
      spec_blocked (held (p_active il)) (ses, own) (pa_type args) (pa_start args) (pa_end args)"
    if "pa_start args < pa_end args" "pa_type args \<noteq> 0"
    using find_offensive_spec [OF il(3)] that by simp
  have put: "posix_abs (posix_lock_inode_put tab il') = (posix_abs tab)(inode := (held (p_active il'), p_waiting il'))"
    if "p_inode il' = inode" for il'
    using posix_abs_put [of tab il'] that assms(3) by simp
  show ?thesis
    unfolding r spec_cmd_def posix_lock_cmd_def posix_abs_Some [OF assms(3)] assms(3) interrupt_spec
    using assms(2) set blk il(4)
    by (auto simp: plock_args_ok_def Let_def split_def posix_lock_append_lock_def put il(1)
        split: option.splits)
qed

subsection \<open>Nobody waits without a reason\<close>

text \<open>A byte that the owner waits to lock with a type in \<open>ts\<close>.\<close>

definition waits_at :: "wlock list \<Rightarrow> lock_owner \<Rightarrow> u8 set \<Rightarrow> u64 \<Rightarrow> bool" where
  "waits_at ws k ts x \<longleftrightarrow>
     (\<exists>wl \<in> set ws. wkey wl = k \<and> w_type wl \<in> ts \<and> w_start wl \<le> x \<and> x < w_end wl)"

abbreviation writing :: "u8 set" where
  "writing \<equiv> {POSIX_LOCK_WRLCK}"

abbreviation reading :: "u8 set" where
  "reading \<equiv> - {POSIX_LOCK_WRLCK}"

text \<open>
  No owner waits to read a byte that it write-locks or waits to write-lock; and every waiting request
  is blocked.
\<close>

definition no_downgrade :: "pheld \<Rightarrow> wlock list \<Rightarrow> bool" where
  "no_downgrade h ws \<longleftrightarrow> waiting_ok ws \<and>
     (\<forall>k x. waits_at ws k reading x \<longrightarrow> h k x \<noteq> POSIX_LOCK_WRLCK \<and> \<not> waits_at ws k writing x)"

definition spec_fair :: "pspec \<Rightarrow> u32 \<Rightarrow> bool" where
  "spec_fair st inode \<longleftrightarrow>
     no_downgrade (fst (st inode)) (snd (st inode)) \<and>
     (\<forall>wl \<in> set (snd (st inode)). w_blocked (fst (st inode)) wl)"

definition holds_more :: "pheld \<Rightarrow> pheld \<Rightarrow> bool" where
  "holds_more h h' \<longleftrightarrow> (\<forall>k x. h k x \<noteq> POSIX_LOCK_UNLCK \<longrightarrow>
     h' k x \<noteq> POSIX_LOCK_UNLCK \<and> (h k x = POSIX_LOCK_WRLCK \<longrightarrow> h' k x = POSIX_LOCK_WRLCK))"

lemma holds_more_refl: "holds_more h h"
  by (simp add: holds_more_def)

lemma holds_more_trans: "holds_more h h' \<Longrightarrow> holds_more h' h'' \<Longrightarrow> holds_more h h''"
  unfolding holds_more_def by metis

lemma blocked_mono:
  "holds_more h h' \<Longrightarrow> spec_blocked h k type start end \<Longrightarrow> spec_blocked h' k type start end"
  unfolding holds_more_def spec_blocked_def conflicting_def by metis

lemma waits_at_mono: "set ws' \<subseteq> set ws \<Longrightarrow> waits_at ws' k ts x \<Longrightarrow> waits_at ws k ts x"
  unfolding waits_at_def by blast

lemma waits_at_simps [simp]:
  "\<not> waits_at [] k ts x"
  "waits_at (wl # ws) k ts x \<longleftrightarrow>
     (wkey wl = k \<and> w_type wl \<in> ts \<and> w_start wl \<le> x \<and> x < w_end wl) \<or> waits_at ws k ts x"
  "waits_at (ws @ ws') k ts x \<longleftrightarrow> waits_at ws k ts x \<or> waits_at ws' k ts x"
  by (auto simp: waits_at_def)

lemma no_downgrade_subset:
  assumes "no_downgrade h ws" "set ws' \<subseteq> set ws"
    and "\<And>k x. h' k x = POSIX_LOCK_WRLCK \<Longrightarrow> h k x = POSIX_LOCK_WRLCK \<or> waits_at ws k writing x"
  shows "no_downgrade h' ws'"
  using assms waits_at_mono [OF assms(2)] waiting_ok_subset unfolding no_downgrade_def by blast

lemma no_downgrade_Cons:
  assumes "no_downgrade h (wl # wls)"
  shows "no_downgrade h wls" "no_downgrade (w_apply h wl) wls" "holds_more h (w_apply h wl)"
proof -
  show "no_downgrade h wls" by (rule no_downgrade_subset [OF assms]) auto
  show "no_downgrade (w_apply h wl) wls"
    by (rule no_downgrade_subset [OF assms]) (auto simp: spec_apply_def split: if_splits)
  show "holds_more h (w_apply h wl)"
    using assms unfolding holds_more_def spec_apply_def no_downgrade_def waits_at_simps
    by (auto simp del: split_paired_All)
qed

lemma spec_grant_writes:
  "spec_grant h ws = (h', ws', gs) \<Longrightarrow> set ws' \<subseteq> set ws \<and>
   (\<forall>k x. h' k x = POSIX_LOCK_WRLCK \<longrightarrow> h k x = POSIX_LOCK_WRLCK \<or> waits_at ws k writing x)"
proof (induction h ws arbitrary: h' ws' gs rule: spec_grant.induct)
  case (2 h wl wls)
  show ?case
  proof (cases "w_blocked h wl")
    case True
    then obtain ws2 where w: "spec_grant h wls = (h', ws2, gs)" "ws' = wl # ws2"
      using "2.prems" by (auto split: prod.splits)
    from "2.IH"(1) [OF True w(1)] w(2) show ?thesis by (simp del: split_paired_All) blast
  next
    case False
    then obtain gs2 where w: "spec_grant (w_apply h wl) wls = (h', ws', gs2)"
      using "2.prems" by (auto split: prod.splits)
    from "2.IH"(2) [OF False w] show ?thesis
      unfolding spec_apply_def waits_at_simps by (simp del: split_paired_All split: if_splits) blast
  qed
qed simp

text \<open>One pass over the queue is enough: what it leaves there is blocked by what it granted.\<close>

lemma spec_grant_fair:
  assumes "no_downgrade h ws" "spec_grant h ws = (h', ws', gs)"
  shows "holds_more h h' \<and> (\<forall>wl \<in> set ws'. w_blocked h' wl)"
  using assms
proof (induction h ws arbitrary: h' ws' gs rule: spec_grant.induct)
  case (1 h)
  then show ?case by (simp add: holds_more_refl)
next
  case (2 h wl wls)
  note nd = no_downgrade_Cons [OF "2.prems"(1)]
  show ?case
  proof (cases "w_blocked h wl")
    case True
    then obtain ws2 where w: "spec_grant h wls = (h', ws2, gs)" "ws' = wl # ws2"
      using "2.prems"(2) by (auto split: prod.splits)
    note IH = "2.IH"(1) [OF True nd(1) w(1)]
    then have "w_blocked h' wl" using blocked_mono True by blast
    with IH w(2) show ?thesis by simp
  next
    case False
    then obtain gs2 where w: "spec_grant (w_apply h wl) wls = (h', ws', gs2)"
      using "2.prems"(2) by (auto split: prod.splits)
    from "2.IH"(2) [OF False nd(2) w] nd(3) holds_more_trans show ?thesis by blast
  qed
qed

lemma spec_grant_no_downgrade:
  assumes "no_downgrade h ws" "spec_grant h ws = (h', ws', gs)"
  shows "no_downgrade h' ws'" "\<forall>wl \<in> set ws'. w_blocked h' wl"
  using no_downgrade_subset [OF assms(1)] spec_grant_writes [OF assms(2)] spec_grant_fair [OF assms] by blast+

lemma spec_interrupt_queue: "set (fst (spec_interrupt ws conn reqid)) \<subseteq> set ws"
  unfolding interrupt_spec [symmetric]
  by (induction ws) (auto simp: split_def Let_def)

lemma spec_fair_queue:
  "spec_fair st inode \<Longrightarrow> set ws' \<subseteq> set (snd (st inode)) \<Longrightarrow> spec_fair (st(inode := (fst (st inode), ws'))) inode"
  using no_downgrade_subset [of "fst (st inode)" "snd (st inode)" ws' "fst (st inode)"]
  by (auto simp: spec_fair_def)

text \<open>
  A command that mixes reading and writing of the same byte by one owner: it has to wait to read a
  byte that its owner write-locks or waits to write-lock, or it asks to write-lock a byte that its
  owner waits to read.
\<close>

definition crosses_own :: "pspec \<Rightarrow> u32 \<Rightarrow> lock_owner \<Rightarrow> u8 \<Rightarrow> plock_args \<Rightarrow> bool" where
  "crosses_own st inode k op args \<longleftrightarrow>
     (let (h, ws) = st inode
      in \<exists>x. pa_start args \<le> x \<and> x < pa_end args \<and>
           (if pa_type args = POSIX_LOCK_WRLCK then waits_at ws k reading x
            else op \<noteq> POSIX_LOCK_CMD_TRY
                 \<and> spec_blocked h k (pa_type args) (pa_start args) (pa_end args)
                 \<and> (h k x = POSIX_LOCK_WRLCK \<or> waits_at ws k writing x)))"

lemma spec_set_fair:
  assumes "spec_fair st inode"
    and "pa_type args = POSIX_LOCK_WRLCK \<Longrightarrow> \<not> crosses_own st inode k op args"
  shows "spec_fair (fst (spec_set st inode k args)) inode"
proof -
  let ?h = "spec_apply (fst (st inode)) k (pa_type args) (pa_start args) (pa_end args)"
  obtain h' ws gs where g: "spec_grant ?h (snd (st inode)) = (h', ws, gs)" by (metis prod_cases3)
  have "no_downgrade ?h (snd (st inode))"
    using assms unfolding spec_fair_def no_downgrade_def crosses_own_def spec_apply_def
    by (auto simp: split_def Let_def split: if_splits)
  from spec_grant_no_downgrade [OF this g] g show ?thesis
    by (simp add: spec_set_def spec_fair_def)
qed

lemma spec_wait_fair:
  assumes "spec_fair st inode" "\<not> crosses_own st inode k op args" "op \<noteq> POSIX_LOCK_CMD_TRY"
    and "spec_blocked (fst (st inode)) k (pa_type args) (pa_start args) (pa_end args)"
    and "pa_start args < pa_end args" "pa_type args \<noteq> POSIX_LOCK_UNLCK"
    and wl: "wkey wl = k" "w_type wl = pa_type args" "w_start wl = pa_start args" "w_end wl = pa_end args"
  shows "spec_fair (st(inode := (fst (st inode), snd (st inode) @ [wl]))) inode"
  using assms unfolding spec_fair_def no_downgrade_def crosses_own_def
  by (auto simp: split_def Let_def split: if_splits)

lemma spec_cmd_other:
  "k \<noteq> inode \<Longrightarrow> fst (snd (spec_cmd chk st conn ses msgid reqid inode own op args)) k = st k"
  by (auto simp: spec_cmd_def spec_set_def Let_def split_def)

lemma spec_cmd_fair:
  assumes "spec_fair st inode" "plock_args_ok op args" "k = (ses, own)"
    and "op \<noteq> POSIX_LOCK_CMD_INT \<Longrightarrow> op \<noteq> POSIX_LOCK_CMD_GET \<Longrightarrow> \<not> crosses_own st inode k op args"
  shows "spec_fair (fst (snd (spec_cmd chk st conn ses msgid reqid inode own op args))) inode"
proof -
  obtain h ws where st: "st inode = (h, ws)" by (cases "st inode") auto
  show ?thesis
  proof (cases "op = POSIX_LOCK_CMD_INT \<or> op = POSIX_LOCK_CMD_GET")
    case True
    with assms(1) st spec_fair_queue [OF assms(1) _, of "fst (spec_interrupt ws conn reqid)"]
      spec_interrupt_queue [of ws conn reqid] show ?thesis
      by (auto simp: spec_cmd_def Let_def split_def)
  next
    case False
    then have args: "\<not> crosses_own st inode k op args" "pa_start args < pa_end args"
      using assms(2,4) by (auto simp: plock_args_ok_def)
    have "spec_fair (fst (spec_set st inode k args)) inode" using spec_set_fair assms(1) args(1) by blast
    moreover have "spec_fair (st(inode := (h, ws @ [wl]))) inode"
      if "op \<noteq> POSIX_LOCK_CMD_TRY" "pa_type args \<noteq> POSIX_LOCK_UNLCK" "wkey wl = k"
        "spec_blocked h k (pa_type args) (pa_start args) (pa_end args)"
        "w_type wl = pa_type args" "w_start wl = pa_start args" "w_end wl = pa_end args" for wl
      using spec_wait_fair [OF assms(1) args(1) that(1) _ args(2) that(2,3,5-7)] that(4) st by simp
    ultimately show ?thesis
      using assms(1,3) st False by (auto simp: spec_cmd_def Let_def split_def wkey_def)
  qed
qed

subsection \<open>Running examples\<close>

lemma posix_hash_1: "POSIX_LOCK_INODE_HASH 1 = 889"
  by (simp add: POSIX_LOCK_INODE_HASH_def POSIX_LOCK_INODE_HASHSIZE_def)

lemmas posix_eval =
  posix_lock_cmd_def posix_lock_inode_find_def posix_lock_inode_new_def posix_lock_inode_put_def
  posix_lock_inode_empty_def posix_lock_set_def posix_lock_apply_lock_def
  posix_lock_check_waiting_def posix_lock_inode_remove_def posix_lock_append_lock_def
  posix_lock_init_def posix_hash_1 Let_def mk_range_def posix_lock_apply_range.simps

text \<open>A command of session 5 on inode 1, which the session has open.\<close>

definition cmd_on_1 :: "u64 \<Rightarrow> u8 \<Rightarrow> u8 \<Rightarrow> u64 \<Rightarrow> u64 \<Rightarrow> ptable \<Rightarrow> ptable" where
  "cmd_on_1 own op type start end tab = pr_table (posix_lock_cmd (\<lambda>_ _. True) tab 1 5 6 7 1 own op
     \<lparr>pa_type = type, pa_start = start, pa_end = end, pa_pid = 7\<rparr>)"

text \<open>
  Owner 1 writes [0,10), owner 3 writes [10,20), owner 2 waits to read [0,10), owner 1 waits to read
  [0,20) in place of its write lock, and owner 3 unlocks.
\<close>

definition downgrade_run :: ptable where
  "downgrade_run =
     cmd_on_1 3 POSIX_LOCK_CMD_SET POSIX_LOCK_UNLCK 10 20
       (cmd_on_1 1 POSIX_LOCK_CMD_SET POSIX_LOCK_RDLCK 0 20
         (cmd_on_1 2 POSIX_LOCK_CMD_SET POSIX_LOCK_RDLCK 0 10
           (cmd_on_1 3 POSIX_LOCK_CMD_SET POSIX_LOCK_WRLCK 10 20
             (cmd_on_1 1 POSIX_LOCK_CMD_SET POSIX_LOCK_WRLCK 0 10 posix_lock_init))))"

text \<open>
  In that run the request of owner 2 stays in the queue although nothing blocks it: the single pass
  of \<^verbatim>\<open>posix_lock_check_waiting\<close> looks at it before it grants the downgrade of owner 1.
\<close>

theorem downgrade_loses_wakeup:
  "map_option (\<lambda>il. map (\<lambda>wl. (w_owner wl,
       posix_lock_find_offensive_lock (p_active il) (w_sessionid wl) (w_owner wl) (w_type wl)
         (w_start wl) (w_end wl))) (p_waiting il))
     (posix_lock_inode_find downgrade_run 1) = Some [(2, False)]"
  by (simp add: downgrade_run_def cmd_on_1_def posix_eval)

text \<open>
  Owner 3 writes [0,15); owner 1 waits to write [0,10), owner 2 to read [5,8) and owner 1 also to read
  [5,15); owner 3 unlocks. The pass grants the first request, finds the second one blocked by it and
  then grants the third one, which takes the write lock off [5,10): owner 2 waits for nothing.
\<close>

definition crossing_run :: ptable where
  "crossing_run =
     cmd_on_1 3 POSIX_LOCK_CMD_SET POSIX_LOCK_UNLCK 0 15
       (cmd_on_1 1 POSIX_LOCK_CMD_SET POSIX_LOCK_RDLCK 5 15
         (cmd_on_1 2 POSIX_LOCK_CMD_SET POSIX_LOCK_RDLCK 5 8
           (cmd_on_1 1 POSIX_LOCK_CMD_SET POSIX_LOCK_WRLCK 0 10
             (cmd_on_1 3 POSIX_LOCK_CMD_SET POSIX_LOCK_WRLCK 0 15 posix_lock_init))))"

theorem crossing_loses_wakeup:
  "map_option (\<lambda>il. map (\<lambda>wl. (w_owner wl,
       posix_lock_find_offensive_lock (p_active il) (w_sessionid wl) (w_owner wl) (w_type wl)
         (w_start wl) (w_end wl))) (p_waiting il))
     (posix_lock_inode_find crossing_run 1) = Some [(2, False)]"
  by (simp add: crossing_run_def cmd_on_1_def posix_eval)

subsection \<open>Properties\<close>

text \<open>
  C1. Refinement of the POSIX lock command: on a table that satisfies the invariant, and for a
  request with a non-empty range, \<^verbatim>\<open>posix_lock_cmd\<close> answers with the status of the specification,
  writes exactly the changelog lines and wake-ups of the specification, and leaves a table whose
  abstraction (what every owner holds at every byte, and the queue, for every inode) is the one the
  specification gives.
\<close>

theorem posix_cmd_refines:
  assumes "ptable_ok tab" "plock_args_ok op args"
    and "r = posix_lock_cmd chk tab conn ses msgid reqid inode own op args"
  shows "spec_cmd chk (posix_abs tab) conn ses msgid reqid inode own op args =
    (pr_status r, posix_abs (pr_table r), pr_events r)"
proof (cases "posix_lock_inode_find tab inode")
  case None
  from posix_cmd_refines_None [OF assms(1,2) this assms(3)] show ?thesis .
next
  case (Some il)
  from posix_cmd_refines_Some [OF assms(1,2) this assms(3)] show ?thesis .
qed

abbreviation wr_args :: plock_args where
  "wr_args \<equiv> \<lparr>pa_type = POSIX_LOCK_WRLCK, pa_start = 10, pa_end = 20, pa_pid = 7\<rparr>"

theorem posix_cmd_refines_witness:
  "spec_cmd (\<lambda>_ _. True) (posix_abs posix_lock_init) 1 5 6 7 8 9 POSIX_LOCK_CMD_TRY wr_args =
    (let r = posix_lock_cmd (\<lambda>_ _. True) posix_lock_init 1 5 6 7 8 9 POSIX_LOCK_CMD_TRY wr_args
     in (pr_status r, posix_abs (pr_table r), pr_events r))"
  using posix_cmd_refines [OF ptable_ok_init, of POSIX_LOCK_CMD_TRY wr_args _ "\<lambda>_ _. True" 1 5 6 7 8 9]
  by (simp add: plock_args_ok_def Let_def)

abbreviation held_by_9 :: ptable where
  "held_by_9 \<equiv> cmd_on_1 9 POSIX_LOCK_CMD_TRY POSIX_LOCK_WRLCK 10 20 posix_lock_init"

abbreviation rd_args :: plock_args where
  "rd_args \<equiv> \<lparr>pa_type = POSIX_LOCK_RDLCK, pa_start = 0, pa_end = 30, pa_pid = 7\<rparr>"

lemma held_by_9_ok: "ptable_ok held_by_9"
  unfolding cmd_on_1_def using posix_lock_cmd_ok [OF ptable_ok_init] by (simp add: plock_args_ok_def)

text \<open>
  C7. The query command: \<^verbatim>\<open>POSIX_LOCK_CMD_GET\<close> changes nothing and answers OK. If a lock of another
  owner conflicts with the asked range, it reports such a lock: a range that overlaps the asked one,
  of a conflicting type, at every byte of which one other owner holds that type. Otherwise it
  reports that the range can be locked.
\<close>

theorem posix_get_correct:
  assumes tab: "ptable_ok tab" and args: "pa_start args < pa_end args" "pa_type args \<noteq> POSIX_LOCK_UNLCK"
    and r: "r = posix_lock_cmd chk tab conn ses msgid reqid inode own POSIX_LOCK_CMD_GET args"
  shows "pr_status r = MFS_STATUS_OK \<and> pr_table r = tab \<and> pr_events r = [] \<and>
    (if spec_blocked (fst (posix_abs tab inode)) (ses, own) (pa_type args) (pa_start args) (pa_end args)
     then pa_start (pr_args r) < pa_end args \<and> pa_start args < pa_end (pr_args r) \<and>
          conflicting (pa_type args) (pa_type (pr_args r)) \<and>
          (\<exists>k. k \<noteq> (ses, own) \<and> (\<forall>x. pa_start (pr_args r) \<le> x \<and> x < pa_end (pr_args r) \<longrightarrow>
             fst (posix_abs tab inode) k x = pa_type (pr_args r)))
     else pr_args r = \<lparr>pa_type = POSIX_LOCK_UNLCK, pa_start = 0, pa_end = 0, pa_pid = 0\<rparr>)"
proof (cases "posix_lock_inode_find tab inode")
  case None
  with r posix_abs_None [OF None] nothing_blocks show ?thesis by (simp add: posix_lock_cmd_def)
next
  case (Some il)
  have ok: "active_ok (p_active il)" using ptable_okD [OF tab Some] by (simp add: pil_struct_def)
  let ?get = "posix_lock_get_offensive_lock (p_active il) ses own (pa_type args) (pa_start args) (pa_end args)"
  have res: "pr_status r = MFS_STATUS_OK \<and> pr_table r = tab \<and> pr_events r = [] \<and>
      pr_args r = (case ?get of None \<Rightarrow> \<lparr>pa_type = POSIX_LOCK_UNLCK, pa_start = 0, pa_end = 0, pa_pid = 0\<rparr>
        | Some (g, pid) \<Rightarrow> \<lparr>pa_type = r_type g, pa_start = r_start g, pa_end = r_end g, pa_pid = pid\<rparr>)"
    using args(2) by (simp add: r posix_lock_cmd_def Some Let_def split: option.split)
  have blk: "?get = None \<longleftrightarrow> \<not> spec_blocked (fst (posix_abs tab inode)) (ses, own) (pa_type args)
      (pa_start args) (pa_end args)"
    using find_offensive_spec [OF ok args] by (simp add: get_offensive_None posix_abs_Some [OF Some])
  show ?thesis
  proof (cases ?get)
    case None
    with res blk show ?thesis by simp
  next
    case get: (Some gp)
    obtain g pid where gp: "gp = (g, pid)" by fastforce
    obtain al where al: "al \<in> set (p_active il)" "akey al \<noteq> (ses, own)" "g \<in> set (a_ranges al)"
      "pa_type args = POSIX_LOCK_WRLCK \<or> r_type g = POSIX_LOCK_WRLCK" "r_start g < pa_end args" "pa_start args < r_end g"
      using get_offensive_Some get gp by blast
    have ranges: "ranges_ok (a_ranges al)" "range_ok g"
      using ok al(1,3) ranges_ok_set by (auto simp: active_ok_def)
    have "held (p_active il) (akey al) x = r_type g" if "r_start g \<le> x" "x < r_end g" for x
      using held_mem [OF ok al(1)] range_at_mem [OF ranges(1) al(3), of x] that by (simp add: in_range_def)
    then have "\<exists>k. k \<noteq> (ses, own) \<and> (\<forall>x. r_start g \<le> x \<and> x < r_end g \<longrightarrow>
        fst (posix_abs tab inode) k x = r_type g)"
      using al(2) by (intro exI [of _ "akey al"]) (simp add: posix_abs_Some [OF Some])
    with res blk get gp al ranges(2) args(2) show ?thesis
      by (simp add: conflicting_def range_ok_def)
  qed
qed

theorem posix_get_correct_witness:
  "pr_args (posix_lock_cmd (\<lambda>_ _. True) held_by_9 1 5 6 7 1 10 POSIX_LOCK_CMD_GET rd_args) =
     \<lparr>pa_type = POSIX_LOCK_WRLCK, pa_start = 10, pa_end = 20, pa_pid = 7\<rparr> \<and>
   pr_table (posix_lock_cmd (\<lambda>_ _. True) held_by_9 1 5 6 7 1 10 POSIX_LOCK_CMD_GET rd_args) = held_by_9"
proof
  show "pr_args (posix_lock_cmd (\<lambda>_ _. True) held_by_9 1 5 6 7 1 10 POSIX_LOCK_CMD_GET rd_args) =
      \<lparr>pa_type = POSIX_LOCK_WRLCK, pa_start = 10, pa_end = 20, pa_pid = 7\<rparr>"
    by (simp add: cmd_on_1_def posix_eval)
  show "pr_table (posix_lock_cmd (\<lambda>_ _. True) held_by_9 1 5 6 7 1 10 POSIX_LOCK_CMD_GET rd_args) = held_by_9"
    using posix_get_correct [OF held_by_9_ok _ _ refl] by simp
qed

end
