(* ===== verification/Posix_Close.thy ===== *)
theory Posix_Close
  imports Posix_Spec
begin

text \<open>
  Closing a file and losing a connection, on the specification of the POSIX lock manager: the
  session's locks and requests go, and if it held something the queue is served. \<^verbatim>\<open>posix_lock_file_closed\<close>
  and \<^verbatim>\<open>posix_lock_disconnected\<close> refine this. Then the runs of the lock manager, and that nobody
  waits in them without a reason.
\<close>

subsection \<open>Closing a file\<close>

definition spec_holds :: "pheld \<Rightarrow> u32 \<Rightarrow> bool" where
  "spec_holds h ses \<longleftrightarrow> (\<exists>own x. h (ses, own) x \<noteq> POSIX_LOCK_UNLCK)"

definition spec_drop :: "pheld \<Rightarrow> u32 \<Rightarrow> pheld" where
  "spec_drop h ses = (\<lambda>k x. if fst k = ses then POSIX_LOCK_UNLCK else h k x)"

definition spec_file_closed :: "pspec \<Rightarrow> u32 \<Rightarrow> u32 \<Rightarrow> pspec \<times> out_event list" where
  "spec_file_closed st ses inode =
     (let (h, ws) = st inode; h1 = spec_drop h ses; ws1 = filter (\<lambda>wl. w_sessionid wl \<noteq> ses) ws
      in if spec_holds h ses
         then (let (h2, ws2, gs) = spec_grant h1 ws1 in (st(inode := (h2, ws2)), spec_granted inode gs))
         else (st(inode := (h1, ws1)), []))"

lemma held_drop: "held (filter (\<lambda>al. a_sessionid al \<noteq> ses) als) = spec_drop (held als) ses"
  by (simp add: fun_eq_iff spec_drop_def held_filter_session)

lemma spec_holds_iff:
  assumes "active_ok als"
  shows "spec_holds (held als) ses \<longleftrightarrow> (\<exists>al \<in> set als. a_sessionid al = ses)"
proof
  assume "spec_holds (held als) ses"
  then obtain own x where "held als (ses, own) x \<noteq> POSIX_LOCK_UNLCK" by (auto simp: spec_holds_def)
  then have "(ses, own) \<in> akey ` set als" using held_not_mem by metis
  then show "\<exists>al \<in> set als. a_sessionid al = ses" by (auto simp: akey_def)
next
  assume "\<exists>al \<in> set als. a_sessionid al = ses"
  then obtain al where al: "al \<in> set als" "a_sessionid al = ses" by blast
  with assms obtain r rs where r: "a_ranges al = r # rs" "range_ok r"
    by (cases "a_ranges al") (auto simp: active_ok_def)
  then have "range_at (a_ranges al) (r_start r) \<noteq> POSIX_LOCK_UNLCK"
    by (auto simp: in_range_def range_ok_def)
  then have "held als (akey al) (r_start r) \<noteq> POSIX_LOCK_UNLCK" using held_mem [OF assms al(1)] by simp
  then show "spec_holds (held als) ses" using al(2) unfolding spec_holds_def akey_def by blast
qed

lemma spec_drop_id: "\<not> spec_holds h ses \<Longrightarrow> spec_drop h ses = h"
  by (auto simp: spec_holds_def spec_drop_def fun_eq_iff)

lemma check_waiting_spec:
  assumes "ptable_but (p_inode il) tab" "posix_lock_inode_find tab (p_inode il) = Some il" "pil_struct il"
  shows "(posix_abs (fst (posix_lock_check_waiting tab il)), snd (posix_lock_check_waiting tab il)) =
    (let (h, ws, gs) = spec_grant (held (p_active il)) (p_waiting il)
     in ((posix_abs tab)(p_inode il := (h, ws)), spec_granted (p_inode il) gs))"
proof (cases "p_active il = [] \<and> p_waiting il = []")
  case True
  then have "snd (posix_lock_inode_remove tab (p_inode il)) = []"
    using pd.remove_quiet [OF _ assms(2)] assms(1) by (simp add: ptable_but_def)
  moreover have "posix_abs (fst (posix_lock_inode_remove tab (p_inode il))) =
      (posix_abs tab)(p_inode il := (nothing_held, []))"
    by (auto simp: posix_abs_def active_of_def waiting_of_def pd.find_remove held_Nil_fun intro!: ext)
  ultimately show ?thesis
    using True by (simp add: posix_lock_check_waiting_def held_Nil_fun spec_granted_def)
next
  case False
  obtain act ws ev where g: "posix_lock_grant (p_inode il) (p_active il) (p_waiting il) = (act, ws, ev)"
    by (metis prod_cases3)
  obtain gs where "spec_grant (held (p_active il)) (p_waiting il) = (held act, ws, gs)"
    "ev = spec_granted (p_inode il) gs"
    using grant_spec [OF _ _ g] assms(3) by (auto simp: pil_struct_def)
  with False g posix_abs_put [of tab "il\<lparr>p_active := act, p_waiting := ws\<rparr>"] assms(2) show ?thesis
    unfolding posix_lock_check_waiting_def if_not_P [OF False] by simp
qed

lemma file_closed_spec_Some:
  assumes "ptable_ok tab" "posix_lock_inode_find tab inode = Some il"
  shows "(posix_abs (fst (posix_lock_file_closed tab ses inode)), snd (posix_lock_file_closed tab ses inode)) =
    spec_file_closed (posix_abs tab) ses inode"
proof -
  let ?ws = "filter (\<lambda>wl. w_sessionid wl \<noteq> ses) (p_waiting il)"
  let ?il = "il\<lparr>p_active := filter (\<lambda>al. a_sessionid al \<noteq> ses) (p_active il), p_waiting := ?ws\<rparr>"
  let ?tab = "posix_lock_inode_put tab ?il"
  note il = ptable_okD [OF assms]
  have ok: "active_ok (p_active il)" using il by (simp add: pil_struct_def)
  have struct: "pil_struct ?il"
    using il by (auto simp: pil_struct_def active_ok_filter exclusive_filter_session waiting_ok_filter)
  have t: "ptable_but (p_inode ?il) ?tab" "posix_lock_inode_find ?tab (p_inode ?il) = Some ?il"
    using il assms ptable_but_put [of inode tab ?il] pd.find_put_same [of tab ?il] by (auto intro: ptable_ok_but)
  have put: "posix_abs ?tab = (posix_abs tab)(inode := (spec_drop (held (p_active il)) ses, ?ws))"
    using posix_abs_put [of tab ?il] il assms(2) by (simp add: held_drop)
  have abs: "posix_abs tab inode = (held (p_active il), p_waiting il)" by (rule posix_abs_Some [OF assms(2)])
  show ?thesis
  proof (cases "\<exists>al \<in> set (p_active il). a_sessionid al = ses")
    case True
    then have "posix_lock_file_closed tab ses inode = posix_lock_check_waiting ?tab ?il"
      using assms(2) by (simp add: posix_lock_file_closed_def drop_session_eq Let_def)
    with check_waiting_spec [OF t struct] put True spec_holds_iff [OF ok, of ses] il show ?thesis
      by (simp add: spec_file_closed_def abs held_drop split_def Let_def)
  next
    case False
    then have same: "filter (\<lambda>al. a_sessionid al \<noteq> ses) (p_active il) = p_active il"
      by (auto simp: filter_id_conv)
    have "posix_lock_file_closed tab ses inode = (?tab, [])"
      using assms(2) il False same by (simp add: posix_lock_file_closed_def drop_session_eq Let_def pil_ok_def)
    with put False spec_holds_iff [OF ok, of ses] show ?thesis
      by (simp add: spec_file_closed_def abs)
  qed
qed

lemma file_closed_spec:
  assumes "ptable_ok tab"
  shows "(posix_abs (fst (posix_lock_file_closed tab ses inode)), snd (posix_lock_file_closed tab ses inode)) =
    spec_file_closed (posix_abs tab) ses inode"
proof (cases "posix_lock_inode_find tab inode")
  case None
  have "\<not> spec_holds nothing_held ses" "spec_drop nothing_held ses = nothing_held"
    by (auto simp: spec_holds_def spec_drop_def nothing_held_def fun_eq_iff)
  with None posix_abs_None [OF None] show ?thesis
    by (simp add: posix_lock_file_closed_def spec_file_closed_def fun_upd_idem)
next
  case (Some il)
  then show ?thesis by (rule file_closed_spec_Some [OF assms])
qed

lemma disconnected_spec:
  "posix_abs (posix_lock_disconnected tab c) inode =
    (fst (posix_abs tab inode), filter (\<lambda>wl. w_connptr wl \<noteq> c) (snd (posix_abs tab inode)))"
  by (simp add: posix_abs_def active_of_def waiting_of_def find_disconnected split: option.split)

subsection \<open>Runs of the lock manager\<close>

lemma spec_file_closed_fair:
  assumes "spec_fair st inode"
  shows "spec_fair (fst (spec_file_closed st ses inode)) inode"
proof -
  obtain h ws where st: "st inode = (h, ws)" by fastforce
  let ?ws = "filter (\<lambda>wl. w_sessionid wl \<noteq> ses) ws"
  obtain h2 ws2 gs where g: "spec_grant (spec_drop h ses) ?ws = (h2, ws2, gs)" by (metis prod_cases3)
  have "no_downgrade h ws" using assms st by (simp add: spec_fair_def)
  then have "no_downgrade (spec_drop h ses) ?ws"
    by (rule no_downgrade_subset) (auto simp: spec_drop_def split: if_splits)
  from spec_grant_no_downgrade [OF this g] have "spec_fair (st(inode := (h2, ws2))) inode"
    by (simp add: spec_fair_def)
  moreover have "spec_fair (st(inode := (h, ?ws))) inode" using spec_fair_queue [OF assms, of ?ws] st by simp
  ultimately show ?thesis using g st spec_drop_id [of h ses] by (simp add: spec_file_closed_def Let_def)
qed

text \<open>
  The runs: commands on non-empty ranges, closed files and lost connections, from the empty table.
  No command mixes reading and writing of a byte by one owner in the sense of \<open>crosses_own\<close>.
\<close>

inductive posix_history :: "ptable \<Rightarrow> bool" where
  phistory_init: "posix_history posix_lock_init"
| phistory_cmd: "posix_history tab \<Longrightarrow> plock_args_ok op args \<Longrightarrow>
    op \<noteq> POSIX_LOCK_CMD_INT \<and> op \<noteq> POSIX_LOCK_CMD_GET \<longrightarrow> \<not> crosses_own (posix_abs tab) inode (ses, own) op args \<Longrightarrow>
    posix_history (pr_table (posix_lock_cmd chk tab conn ses msgid reqid inode own op args))"
| phistory_closed: "posix_history tab \<Longrightarrow> posix_history (fst (posix_lock_file_closed tab ses inode))"
| phistory_disconnected: "posix_history tab \<Longrightarrow> posix_history (posix_lock_disconnected tab conn)"

definition fair_table :: "ptable \<Rightarrow> bool" where
  "fair_table tab \<longleftrightarrow> ptable_ok tab \<and> (\<forall>inode. spec_fair (posix_abs tab) inode)"

lemma spec_fair_cong: "st inode = st' inode \<Longrightarrow> spec_fair st inode = spec_fair st' inode"
  by (simp add: spec_fair_def)

lemma fair_table_cmd:
  assumes "fair_table tab" "plock_args_ok op args"
    and "op \<noteq> POSIX_LOCK_CMD_INT \<and> op \<noteq> POSIX_LOCK_CMD_GET \<longrightarrow> \<not> crosses_own (posix_abs tab) inode (ses, own) op args"
  shows "fair_table (pr_table (posix_lock_cmd chk tab conn ses msgid reqid inode own op args))"
proof -
  let ?r = "posix_lock_cmd chk tab conn ses msgid reqid inode own op args"
  have ok: "ptable_ok tab" "spec_fair (posix_abs tab) k" for k using assms(1) by (simp_all add: fair_table_def)
  have spec: "spec_cmd chk (posix_abs tab) conn ses msgid reqid inode own op args =
      (pr_status ?r, posix_abs (pr_table ?r), pr_events ?r)"
    using posix_cmd_refines_None [OF ok(1) assms(2) _ refl] posix_cmd_refines_Some [OF ok(1) assms(2) _ refl]
    by (cases "posix_lock_inode_find tab inode") auto
  have "spec_fair (posix_abs (pr_table ?r)) inode"
    using spec_cmd_fair [OF ok(2) assms(2) refl, of inode ses own chk conn msgid reqid] spec assms(3) by simp
  moreover have "posix_abs (pr_table ?r) k = posix_abs tab k" if "k \<noteq> inode" for k
    using spec that spec_cmd_other [of k inode chk "posix_abs tab" conn ses msgid reqid own op args] by simp
  ultimately have "spec_fair (posix_abs (pr_table ?r)) k" for k
    using ok(2) spec_fair_cong [of "posix_abs (pr_table ?r)" k "posix_abs tab"] by (cases "k = inode") simp_all
  with posix_lock_cmd_ok [OF ok(1) assms(2)] show ?thesis by (simp add: fair_table_def)
qed

lemma fair_table_closed:
  assumes "fair_table tab"
  shows "fair_table (fst (posix_lock_file_closed tab ses inode))"
proof -
  have ok: "ptable_ok tab" "spec_fair (posix_abs tab) k" for k using assms by (simp_all add: fair_table_def)
  let ?st = "posix_abs (fst (posix_lock_file_closed tab ses inode))"
  have st: "?st = fst (spec_file_closed (posix_abs tab) ses inode)"
    using file_closed_spec [OF ok(1), of ses inode] by (metis fst_conv)
  have "spec_fair ?st k" for k
  proof (cases "k = inode")
    case True
    with spec_file_closed_fair [OF ok(2)] st show ?thesis by simp
  next
    case False
    then have "?st k = posix_abs tab k" unfolding st by (simp add: spec_file_closed_def split_def Let_def)
    with ok(2) spec_fair_cong [of ?st k "posix_abs tab"] show ?thesis by simp
  qed
  with posix_lock_file_closed_ok [OF ok(1)] show ?thesis by (simp add: fair_table_def)
qed

lemma fair_table_disconnected:
  assumes "fair_table tab"
  shows "fair_table (posix_lock_disconnected tab conn)"
proof -
  have ok: "ptable_ok tab" "spec_fair (posix_abs tab) k" for k using assms by (simp_all add: fair_table_def)
  have "spec_fair (posix_abs (posix_lock_disconnected tab conn)) k" for k
    using spec_fair_queue [OF ok(2) [of k], of "filter (\<lambda>wl. w_connptr wl \<noteq> conn) (snd (posix_abs tab k))"]
      disconnected_spec [of tab conn k] by (simp add: spec_fair_def)
  with posix_lock_disconnected_ok [OF ok(1)] show ?thesis by (simp add: fair_table_def)
qed

lemma fair_table_init: "fair_table posix_lock_init"
proof -
  have "waiting_of posix_lock_init k = []" for k
    by (simp add: waiting_of_def posix_lock_inode_find_def posix_lock_init_def)
  with ptable_ok_init show ?thesis
    by (simp add: fair_table_def spec_fair_def no_downgrade_def posix_abs_def)
qed

lemma phistory_fair: "posix_history tab \<Longrightarrow> fair_table tab"
  by (induction rule: posix_history.induct)
    (auto intro: fair_table_init fair_table_cmd fair_table_closed fair_table_disconnected)

subsection \<open>Properties\<close>

text \<open>
  C2. No lost wake-up: take any run of commands (any command byte and type, on non-empty ranges),
  closed files and lost connections from the empty table. Whoever waits for a file afterwards is
  blocked, by a lock of another owner that conflicts with the request; nobody waits for nothing. Left
  out of the runs are commands that mix reading and writing of one byte by one owner: to wait for a
  read lock on a byte that the owner write-locks or waits to write-lock, and to ask for a write lock
  on a byte that the owner waits to read. For those the code does lose wake-ups
  (\<open>downgrade_loses_wakeup\<close>, \<open>crossing_loses_wakeup\<close>).
\<close>

theorem posix_no_lost_wakeup:
  assumes "posix_history tab" "posix_lock_inode_find tab inode = Some il" "wl \<in> set (p_waiting il)"
  shows "posix_lock_find_offensive_lock (p_active il) (w_sessionid wl) (w_owner wl) (w_type wl)
    (w_start wl) (w_end wl)"
proof -
  have ok: "ptable_ok tab" "spec_fair (posix_abs tab) inode"
    using phistory_fair [OF assms(1)] by (simp_all add: fair_table_def)
  have "active_ok (p_active il)" "w_start wl < w_end wl" "w_type wl \<noteq> POSIX_LOCK_UNLCK"
    using ptable_okD [OF ok(1) assms(2)] assms(3) by (auto simp: pil_struct_def waiting_ok_def)
  from find_offensive_spec [OF this] ok(2) show ?thesis
    using assms(3) posix_abs_Some [OF assms(2)] by (auto simp: spec_fair_def wkey_def)
qed

text \<open>
  Owner 9 writes [10,20), owner 10 waits to read [0,30) and owner 11 to write [15,40); owner 9 unlocks
  and owner 10 is granted.
\<close>

definition unlock_run :: ptable where
  "unlock_run =
     cmd_on_1 9 POSIX_LOCK_CMD_SET POSIX_LOCK_UNLCK 10 20
       (cmd_on_1 11 POSIX_LOCK_CMD_SET POSIX_LOCK_WRLCK 15 40
         (cmd_on_1 10 POSIX_LOCK_CMD_SET POSIX_LOCK_RDLCK 0 30 held_by_9))"

lemma phistory_on_1:
  assumes "posix_history tab" "start < end"
    and "\<not> crosses_own (posix_abs tab) 1 (5, own) op
      \<lparr>pa_type = type, pa_start = start, pa_end = end, pa_pid = 7\<rparr>"
  shows "posix_history (cmd_on_1 own op type start end tab)"
  using phistory_cmd [OF assms(1), of op "\<lparr>pa_type = type, pa_start = start, pa_end = end, pa_pid = 7\<rparr>" 1 5 own]
    assms(2,3) by (simp add: cmd_on_1_def plock_args_ok_def)

lemma unlock_run_history: "posix_history unlock_run"
proof -
  let ?t1 = "cmd_on_1 10 POSIX_LOCK_CMD_SET POSIX_LOCK_RDLCK 0 30 held_by_9"
  have w0: "waiting_of posix_lock_init 1 = []" "waiting_of held_by_9 1 = []"
    and h: "held (active_of held_by_9 1) (5, 10) x = POSIX_LOCK_UNLCK"
    and w1: "\<forall>wl \<in> set (waiting_of ?t1 1). w_owner wl = 10" for x
    by (simp_all add: waiting_of_def active_of_def cmd_on_1_def posix_eval held_Cons akey_def)
  have "posix_history held_by_9"
    using w0 by (intro phistory_on_1 phistory_init) (simp_all add: crosses_own_def posix_abs_def)
  then have "posix_history ?t1"
    by (rule phistory_on_1) (use w0 h in \<open>simp_all add: crosses_own_def posix_abs_def\<close>)
  then have "posix_history (cmd_on_1 11 POSIX_LOCK_CMD_SET POSIX_LOCK_WRLCK 15 40 ?t1)"
    by (rule phistory_on_1) (use w1 in \<open>auto simp: crosses_own_def posix_abs_def waits_at_def wkey_def\<close>)
  then show ?thesis
    unfolding unlock_run_def
    by (rule phistory_on_1) (simp_all add: crosses_own_def spec_blocked_def conflicting_def posix_abs_def)
qed

theorem posix_no_lost_wakeup_witness:
  "\<exists>il wl. posix_lock_inode_find unlock_run 1 = Some il \<and> map a_owner (p_active il) = [10] \<and>
     p_waiting il = [wl] \<and> w_owner wl = 11 \<and>
     posix_lock_find_offensive_lock (p_active il) (w_sessionid wl) (w_owner wl) (w_type wl)
       (w_start wl) (w_end wl)"
proof -
  obtain il wl where il: "posix_lock_inode_find unlock_run 1 = Some il" "map a_owner (p_active il) = [10]"
    "p_waiting il = [wl]" "w_owner wl = 11"
    by (simp add: unlock_run_def cmd_on_1_def posix_eval)
  with posix_no_lost_wakeup [OF unlock_run_history il(1), of wl] show ?thesis by simp
qed

end
