(* ===== verification/Posix_Safety.thy ===== *)
theory Posix_Safety
  imports Posix_Close
begin

text \<open>
  The POSIX lock manager under arbitrary requests. \<^verbatim>\<open>matoclserv_fuse_posix_lock\<close> passes the command, the
  type and the range of a packet on as they are, so the range may be empty or turned round and the
  command unknown. The normal form of the range lists is lost then, but the locks of different
  owners stay compatible on every byte, nobody waits where nobody holds a lock, and no assertion
  fails. The theory also says which sessions use a file.
\<close>

subsection \<open>Bytes of a range list\<close>

definition range_has :: "range list \<Rightarrow> u64 \<Rightarrow> u8 \<Rightarrow> bool" where
  "range_has rs x t \<longleftrightarrow> (\<exists>r \<in> set rs. in_range x r \<and> r_type r = t)"

lemma range_has_simps [simp]:
  "\<not> range_has [] x t"
  "range_has (r # rs) x t \<longleftrightarrow> (in_range x r \<and> r_type r = t) \<or> range_has rs x t"
  by (auto simp: range_has_def)

text \<open>Applying any range to any list adds nothing but the bytes of the range.\<close>

lemma apply_range_has:
  "range_has (posix_lock_apply_range rs type start end) x t \<Longrightarrow>
   range_has rs x t \<or> (start \<le> x \<and> x < end \<and> t = type)"
proof (induction rs arbitrary: start)
  case Nil
  then show ?case by (auto simp: in_range_def split: if_splits)
next
  case (Cons r rs)
  show ?case
  proof (cases rule: range_position_cases [where r = r and s = start and e = "end"])
    case before
    with Cons show ?thesis by (auto simp: range_simps)
  next
    case after
    with Cons.prems show ?thesis by (auto simp: range_simps in_range_def split: if_splits)
  next
    case cover
    with Cons show ?thesis by (auto simp: range_simps)
  next
    case left
    with Cons.prems Cons.IH [of start] Cons.IH [of "r_start r"] show ?thesis
      by (auto simp: range_simps in_range_def split: if_splits)
  next
    case right
    with Cons.prems show ?thesis by (auto simp: range_simps in_range_def split: if_splits)
  next
    case inside
    with Cons.prems show ?thesis by (auto simp: range_simps in_range_def split: if_splits)
  qed
qed

lemma apply_range_nonempty: "type \<noteq> POSIX_LOCK_UNLCK \<Longrightarrow> posix_lock_apply_range rs type start end \<noteq> []"
  by (induction rs arbitrary: start) (auto simp: posix_lock_apply_range.simps)

subsection \<open>Bytes of the active locks\<close>

definition holds :: "alock list \<Rightarrow> lock_owner \<Rightarrow> u64 \<Rightarrow> u8 \<Rightarrow> bool" where
  "holds als k x t \<longleftrightarrow> (\<exists>al \<in> set als. akey al = k \<and> range_has (a_ranges al) x t)"

lemma holds_simps [simp]:
  "\<not> holds [] k x t"
  "holds (al # als) k x t \<longleftrightarrow> (akey al = k \<and> range_has (a_ranges al) x t) \<or> holds als k x t"
  by (auto simp: holds_def)

lemma held_holds: "held als k x \<noteq> POSIX_LOCK_UNLCK \<Longrightarrow> holds als k x (held als k x)"
  using range_at_neq_unlckD by (induction als) (auto simp: held_Cons range_has_def split: if_splits)

definition compatible :: "alock list \<Rightarrow> bool" where
  "compatible als \<longleftrightarrow>
     (\<forall>k k' x t t'. k \<noteq> k' \<longrightarrow> holds als k x t \<longrightarrow> holds als k' x t' \<longrightarrow> \<not> conflicting t t')"

lemma compatible_write:
  assumes "compatible als" "k \<noteq> k' \<and> held als k x = POSIX_LOCK_WRLCK"
  shows "held als k' x = POSIX_LOCK_UNLCK"
proof (rule ccontr)
  assume other: "held als k' x \<noteq> POSIX_LOCK_UNLCK"
  have "held als k x \<noteq> POSIX_LOCK_UNLCK" using assms(2) by simp
  then have "\<not> conflicting (held als k x) (held als k' x)"
    using assms held_holds other unfolding compatible_def by blast
  with assms(2) other show False by (simp add: conflicting_def)
qed

lemma holds_do_apply:
  "holds (posix_lock_do_apply_lock als ses own type start end pid) k x t \<Longrightarrow>
   holds als k x t \<or> (k = (ses, own) \<and> start \<le> x \<and> x < end \<and> t = type)"
  by (induction als)
    (auto simp: akey_def in_range_def Let_def split: if_splits dest: apply_range_has)

lemma not_offensive:
  "\<not> posix_lock_find_offensive_lock als ses own type start end \<Longrightarrow> holds als k x t \<Longrightarrow> k \<noteq> (ses, own) \<Longrightarrow>
   start \<le> x \<Longrightarrow> x < end \<Longrightarrow> \<not> conflicting type t"
proof (induction als)
  case (Cons al als)
  show ?case
  proof (cases "holds als k x t")
    case True
    with Cons show ?thesis by (auto split: if_splits)
  next
    case False
    with Cons.prems(2) have al: "akey al = k" "range_has (a_ranges al) x t" by auto
    with Cons.prems(1,3) have "posix_lock_test_wlock (a_ranges al) type start end = None"
      by (auto simp: akey_def split: if_splits)
    with al(2) Cons.prems(4,5) show ?thesis
      unfolding test_wlock_None range_has_def in_range_def conflicting_def by force
  qed
qed simp

lemma compatible_do_apply:
  assumes "compatible als"
    and "type \<noteq> POSIX_LOCK_UNLCK \<Longrightarrow> \<not> posix_lock_find_offensive_lock als ses own type start end"
  shows "compatible (posix_lock_do_apply_lock als ses own type start end pid)"
  unfolding compatible_def
proof (intro allI impI)
  fix k k' :: lock_owner and x t t'
  assume ne: "k \<noteq> k'" and h: "holds (posix_lock_do_apply_lock als ses own type start end pid) k x t"
    "holds (posix_lock_do_apply_lock als ses own type start end pid) k' x t'"
  have no: "\<not> conflicting type u" if "holds als j x u" "j \<noteq> (ses, own)" "start \<le> x" "x < end" for j u
    using not_offensive [OF assms(2) that(1,2)] that(3,4) by (cases "type = POSIX_LOCK_UNLCK") auto
  show "\<not> conflicting t t'"
    using holds_do_apply [OF h(1)] holds_do_apply [OF h(2)] ne no assms(1) conflicting_sym
    unfolding compatible_def by blast
qed

lemma compatible_subset: "compatible als \<Longrightarrow> set als' \<subseteq> set als \<Longrightarrow> compatible als'"
  unfolding compatible_def holds_def by blast

lemma do_apply_not_empty:
  "type \<noteq> POSIX_LOCK_UNLCK \<Longrightarrow> posix_lock_do_apply_lock als ses own type start end pid \<noteq> []"
  by (cases als) (auto simp: apply_range_nonempty [simplified] Let_def)

subsection \<open>The invariant for arbitrary requests\<close>

definition pil_safe_struct :: "pinodelocks \<Rightarrow> bool" where
  "pil_safe_struct il \<longleftrightarrow> compatible (p_active il) \<and> (\<forall>wl \<in> set (p_waiting il). w_type wl \<noteq> POSIX_LOCK_UNLCK)"

definition pil_safe :: "pinodelocks \<Rightarrow> bool" where
  "pil_safe il \<longleftrightarrow> pil_safe_struct il \<and> p_active il \<noteq> []"

definition ptable_safe :: "ptable \<Rightarrow> bool" where
  "ptable_safe tab \<longleftrightarrow> ptable_chains tab \<and> pd.all_recs pil_safe tab"

definition ptable_safe_but :: "u32 \<Rightarrow> ptable \<Rightarrow> bool" where
  "ptable_safe_but inode tab \<longleftrightarrow> ptable_chains tab \<and>
     (\<forall>k il. posix_lock_inode_find tab k = Some il \<longrightarrow> k \<noteq> inode \<longrightarrow> pil_safe il)"

lemma ptable_safe_init: "ptable_safe posix_lock_init"
  using ptable_ok_init
  by (auto simp: ptable_safe_def ptable_ok_def pd.all_recs_def posix_lock_init_def posix_lock_inode_find_def)

lemma ptable_safeD: "ptable_safe tab \<Longrightarrow> posix_lock_inode_find tab inode = Some il \<Longrightarrow>
   ptable_safe_but inode tab \<and> pil_safe il \<and> pil_safe_struct il \<and> p_inode il = inode"
  by (auto simp: ptable_safe_def ptable_safe_but_def pd.all_recs_def pil_safe_def dest: pd.find_key)

lemma ptable_safe_but_put:
  "ptable_safe_but inode tab \<Longrightarrow> p_inode il = inode \<Longrightarrow> posix_lock_inode_find tab inode \<noteq> None \<Longrightarrow>
   ptable_safe_but inode (posix_lock_inode_put tab il)"
  by (auto simp: ptable_safe_but_def pd.inv_put pd.find_put split: if_splits)

lemma ptable_safe_put:
  "ptable_safe_but (p_inode il) tab \<Longrightarrow> posix_lock_inode_find tab (p_inode il) \<noteq> None \<Longrightarrow> pil_safe il \<Longrightarrow>
   ptable_safe (posix_lock_inode_put tab il)"
  by (auto simp: ptable_safe_but_def ptable_safe_def pd.all_recs_def pd.inv_put pd.find_put split: if_splits)

lemma ptable_safe_remove:
  "ptable_safe_but inode tab \<Longrightarrow> ptable_safe (fst (posix_lock_inode_remove tab inode))"
  by (auto simp: ptable_safe_but_def ptable_safe_def pd.all_recs_def pd.inv_remove pd.find_remove split: if_splits)

lemma grant_safe:
  assumes "compatible active" "\<forall>wl \<in> set ws. w_type wl \<noteq> POSIX_LOCK_UNLCK"
    and "posix_lock_grant inode active ws = (active', ws', ev)"
  shows "compatible active' \<and> (active' = [] \<longrightarrow> active = [] \<and> ws = [])"
  using assms
proof (induction inode active ws arbitrary: active' ws' ev rule: posix_lock_grant.induct)
  case (2 inode active wl wls)
  let ?a = "posix_lock_do_apply_lock active (w_sessionid wl) (w_owner wl) (w_type wl)
            (w_start wl) (w_end wl) (w_pid wl)"
  show ?case
  proof (cases "posix_lock_find_offensive_lock active (w_sessionid wl) (w_owner wl) (w_type wl)
            (w_start wl) (w_end wl)")
    case True
    then have "active \<noteq> []" by auto
    with True "2.prems" "2.IH"(2) show ?thesis by (auto split: prod.splits)
  next
    case False
    have "compatible ?a" "?a \<noteq> []"
      using compatible_do_apply [OF "2.prems"(1)] do_apply_not_empty "2.prems"(2) False by auto
    with False "2.prems" "2.IH"(1) show ?thesis
      by (auto simp: posix_lock_apply_lock_def split: prod.splits)
  qed
qed simp

lemma check_waiting_safe:
  assumes "ptable_safe_but (p_inode il) tab" "posix_lock_inode_find tab (p_inode il) = Some il"
    and "pil_safe_struct il"
  shows "ptable_safe (fst (posix_lock_check_waiting tab il)) \<and>
    Abort msg \<notin> set (snd (posix_lock_check_waiting tab il))"
proof (cases "p_active il = [] \<and> p_waiting il = []")
  case True
  then have "snd (posix_lock_inode_remove tab (p_inode il)) = []"
    using pd.remove_quiet [OF _ assms(2)] assms(1) by (simp add: ptable_safe_but_def)
  with True ptable_safe_remove [OF assms(1)] show ?thesis by (simp add: posix_lock_check_waiting_def)
next
  case False
  obtain act ws ev where g: "posix_lock_grant (p_inode il) (p_active il) (p_waiting il) = (act, ws, ev)"
    by (metis prod_cases3)
  have "pil_safe (il\<lparr>p_active := act, p_waiting := ws\<rparr>)"
    using grant_safe [OF _ _ g] grant_subset [OF g] assms(3) False by (auto simp: pil_safe_struct_def pil_safe_def)
  with False g assms grant_no_abort [OF g] show ?thesis
    by (auto simp: posix_lock_check_waiting_def intro!: ptable_safe_put)
qed

lemma posix_lock_set_safe:
  assumes "ptable_safe_but (p_inode il) tab" "posix_lock_inode_find tab (p_inode il) \<noteq> None"
    and il: "pil_safe_struct il"
    and free: "pa_type args \<noteq> POSIX_LOCK_UNLCK \<Longrightarrow>
      \<not> posix_lock_find_offensive_lock (p_active il) ses own (pa_type args) (pa_start args) (pa_end args)"
  shows "ptable_safe (fst (posix_lock_set tab il ses own args)) \<and>
    Abort msg \<notin> set (snd (posix_lock_set tab il ses own args))"
proof -
  let ?il = "il\<lparr>p_active := posix_lock_do_apply_lock (p_active il) ses own (pa_type args) (pa_start args)
      (pa_end args) (pa_pid args)\<rparr>"
  have "pil_safe_struct ?il" using il free compatible_do_apply by (auto simp: pil_safe_struct_def)
  then show ?thesis
    using check_waiting_safe [of ?il "posix_lock_inode_put tab ?il" msg] assms(1,2)
      ptable_safe_but_put [of "p_inode il" tab ?il] pd.find_put_same [of tab ?il]
    by (auto simp: posix_lock_set_def posix_lock_apply_lock_def Let_def split: prod.splits)
qed

lemma ptable_safe_waiting:
  assumes "ptable_safe tab" "posix_lock_inode_find tab inode = Some il"
    and "\<forall>wl \<in> set ws. w_type wl \<noteq> POSIX_LOCK_UNLCK"
  shows "ptable_safe (posix_lock_inode_put tab (il\<lparr>p_waiting := ws\<rparr>))"
  using ptable_safeD [OF assms(1,2)] assms(2,3)
  by (intro ptable_safe_put) (auto simp: pil_safe_def pil_safe_struct_def)

lemma posix_lock_cmd_safe:
  assumes "ptable_safe tab"
  shows "ptable_safe (pr_table (posix_lock_cmd chk tab conn ses msgid reqid inode own op args)) \<and>
    Abort msg \<notin> set (pr_events (posix_lock_cmd chk tab conn ses msgid reqid inode own op args))"
proof (cases "posix_lock_inode_find tab inode")
  case None
  have "ptable_safe_but inode (posix_lock_inode_new tab inode)"
    using assms None by (auto simp: ptable_safe_but_def ptable_safe_def pd.all_recs_def pd.inv_new pd.find_new)
  then have "ptable_safe (fst (posix_lock_set (posix_lock_inode_new tab inode) (posix_lock_inode_empty inode)
       ses own args)) \<and>
    Abort msg \<notin> set (snd (posix_lock_set (posix_lock_inode_new tab inode) (posix_lock_inode_empty inode)
       ses own args))"
    by (intro posix_lock_set_safe)
      (auto simp: posix_lock_inode_empty_def pil_safe_struct_def compatible_def pd.find_new)
  with None assms show ?thesis
    by (auto simp: posix_lock_cmd_def posix_lock_inode_empty_def Let_def split: prod.splits)
next
  case (Some il)
  note il = ptable_safeD [OF assms Some]
  have w: "\<forall>wl \<in> set (p_waiting il). w_type wl \<noteq> POSIX_LOCK_UNLCK" using il by (simp add: pil_safe_struct_def)
  have set: "ptable_safe (fst (posix_lock_set tab il ses own args)) \<and>
      Abort msg \<notin> set (snd (posix_lock_set tab il ses own args))"
    if "pa_type args \<noteq> POSIX_LOCK_UNLCK \<Longrightarrow>
      \<not> posix_lock_find_offensive_lock (p_active il) ses own (pa_type args) (pa_start args) (pa_end args)"
    using il Some that by (intro posix_lock_set_safe) auto
  have "ptable_safe (posix_lock_inode_put tab (il\<lparr>p_waiting := fst (posix_lock_interrupt (p_waiting il) conn reqid)\<rparr>))"
    "Abort msg \<notin> set (snd (posix_lock_interrupt (p_waiting il) conn reqid))"
    using w interrupt_subset [of "p_waiting il" conn reqid msg] by (auto intro!: ptable_safe_waiting [OF assms Some])
  moreover have "ptable_safe (posix_lock_inode_put tab (posix_lock_append_lock il conn ses msgid reqid own
      (pa_type args) (pa_start args) (pa_end args) (pa_pid args)))"
    if "pa_type args \<noteq> POSIX_LOCK_UNLCK"
    unfolding posix_lock_append_lock_def using w that by (intro ptable_safe_waiting [OF assms Some]) auto
  ultimately show ?thesis
    using assms set by (auto simp: posix_lock_cmd_def Some Let_def split: prod.splits option.splits)
qed

lemma posix_lock_file_closed_safe:
  assumes "ptable_safe tab"
  shows "ptable_safe (fst (posix_lock_file_closed tab ses inode)) \<and>
    Abort msg \<notin> set (snd (posix_lock_file_closed tab ses inode))"
proof (cases "posix_lock_inode_find tab inode")
  case None
  with assms show ?thesis by (simp add: posix_lock_file_closed_def)
next
  case (Some il)
  let ?act = "filter (\<lambda>al. a_sessionid al \<noteq> ses) (p_active il)"
  let ?il = "il\<lparr>p_active := ?act, p_waiting := filter (\<lambda>wl. w_sessionid wl \<noteq> ses) (p_waiting il)\<rparr>"
  note il = ptable_safeD [OF assms Some]
  have struct: "pil_safe_struct ?il"
    using il compatible_subset [of "p_active il" ?act] by (auto simp: pil_safe_struct_def)
  have but: "ptable_safe_but inode (posix_lock_inode_put tab ?il)"
    and here: "posix_lock_inode_find (posix_lock_inode_put tab ?il) inode = Some ?il"
    using il Some ptable_safe_but_put [of inode tab ?il] pd.find_put_same [of tab ?il] by auto
  show ?thesis
  proof (cases "\<exists>al \<in> set (p_active il). a_sessionid al = ses")
    case True
    then show ?thesis
      using check_waiting_safe [of ?il "posix_lock_inode_put tab ?il" msg] but here struct il Some
      by (simp add: posix_lock_file_closed_def drop_session_eq Let_def split: prod.splits)
  next
    case False
    then have same: "?act = p_active il" by (auto simp: filter_id_conv)
    with il struct have "pil_safe ?il" by (simp add: pil_safe_def)
    with False same il Some show ?thesis
      by (auto simp: posix_lock_file_closed_def drop_session_eq pil_safe_def Let_def intro!: ptable_safe_put)
  qed
qed

lemma posix_lock_disconnected_safe:
  assumes "ptable_safe tab"
  shows "ptable_safe (posix_lock_disconnected tab c)"
proof -
  have "ptable_chains (posix_lock_disconnected tab c)"
    using assms by (auto simp: ptable_safe_def ptable_chains_def chains_ok_def posix_lock_disconnected_def
        comp_def)
  with assms show ?thesis
    by (auto simp: ptable_safe_def pd.all_recs_def find_disconnected pil_safe_def pil_safe_struct_def)
qed

subsection \<open>The sessions that use a file\<close>

text \<open>The sessions with an entry in the list of active locks or in the queue.\<close>

definition lock_users :: "alock list \<Rightarrow> wlock list \<Rightarrow> u32 set" where
  "lock_users als ws = a_sessionid ` set als \<union> w_sessionid ` set ws"

definition posix_users :: "ptable \<Rightarrow> u32 \<Rightarrow> u32 set" where
  "posix_users tab inode =
     (case posix_lock_inode_find tab inode of None \<Rightarrow> {} | Some il \<Rightarrow> lock_users (p_active il) (p_waiting il))"

lemma do_apply_users:
  "a_sessionid ` set (posix_lock_do_apply_lock als ses own type start end pid) \<subseteq>
     (if type = POSIX_LOCK_UNLCK then a_sessionid ` set als else insert ses (a_sessionid ` set als))"
  by (induction als) (auto simp: Let_def)

lemma grant_users:
  "posix_lock_grant inode active ws = (active', ws', ev) \<Longrightarrow> lock_users active' ws' \<subseteq> lock_users active ws"
proof (induction inode active ws arbitrary: active' ws' ev rule: posix_lock_grant.induct)
  case (2 inode active wl wls)
  let ?a = "posix_lock_do_apply_lock active (w_sessionid wl) (w_owner wl) (w_type wl)
            (w_start wl) (w_end wl) (w_pid wl)"
  show ?case
  proof (cases "posix_lock_find_offensive_lock active (w_sessionid wl) (w_owner wl) (w_type wl)
            (w_start wl) (w_end wl)")
    case True
    then obtain ws2 where g: "posix_lock_grant inode active wls = (active', ws2, ev)" "ws' = wl # ws2"
      using "2.prems" by (auto split: prod.splits)
    from "2.IH"(2) [OF _ g(1)] True g(2) show ?thesis by (auto simp: lock_users_def)
  next
    case False
    then obtain ev2 where g: "posix_lock_grant inode ?a wls = (active', ws', ev2)"
      using "2.prems" by (auto simp: posix_lock_apply_lock_def split: prod.splits)
    have "lock_users ?a wls \<subseteq> lock_users active (wl # wls)"
      using do_apply_users [of active "w_sessionid wl" "w_owner wl" "w_type wl" "w_start wl" "w_end wl" "w_pid wl"]
      by (auto simp: lock_users_def split: if_splits)
    with "2.IH"(1) [OF False _ refl g] show ?thesis by (auto simp: posix_lock_apply_lock_def)
  qed
qed simp

lemma check_waiting_users:
  assumes "posix_lock_inode_find tab (p_inode il) \<noteq> None"
  shows "posix_users (fst (posix_lock_check_waiting tab il)) k \<subseteq>
    (if k = p_inode il then lock_users (p_active il) (p_waiting il) else posix_users tab k)"
proof -
  obtain act ws ev where g: "posix_lock_grant (p_inode il) (p_active il) (p_waiting il) = (act, ws, ev)"
    by (metis prod_cases3)
  from grant_users [OF g] g assms show ?thesis
    by (auto simp: posix_lock_check_waiting_def posix_users_def pd.find_remove pd.find_put)
qed

lemma set_users:
  assumes "posix_lock_inode_find tab (p_inode il) \<noteq> None"
  shows "posix_users (fst (posix_lock_set tab il ses own args)) k \<subseteq>
    (if k = p_inode il
     then lock_users (p_active il) (p_waiting il) \<union> (if pa_type args = POSIX_LOCK_UNLCK then {} else {ses})
     else posix_users tab k)"
proof -
  let ?il = "il\<lparr>p_active := posix_lock_do_apply_lock (p_active il) ses own (pa_type args) (pa_start args)
      (pa_end args) (pa_pid args)\<rparr>"
  have "posix_users (posix_lock_inode_put tab ?il) k = posix_users tab k" if "k \<noteq> p_inode il"
    using assms that by (simp add: posix_users_def pd.find_put)
  moreover have "posix_lock_inode_find (posix_lock_inode_put tab ?il) (p_inode ?il) \<noteq> None"
    using assms pd.find_put [of tab ?il] by simp
  note check_waiting_users [OF this, of k]
  moreover have "lock_users (p_active ?il) (p_waiting ?il) \<subseteq>
      lock_users (p_active il) (p_waiting il) \<union> (if pa_type args = POSIX_LOCK_UNLCK then {} else {ses})"
    using do_apply_users [of "p_active il" ses own "pa_type args" "pa_start args" "pa_end args" "pa_pid args"]
    by (auto simp: lock_users_def split: if_splits)
  ultimately show ?thesis
    by (auto simp: posix_lock_set_def posix_lock_apply_lock_def Let_def split_def split: if_splits)
qed

lemma posix_users_put:
  "posix_lock_inode_find tab (p_inode il) \<noteq> None \<Longrightarrow>
   posix_users (posix_lock_inode_put tab il) k =
     (if k = p_inode il then lock_users (p_active il) (p_waiting il) else posix_users tab k)"
  by (simp add: posix_users_def pd.find_put)

lemma interrupt_users:
  "posix_lock_inode_find tab inode = Some il \<Longrightarrow> p_inode il = inode \<Longrightarrow>
   posix_users (posix_lock_inode_put tab (il\<lparr>p_waiting := fst (posix_lock_interrupt (p_waiting il) conn reqid)\<rparr>)) k
     \<subseteq> posix_users tab k"
  using image_mono [of _ _ w_sessionid, OF conjunct1 [OF interrupt_subset [of "p_waiting il" conn reqid]]]
    posix_users_put [of tab "il\<lparr>p_waiting := fst (posix_lock_interrupt (p_waiting il) conn reqid)\<rparr>" k]
  by (auto simp: lock_users_def posix_users_def)

text \<open>
  A command with one of the four codes adds its session to a file only when the session has the file
  open.
\<close>

lemma posix_users_cmd:
  assumes "op \<in> {POSIX_LOCK_CMD_GET, POSIX_LOCK_CMD_SET, POSIX_LOCK_CMD_TRY, POSIX_LOCK_CMD_INT}"
  shows "posix_users (pr_table (posix_lock_cmd is_open tab conn ses msgid reqid inode own op args)) k \<subseteq>
    posix_users tab k \<union> {s. is_open s k}"
proof (cases "posix_lock_inode_find tab inode")
  case None
  let ?new = "posix_lock_inode_new tab inode" and ?il = "posix_lock_inode_empty inode"
  have new: "posix_lock_inode_find ?new (p_inode ?il) \<noteq> None" "posix_users ?new k = posix_users tab k"
    using None by (simp_all add: posix_users_def pd.find_new posix_lock_inode_empty_def lock_users_def)
  have "posix_users (fst (posix_lock_set ?new ?il ses own args)) k \<subseteq> posix_users tab k \<union> {s. is_open s k}"
    if "is_open ses inode"
    using set_users [OF new(1), of ses own args k] new(2) that
    by (auto simp: posix_lock_inode_empty_def lock_users_def split: if_splits)
  with assms None show ?thesis
    by (auto simp: posix_lock_cmd_def posix_lock_inode_empty_def Let_def split: prod.splits)
next
  case (Some il)
  have inode: "p_inode il = inode" using pd.find_key [OF Some] .
  then have il: "posix_lock_inode_find tab (p_inode il) \<noteq> None"
    "lock_users (p_active il) (p_waiting il) = posix_users tab inode" using Some by (simp_all add: posix_users_def)
  have "posix_users (fst (posix_lock_set tab il ses own args)) k \<subseteq> posix_users tab k \<union> {s. is_open s k}"
    if "pa_type args = POSIX_LOCK_UNLCK \<or> is_open ses inode"
    using set_users [OF il(1), of ses own args k] il(2) inode that by (auto split: if_splits)
  moreover have "posix_users (posix_lock_inode_put tab (posix_lock_append_lock il conn ses msgid reqid own
      (pa_type args) (pa_start args) (pa_end args) (pa_pid args))) k \<subseteq> posix_users tab k \<union> {s. is_open s k}"
    if "is_open ses inode"
    using posix_users_put [of tab "posix_lock_append_lock il conn ses msgid reqid own
      (pa_type args) (pa_start args) (pa_end args) (pa_pid args)" k] il inode that
    by (auto simp: posix_lock_append_lock_def lock_users_def split: if_splits)
  ultimately show ?thesis
    using assms interrupt_users [OF Some inode, of conn reqid k]
    by (auto simp: posix_lock_cmd_def Some Let_def split: prod.splits option.splits)
qed

lemma posix_users_closed:
  "posix_users (fst (posix_lock_file_closed tab ses inode)) k \<subseteq>
     (if k = inode then posix_users tab k - {ses} else posix_users tab k)"
proof (cases "posix_lock_inode_find tab inode")
  case None
  then show ?thesis by (simp add: posix_lock_file_closed_def posix_users_def)
next
  case (Some il)
  let ?il = "il\<lparr>p_active := filter (\<lambda>al. a_sessionid al \<noteq> ses) (p_active il),
      p_waiting := filter (\<lambda>wl. w_sessionid wl \<noteq> ses) (p_waiting il)\<rparr>"
  let ?tab = "posix_lock_inode_put tab ?il"
  have inode: "p_inode il = inode" using pd.find_key [OF Some] .
  then have put: "posix_users ?tab j = (if j = inode then lock_users (p_active ?il) (p_waiting ?il)
      else posix_users tab j)" for j
    using posix_users_put [of tab ?il] Some by simp
  have sub: "lock_users (p_active ?il) (p_waiting ?il) \<subseteq> posix_users tab inode - {ses}"
    using Some by (auto simp: lock_users_def posix_users_def)
  have "posix_lock_inode_find ?tab (p_inode ?il) \<noteq> None" using Some inode pd.find_put [of tab ?il] by simp
  from check_waiting_users [OF this, of k]
  have "posix_users (fst (posix_lock_check_waiting ?tab ?il)) k \<subseteq>
      (if k = inode then posix_users tab k - {ses} else posix_users tab k)"
    using put sub inode by (auto split: if_splits)
  moreover have "posix_users (fst (posix_lock_inode_remove ?tab (p_inode ?il))) k \<subseteq>
      (if k = inode then posix_users tab k - {ses} else posix_users tab k)"
    using put [of k] inode by (auto simp: posix_users_def pd.find_remove)
  moreover have "posix_users ?tab k \<subseteq> (if k = inode then posix_users tab k - {ses} else posix_users tab k)"
    using put sub by auto
  moreover have "fst (posix_lock_file_closed tab ses inode) \<in> {fst (posix_lock_check_waiting ?tab ?il),
      fst (posix_lock_inode_remove ?tab (p_inode ?il)), ?tab}"
    unfolding posix_lock_file_closed_def Some drop_session_eq option.case Let_def prod.case
    by (simp only: split_def fst_conv insert_iff split: if_split) blast
  ultimately show ?thesis by (elim insertE emptyE) (simp_all only:)
qed

lemma posix_users_disconnected: "posix_users (posix_lock_disconnected tab conn) k \<subseteq> posix_users tab k"
  by (auto simp: posix_users_def lock_users_def find_disconnected split: option.splits)

subsection \<open>Unknown commands\<close>

text \<open>
  Only \<^verbatim>\<open>POSIX_LOCK_CMD_SET\<close> and \<^verbatim>\<open>POSIX_LOCK_CMD_TRY\<close> ask whether the file is open, but every code
  above them sets the lock as well: session 5 gets a write lock on file 1, which is not open.
\<close>

theorem unknown_command_locks:
  "pr_status (posix_lock_cmd (\<lambda>_ _. False) posix_lock_init 1 5 3 4 1 9 4
       \<lparr>pa_type = POSIX_LOCK_WRLCK, pa_start = 0, pa_end = 10, pa_pid = 7\<rparr>) = MFS_STATUS_OK"
  "posix_users (pr_table (posix_lock_cmd (\<lambda>_ _. False) posix_lock_init 1 5 3 4 1 9 4
       \<lparr>pa_type = POSIX_LOCK_WRLCK, pa_start = 0, pa_end = 10, pa_pid = 7\<rparr>)) 1 = {5}"
  by (simp_all add: posix_users_def lock_users_def posix_eval)

end
