(* ===== verification/Flock_Locks.thy ===== *)
theory Flock_Locks
  imports MFS_Prelude
begin

text \<open>
  The BSD lock manager of the master (\<^verbatim>\<open>mfsmaster/flocklocks.c\<close>): per inode the active locks
  and the queue of waiting locks, each with the requests (instances) that wait for it; the client
  command \<^verbatim>\<open>flock_locks_cmd\<close>, the clean-up calls and the changelog replay
  \<^verbatim>\<open>flock_mr_change\<close>. The three queueing modes of \<^verbatim>\<open>FlocksMode\<close> are an argument.
\<close>

subsection \<open>Data\<close>

definition MODE_CORRECT :: u8 where [simp]: "MODE_CORRECT = 0"
definition MODE_BSD :: u8 where [simp]: "MODE_BSD = 1"
definition MODE_LINUX :: u8 where [simp]: "MODE_LINUX = 2"

definition STATE_WAITING :: u8 where [simp]: "STATE_WAITING = 0"
definition STATE_ACTIVE :: u8 where [simp]: "STATE_ACTIVE = 1"

definition LTYPE_READER :: u8 where [simp]: "LTYPE_READER = 0"
definition LTYPE_WRITER :: u8 where [simp]: "LTYPE_WRITER = 1"

definition FLOCK_UNLOCK :: u8 where [simp]: "FLOCK_UNLOCK = 0"
definition FLOCK_TRY_SHARED :: u8 where [simp]: "FLOCK_TRY_SHARED = 1"
definition FLOCK_LOCK_SHARED :: u8 where [simp]: "FLOCK_LOCK_SHARED = 2"
definition FLOCK_TRY_EXCLUSIVE :: u8 where [simp]: "FLOCK_TRY_EXCLUSIVE = 3"
definition FLOCK_LOCK_EXCLUSIVE :: u8 where [simp]: "FLOCK_LOCK_EXCLUSIVE = 4"
definition FLOCK_INTERRUPT :: u8 where [simp]: "FLOCK_INTERRUPT = 5"
definition FLOCK_RELEASE :: u8 where [simp]: "FLOCK_RELEASE = 6"

record finstance =
  i_msgid :: u32
  i_reqid :: u32

text \<open>
  A lock made by replay or by loading has no connection: the code leaves \<^verbatim>\<open>connptr\<close> unset there.
\<close>

record flock =
  l_owner :: u64
  l_connptr :: "connptr option"
  l_sessionid :: u32
  l_state :: u8
  l_ltype :: u8
  l_instances :: "finstance list"

record finodelocks =
  f_inode :: u32
  f_active :: "flock list"
  f_waiting :: "flock list"

type_synonym ftable = "nat \<Rightarrow> finodelocks list"

definition FLOCK_INODE_HASHSIZE :: nat where "FLOCK_INODE_HASHSIZE = 1024"

definition FLOCK_INODE_HASH :: "u32 \<Rightarrow> nat" where
  "FLOCK_INODE_HASH inode = unat (inode * 0x738A2379) mod FLOCK_INODE_HASHSIZE"

subsection \<open>The inode table\<close>

definition flock_inode_find :: "ftable \<Rightarrow> u32 \<Rightarrow> finodelocks option" where
  "flock_inode_find tab inode = List.find (\<lambda>il. f_inode il = inode) (tab (FLOCK_INODE_HASH inode))"

definition flock_inode_empty :: "u32 \<Rightarrow> finodelocks" where
  "flock_inode_empty inode = \<lparr>f_inode = inode, f_active = [], f_waiting = []\<rparr>"

definition flock_inode_new :: "ftable \<Rightarrow> u32 \<Rightarrow> ftable" where
  "flock_inode_new tab inode =
     (let hash = FLOCK_INODE_HASH inode in tab(hash := flock_inode_empty inode # tab hash))"

definition flock_inode_put :: "ftable \<Rightarrow> finodelocks \<Rightarrow> ftable" where
  "flock_inode_put tab il =
     (let hash = FLOCK_INODE_HASH (f_inode il)
      in tab(hash := chain_upd (\<lambda>x. f_inode x = f_inode il) (\<lambda>_. il) (tab hash)))"

definition flock_inode_remove :: "ftable \<Rightarrow> u32 \<Rightarrow> ftable \<times> out_event list" where
  "flock_inode_remove tab inode =
     (let hash = FLOCK_INODE_HASH inode; chain = tab hash
      in (tab(hash := filter (\<lambda>il. f_inode il \<noteq> inode) chain),
          map (\<lambda>il. Abort ''inode flock record not empty !!!'')
            (filter (\<lambda>il. f_inode il = inode \<and> \<not> (f_active il = [] \<and> f_waiting il = [])) chain)))"

text \<open>The search with a new record when there is none, and the end of an operation on a record: an
  empty one is removed if the operation looks at that.\<close>

definition flock_inode_get :: "ftable \<Rightarrow> u32 \<Rightarrow> ftable \<times> finodelocks" where
  "flock_inode_get tab inode =
     (case flock_inode_find tab inode of
        Some il \<Rightarrow> (tab, il)
      | None \<Rightarrow> (flock_inode_new tab inode, flock_inode_empty inode))"

definition flock_put_back :: "ftable \<Rightarrow> finodelocks \<Rightarrow> bool \<Rightarrow> ftable \<times> out_event list" where
  "flock_put_back tab il check =
     (if check \<and> f_waiting il = [] \<and> f_active il = []
      then flock_inode_remove (flock_inode_put tab il) (f_inode il)
      else (flock_inode_put tab il, []))"

subsection \<open>Locks and the requests that wait for them\<close>

definition flock_do_lock_inode_attach :: "finodelocks \<Rightarrow> flock \<Rightarrow> finodelocks" where
  "flock_do_lock_inode_attach il l =
     (if l_state l = STATE_WAITING then il\<lparr>f_waiting := f_waiting il @ [l]\<rparr>
      else il\<lparr>f_active := l # f_active il\<rparr>)"

definition flock_type_char :: "flock \<Rightarrow> char" where
  "flock_type_char l = (if l_ltype l = LTYPE_READER then CHR ''R'' else CHR ''W'')"

definition flock_lock_inode_attach :: "finodelocks \<Rightarrow> flock \<Rightarrow> finodelocks \<times> out_event list" where
  "flock_lock_inode_attach il l =
     (flock_do_lock_inode_attach il l,
      if l_state l = STATE_ACTIVE
      then [Changelog (FLOCK (f_inode il) (l_sessionid l) (l_owner l) (flock_type_char l))] else [])"

definition flock_wake_up :: "flock \<Rightarrow> u8 \<Rightarrow> finstance \<Rightarrow> out_event list" where
  "flock_wake_up l status i =
     (case l_connptr l of Some c \<Rightarrow> [Flock_wake_up c (i_msgid i) status] | None \<Rightarrow> [])"

definition flock_lock_wake_up_one :: "flock \<Rightarrow> u32 \<Rightarrow> u8 \<Rightarrow> flock \<times> out_event list" where
  "flock_lock_wake_up_one l reqid status =
     (l\<lparr>l_instances := filter (\<lambda>i. i_reqid i \<noteq> reqid) (l_instances l)\<rparr>,
      concat (map (flock_wake_up l status) (filter (\<lambda>i. i_reqid i = reqid) (l_instances l))))"

definition flock_lock_wake_up_all :: "flock \<Rightarrow> u8 \<Rightarrow> flock \<times> out_event list" where
  "flock_lock_wake_up_all l status =
     (l\<lparr>l_instances := []\<rparr>, concat (map (flock_wake_up l status) (l_instances l)))"

definition flock_lock_append_req :: "flock \<Rightarrow> u32 \<Rightarrow> u32 \<Rightarrow> flock" where
  "flock_lock_append_req l msgid reqid =
     (if \<exists>i \<in> set (l_instances l). i_reqid i = reqid
      then l\<lparr>l_instances := chain_upd (\<lambda>i. i_reqid i = reqid) (\<lambda>i. i\<lparr>i_msgid := msgid\<rparr>) (l_instances l)\<rparr>
      else l\<lparr>l_instances := \<lparr>i_msgid = msgid, i_reqid = reqid\<rparr> # l_instances l\<rparr>)"

text \<open>What removing a lock writes: only an active lock is logged.\<close>

definition flock_lock_remove_log :: "u32 \<Rightarrow> flock \<Rightarrow> out_event list" where
  "flock_lock_remove_log inode l =
     (if l_state l = STATE_ACTIVE
      then [Changelog (FLOCK inode (l_sessionid l) (l_owner l) (CHR ''U''))] else [])"

definition flock_check :: "u8 \<Rightarrow> finodelocks \<Rightarrow> u8 \<Rightarrow> bool" where
  "flock_check mode il ltype =
     (if ltype = LTYPE_READER then
        (f_active il \<noteq> [] \<and> l_ltype (hd (f_active il)) = LTYPE_WRITER)
        \<or> (mode = MODE_CORRECT \<and> f_waiting il \<noteq> [])
      else f_active il \<noteq> [])"

definition flock_lock_new ::
  "u8 \<Rightarrow> finodelocks \<Rightarrow> u8 \<Rightarrow> connptr \<Rightarrow> u32 \<Rightarrow> u32 \<Rightarrow> u32 \<Rightarrow> u64 \<Rightarrow> u8 \<times> finodelocks \<times> out_event list" where
  "flock_lock_new mode il ltype connptr sessionid msgid reqid owner =
     (let l = \<lparr>l_owner = owner, l_connptr = Some connptr, l_sessionid = sessionid,
               l_state = STATE_ACTIVE, l_ltype = ltype, l_instances = []\<rparr>
      in if flock_check mode il ltype then
           (let l1 = flock_lock_append_req (l\<lparr>l_state := STATE_WAITING\<rparr>) msgid reqid;
                (il1, ev) = flock_lock_inode_attach il l1
            in (MFS_ERROR_WAITING, il1, ev))
         else (let (il1, ev) = flock_lock_inode_attach il l in (MFS_STATUS_OK, il1, ev)))"

subsection \<open>Granting\<close>

text \<open>A waiting lock that was taken out of the queue becomes active and its requests are answered.\<close>

definition flock_activate :: "finodelocks \<Rightarrow> flock \<Rightarrow> finodelocks \<times> out_event list" where
  "flock_activate il l =
     (let (l1, wake) = flock_lock_wake_up_all (l\<lparr>l_state := STATE_ACTIVE\<rparr>) MFS_STATUS_OK;
          (il1, ev) = flock_lock_inode_attach il l1
      in (il1, ev @ wake))"

text \<open>The two loops of \<^verbatim>\<open>flock_lock_check_waiting\<close>; the second argument is what \<^verbatim>\<open>l\<close> runs over.\<close>

fun flock_grant_linux :: "finodelocks \<Rightarrow> flock list \<Rightarrow> finodelocks \<times> flock list \<times> out_event list" where
  "flock_grant_linux il [] = (il, [], [])"
| "flock_grant_linux il (l # ls) =
     (if l_ltype l = LTYPE_READER then
        (let (il1, ev1) = flock_activate il l; (il2, ws, ev2) = flock_grant_linux il1 ls
         in (il2, ws, ev1 @ ev2))
      else (let (il2, ws, ev2) = flock_grant_linux il ls in (il2, l # ws, ev2)))"

fun flock_grant_prefix :: "finodelocks \<Rightarrow> flock list \<Rightarrow> finodelocks \<times> flock list \<times> out_event list" where
  "flock_grant_prefix il [] = (il, [], [])"
| "flock_grant_prefix il (l # ls) =
     (if l_ltype l = LTYPE_READER then
        (let (il1, ev1) = flock_activate il l; (il2, ws, ev2) = flock_grant_prefix il1 ls
         in (il2, ws, ev1 @ ev2))
      else (il, l # ls, []))"

definition flock_lock_check_waiting :: "u8 \<Rightarrow> finodelocks \<Rightarrow> finodelocks \<times> out_event list" where
  "flock_lock_check_waiting mode il =
     (case f_waiting il of
        [] \<Rightarrow> (il, [])
      | l # ls \<Rightarrow>
          (let (il1, ev1) = (if f_active il = [] \<and> l_ltype l = LTYPE_WRITER
                             then flock_activate (il\<lparr>f_waiting := ls\<rparr>) l else (il, []))
           in if f_active il1 = [] \<or> l_ltype (hd (f_active il1)) = LTYPE_READER then
                (let (il2, ws, ev2) = (if mode = MODE_LINUX then flock_grant_linux il1 (f_waiting il1)
                                       else flock_grant_prefix il1 (f_waiting il1))
                 in (il2\<lparr>f_waiting := ws\<rparr>, ev1 @ ev2))
              else (il1, ev1)))"

text \<open>Unlocking: \<open>rest\<close> is the active list without \<open>l\<close>.\<close>

definition flock_lock_unlock ::
  "u8 \<Rightarrow> finodelocks \<Rightarrow> flock list \<Rightarrow> flock \<Rightarrow> finodelocks \<times> out_event list" where
  "flock_lock_unlock mode il rest l =
     (let il1 = il\<lparr>f_active := rest\<rparr>; ev1 = flock_lock_remove_log (f_inode il) l
      in if f_active il1 = [] \<and> f_waiting il1 \<noteq> [] then
           (let (il2, ev2) = flock_lock_check_waiting mode il1 in (il2, ev1 @ ev2))
         else (il1, ev1))"

definition flock_disconnected :: "ftable \<Rightarrow> connptr \<Rightarrow> ftable" where
  "flock_disconnected tab connptr = (\<lambda>h.
     if h < FLOCK_INODE_HASHSIZE
     then map (\<lambda>il. il\<lparr>f_waiting := filter (\<lambda>l. l_connptr l \<noteq> Some connptr) (f_waiting il)\<rparr>) (tab h)
     else tab h)"

subsection \<open>The client command\<close>

text \<open>The interrupt: every matching waiting lock loses the request, and goes when it has no other.\<close>

fun flock_interrupt :: "flock list \<Rightarrow> connptr \<Rightarrow> u32 \<Rightarrow> u64 \<Rightarrow> u32 \<Rightarrow> flock list \<times> out_event list" where
  "flock_interrupt [] connptr sessionid owner reqid = ([], [])"
| "flock_interrupt (l # ls) connptr sessionid owner reqid =
     (let (ls', ev2) = flock_interrupt ls connptr sessionid owner reqid
      in if l_connptr l = Some connptr \<and> l_sessionid l = sessionid \<and> l_owner l = owner then
           (let (l1, ev1) = flock_lock_wake_up_one l reqid MFS_ERROR_EINTR
            in (if l_instances l1 = [] then ls' else l1 # ls', ev1 @ ev2))
         else (l # ls', ev2))"

definition flock_mine :: "u32 \<Rightarrow> u64 \<Rightarrow> flock \<Rightarrow> bool" where
  "flock_mine sessionid owner l \<longleftrightarrow> l_sessionid l = sessionid \<and> l_owner l = owner"

definition flock_wmine :: "connptr \<Rightarrow> u32 \<Rightarrow> u64 \<Rightarrow> flock \<Rightarrow> bool" where
  "flock_wmine connptr sessionid owner l \<longleftrightarrow>
     l_connptr l = Some connptr \<and> l_sessionid l = sessionid \<and> l_owner l = owner"

text \<open>The owner has an active lock \<open>l\<close>.\<close>

definition flock_cmd_active ::
  "u8 \<Rightarrow> finodelocks \<Rightarrow> flock \<Rightarrow> connptr \<Rightarrow> u32 \<Rightarrow> u32 \<Rightarrow> u32 \<Rightarrow> u64 \<Rightarrow> u8 \<Rightarrow> u8 \<times> finodelocks \<times> out_event list" where
  "flock_cmd_active mode il l connptr sessionid msgid reqid owner op =
     (let mine = flock_mine sessionid owner; rest = remove_first mine (f_active il) in
      if op = FLOCK_UNLOCK \<or> op = FLOCK_RELEASE then
        (let (il1, ev) = flock_lock_unlock mode il rest l in (MFS_STATUS_OK, il1, ev))
      else if op = FLOCK_TRY_SHARED then
        (if l_ltype l = LTYPE_READER then (MFS_STATUS_OK, il, [])
         else
           (let (il1, ev) = flock_lock_check_waiting mode
              (il\<lparr>f_active := chain_upd mine (\<lambda>l. l\<lparr>l_ltype := LTYPE_READER\<rparr>) (f_active il)\<rparr>)
            in (MFS_STATUS_OK, il1, ev)))
      else if op = FLOCK_LOCK_SHARED then
        (if l_ltype l = LTYPE_READER then (MFS_STATUS_OK, il, [])
         else
           (let (il1, ev1) = flock_lock_unlock mode il rest l;
                (st, il2, ev2) = flock_lock_new mode il1 LTYPE_READER connptr sessionid msgid reqid owner
            in (st, il2, ev1 @ ev2)))
      else if op = FLOCK_TRY_EXCLUSIVE then
        (if l_ltype l = LTYPE_WRITER then (MFS_STATUS_OK, il, [])
         else if tl (f_active il) = [] then
           (MFS_STATUS_OK,
            il\<lparr>f_active := chain_upd mine (\<lambda>l. l\<lparr>l_ltype := LTYPE_WRITER\<rparr>) (f_active il)\<rparr>, [])
         else (MFS_ERROR_EAGAIN, il, []))
      else if op = FLOCK_LOCK_EXCLUSIVE then
        (if l_ltype l = LTYPE_WRITER then (MFS_STATUS_OK, il, [])
         else
           (let (il1, ev1) = flock_lock_unlock mode il rest l;
                (st, il2, ev2) = flock_lock_new mode il1 LTYPE_WRITER connptr sessionid msgid reqid owner
            in (st, il2, ev1 @ ev2)))
      else (MFS_ERROR_EINVAL, il, []))"

text \<open>The owner has no active lock but waits for \<open>l\<close> on this connection.\<close>

definition flock_cmd_waiting ::
  "u8 \<Rightarrow> finodelocks \<Rightarrow> flock \<Rightarrow> connptr \<Rightarrow> u32 \<Rightarrow> u32 \<Rightarrow> u32 \<Rightarrow> u64 \<Rightarrow> u8 \<Rightarrow> u8 \<times> finodelocks \<times> out_event list" where
  "flock_cmd_waiting mode il l connptr sessionid msgid reqid owner op =
     (let wmine = flock_wmine connptr sessionid owner;
          (l1, cancel) = flock_lock_wake_up_all l MFS_ERROR_ECANCELED;
          remove = il\<lparr>f_waiting := remove_first wmine (f_waiting il)\<rparr>;
          change = (\<lambda>l'. il\<lparr>f_waiting := chain_upd wmine (\<lambda>_. l') (f_waiting il)\<rparr>)
      in
      if op = FLOCK_RELEASE then
        (MFS_STATUS_OK, remove, cancel @ flock_lock_remove_log (f_inode il) l)
      else if op = FLOCK_UNLOCK then
        (if mode = MODE_CORRECT
         then (MFS_STATUS_OK, remove, cancel @ flock_lock_remove_log (f_inode il) l)
         else (MFS_STATUS_OK, il, []))
      else if op = FLOCK_TRY_SHARED \<or> op = FLOCK_TRY_EXCLUSIVE then (MFS_ERROR_EAGAIN, il, [])
      else if op = FLOCK_LOCK_SHARED then
        (if l_ltype l = LTYPE_READER
         then (MFS_ERROR_WAITING, change (flock_lock_append_req l msgid reqid), [])
         else (MFS_ERROR_WAITING,
               change (flock_lock_append_req (l1\<lparr>l_ltype := LTYPE_READER\<rparr>) msgid reqid), cancel))
      else if op = FLOCK_LOCK_EXCLUSIVE then
        (if l_ltype l = LTYPE_WRITER
         then (MFS_ERROR_WAITING, change (flock_lock_append_req l msgid reqid), [])
         else (MFS_ERROR_WAITING,
               change (flock_lock_append_req (l1\<lparr>l_ltype := LTYPE_WRITER\<rparr>) msgid reqid), cancel))
      else (MFS_ERROR_EINVAL, il, []))"

text \<open>The owner has no lock here.\<close>

definition flock_cmd_new ::
  "u8 \<Rightarrow> finodelocks \<Rightarrow> connptr \<Rightarrow> u32 \<Rightarrow> u32 \<Rightarrow> u32 \<Rightarrow> u64 \<Rightarrow> u8 \<Rightarrow> u8 \<times> finodelocks \<times> out_event list" where
  "flock_cmd_new mode il connptr sessionid msgid reqid owner op =
     (if op = FLOCK_UNLOCK \<or> op = FLOCK_RELEASE then (MFS_STATUS_OK, il, [])
      else
        (let ltype = (if op = FLOCK_TRY_SHARED \<or> op = FLOCK_LOCK_SHARED then LTYPE_READER
                      else LTYPE_WRITER)
         in if (op = FLOCK_TRY_SHARED \<or> op = FLOCK_TRY_EXCLUSIVE) \<and> flock_check mode il ltype
            then (MFS_ERROR_EAGAIN, il, [])
            else flock_lock_new mode il ltype connptr sessionid msgid reqid owner))"

text \<open>The command on the record of the inode.\<close>

definition flock_cmd_il ::
  "u8 \<Rightarrow> finodelocks \<Rightarrow> connptr \<Rightarrow> u32 \<Rightarrow> u32 \<Rightarrow> u32 \<Rightarrow> u64 \<Rightarrow> u8 \<Rightarrow> u8 \<times> finodelocks \<times> out_event list" where
  "flock_cmd_il mode il connptr sessionid msgid reqid owner op =
     (if op = FLOCK_INTERRUPT then
        (let (ws, ev) = flock_interrupt (f_waiting il) connptr sessionid owner reqid
         in (MFS_STATUS_OK, il\<lparr>f_waiting := ws\<rparr>, ev))
      else
        (case List.find (flock_mine sessionid owner) (f_active il) of
           Some l \<Rightarrow> flock_cmd_active mode il l connptr sessionid msgid reqid owner op
         | None \<Rightarrow>
             (case List.find (flock_wmine connptr sessionid owner) (f_waiting il) of
                Some l \<Rightarrow> flock_cmd_waiting mode il l connptr sessionid msgid reqid owner op
              | None \<Rightarrow> flock_cmd_new mode il connptr sessionid msgid reqid owner op)))"

text \<open>
  \<^verbatim>\<open>flock_inode_remove\<close> is called only after unlocking an active lock.
\<close>

definition flock_locks_cmd ::
  "u8 \<Rightarrow> (u32 \<Rightarrow> u32 \<Rightarrow> bool) \<Rightarrow> ftable \<Rightarrow> connptr \<Rightarrow> u32 \<Rightarrow> u32 \<Rightarrow> u32 \<Rightarrow> u32 \<Rightarrow> u64 \<Rightarrow> u8
     \<Rightarrow> u8 \<times> ftable \<times> out_event list" where
  "flock_locks_cmd mode of_checknode tab connptr sessionid msgid reqid inode owner op =
     (if op \<noteq> FLOCK_INTERRUPT \<and> op \<noteq> FLOCK_RELEASE \<and> \<not> of_checknode sessionid inode
      then (MFS_ERROR_NOTOPENED, tab, [])
      else if flock_inode_find tab inode = None
           \<and> (op = FLOCK_UNLOCK \<or> op = FLOCK_INTERRUPT \<or> op = FLOCK_RELEASE)
      then (MFS_STATUS_OK, tab, [])
      else
        (let (tab1, il) = flock_inode_get tab inode;
             (status, il1, ev1) = flock_cmd_il mode il connptr sessionid msgid reqid owner op;
             (tab2, ev2) = flock_put_back tab1 il1 ((op = FLOCK_UNLOCK \<or> op = FLOCK_RELEASE)
                             \<and> List.find (flock_mine sessionid owner) (f_active il) \<noteq> None)
         in (status, tab2, ev1 @ ev2)))"

subsection \<open>Closed files\<close>

text \<open>
  The loop over the active locks. When the last one goes, waiting locks are granted and the loop
  ends, because the saved successor is then the null pointer.
\<close>

fun flock_close_active ::
  "u8 \<Rightarrow> u32 \<Rightarrow> finodelocks \<Rightarrow> flock list \<Rightarrow> flock list \<Rightarrow> finodelocks \<times> out_event list" where
  "flock_close_active mode sessionid il kept [] = (il\<lparr>f_active := kept\<rparr>, [])"
| "flock_close_active mode sessionid il kept (l # ls) =
     (if l_sessionid l = sessionid then
        (let (il1, ev1) = flock_lock_unlock mode il (kept @ ls) l
         in if kept @ ls = [] then (il1, ev1)
            else (let (il2, ev2) = flock_close_active mode sessionid il1 kept ls in (il2, ev1 @ ev2)))
      else flock_close_active mode sessionid il (kept @ [l]) ls)"

definition flock_file_closed :: "u8 \<Rightarrow> ftable \<Rightarrow> u32 \<Rightarrow> u32 \<Rightarrow> ftable \<times> out_event list" where
  "flock_file_closed mode tab sessionid inode =
     (case flock_inode_find tab inode of
        None \<Rightarrow> (tab, [])
      | Some il \<Rightarrow>
          (let gone = filter (\<lambda>l. l_sessionid l = sessionid) (f_waiting il);
               ev1 = concat (map (flock_lock_remove_log (f_inode il)) gone);
               il1 = il\<lparr>f_waiting := filter (\<lambda>l. l_sessionid l \<noteq> sessionid) (f_waiting il)\<rparr>;
               (il2, ev2) = flock_close_active mode sessionid il1 [] (f_active il1);
               (tab3, ev3) = flock_put_back tab il2 True
           in (tab3, ev1 @ ev2 @ ev3)))"

subsection \<open>Changelog replay\<close>

definition flock_mr_type :: "char \<Rightarrow> u8 option" where
  "flock_mr_type cmd =
     (if cmd \<in> {CHR ''R'', CHR ''r'', CHR ''S'', CHR ''s''} then Some LTYPE_READER
      else if cmd \<in> {CHR ''W'', CHR ''w'', CHR ''E'', CHR ''e''} then Some LTYPE_WRITER
      else None)"

definition flock_replayed :: "u32 \<Rightarrow> u64 \<Rightarrow> u8 \<Rightarrow> flock" where
  "flock_replayed sessionid owner ltype =
     \<lparr>l_owner = owner, l_connptr = None, l_sessionid = sessionid, l_state = STATE_ACTIVE,
      l_ltype = ltype, l_instances = []\<rparr>"

definition flock_mr_change ::
  "ftable \<Rightarrow> u32 \<Rightarrow> u32 \<Rightarrow> u64 \<Rightarrow> char \<Rightarrow> u8 \<times> ftable \<times> out_event list" where
  "flock_mr_change tab inode sessionid owner cmd =
     (if cmd \<in> {CHR ''U'', CHR ''u''} then
        (case flock_inode_find tab inode of
           None \<Rightarrow> (MFS_ERROR_MISMATCH, tab, [])
         | Some il \<Rightarrow>
             (let gone = filter (flock_mine sessionid owner) (f_active il);
                  il1 = il\<lparr>f_active := filter (\<lambda>l. \<not> flock_mine sessionid owner l) (f_active il)\<rparr>;
                  (tab2, ev2) = flock_put_back tab il1 True
              in (MFS_STATUS_OK, tab2, map (\<lambda>_. Meta_version_inc) gone @ ev2)))
      else
        (case flock_mr_type cmd of
           None \<Rightarrow> (MFS_ERROR_EINVAL, tab, [])
         | Some ltype \<Rightarrow>
             (let (tab1, il) = flock_inode_get tab inode
              in if f_active il \<noteq> [] \<and> (l_ltype (hd (f_active il)) = LTYPE_WRITER \<or> ltype = LTYPE_WRITER)
                 then (MFS_ERROR_MISMATCH, tab1, [])
                 else (MFS_STATUS_OK,
                       flock_inode_put tab1
                         (flock_do_lock_inode_attach il (flock_replayed sessionid owner ltype)),
                       [Meta_version_inc]))))"

subsection \<open>The table as a dictionary\<close>

definition ftable_chains :: "ftable \<Rightarrow> bool" where
  "ftable_chains tab \<longleftrightarrow> chains_ok f_inode FLOCK_INODE_HASH tab"

interpretation fd: inode_dict flock_inode_find flock_inode_put f_inode
  flock_inode_new flock_inode_empty flock_inode_remove
  "\<lambda>il. f_active il = [] \<and> f_waiting il = []" ftable_chains
proof unfold_locales
  fix t k v
  show "flock_inode_find t k = Some v \<Longrightarrow> f_inode v = k"
    by (auto simp: flock_inode_find_def find_Some_iff)
next
  fix t v k
  show "flock_inode_find t (f_inode v) \<noteq> None \<Longrightarrow>
    flock_inode_find (flock_inode_put t v) k = (if k = f_inode v then Some v else flock_inode_find t k)"
    by (simp add: flock_inode_find_def flock_inode_put_def Let_def chain_find_put)
next
  fix t k j
  show "flock_inode_find (flock_inode_new t k) j =
      (if j = k then Some (flock_inode_empty k) else flock_inode_find t j)"
    by (simp add: flock_inode_find_def flock_inode_new_def flock_inode_empty_def Let_def)
next
  fix t k j
  show "flock_inode_find (fst (flock_inode_remove t k)) j = (if j = k then None else flock_inode_find t j)"
    by (simp add: flock_inode_find_def flock_inode_remove_def Let_def chain_find_filter)
next
  fix t k v
  assume "ftable_chains t" "flock_inode_find t k = Some v" "f_active v = [] \<and> f_waiting v = []"
  then show "snd (flock_inode_remove t k) = []"
    using chain_filter_unique [of f_inode "t (FLOCK_INODE_HASH k)" k v
        "\<lambda>il. \<not> (f_active il = [] \<and> f_waiting il = [])"]
    by (simp add: flock_inode_find_def flock_inode_remove_def ftable_chains_def chains_ok_def Let_def)
next
  fix t v
  show "ftable_chains t \<Longrightarrow> ftable_chains (flock_inode_put t v)"
    unfolding ftable_chains_def flock_inode_put_def Let_def by (rule chains_ok_put)
next
  fix t k
  show "ftable_chains t \<Longrightarrow> flock_inode_find t k = None \<Longrightarrow> ftable_chains (flock_inode_new t k)"
    using chains_ok_new [of f_inode FLOCK_INODE_HASH t "flock_inode_empty k"]
    by (simp add: ftable_chains_def flock_inode_find_def flock_inode_new_def flock_inode_empty_def Let_def)
next
  fix t k
  show "ftable_chains t \<Longrightarrow> ftable_chains (fst (flock_inode_remove t k))"
    by (simp add: ftable_chains_def flock_inode_remove_def Let_def chains_ok_filter)
qed

subsection \<open>The invariant of a record\<close>

definition freaders :: "flock list \<Rightarrow> bool" where
  "freaders ls \<longleftrightarrow> (\<forall>l \<in> set ls. l_ltype l = LTYPE_READER)"

text \<open>Mutual exclusion: the active locks are readers, or there is a single one.\<close>

definition factive_ok :: "flock list \<Rightarrow> bool" where
  "factive_ok ls \<longleftrightarrow>
     (\<forall>l \<in> set ls. l_state l = STATE_ACTIVE \<and> l_ltype l \<in> {LTYPE_READER, LTYPE_WRITER} \<and>
        l_instances l = []) \<and>
     (freaders ls \<or> length ls = 1)"

definition fwait_ok :: "flock \<Rightarrow> bool" where
  "fwait_ok l \<longleftrightarrow> l_state l = STATE_WAITING \<and> l_ltype l \<in> {LTYPE_READER, LTYPE_WRITER} \<and>
     l_instances l \<noteq> [] \<and> l_connptr l \<noteq> None"

definition fwaiting_ok :: "flock list \<Rightarrow> bool" where
  "fwaiting_ok ls \<longleftrightarrow> (\<forall>l \<in> set ls. fwait_ok l)"

definition fil_struct :: "finodelocks \<Rightarrow> bool" where
  "fil_struct il \<longleftrightarrow> factive_ok (f_active il) \<and> fwaiting_ok (f_waiting il)"

text \<open>Somebody waits only while somebody holds the lock.\<close>

definition fil_live :: "finodelocks \<Rightarrow> bool" where
  "fil_live il \<longleftrightarrow> (f_waiting il \<noteq> [] \<longrightarrow> f_active il \<noteq> [])"

definition no_abort :: "out_event list \<Rightarrow> bool" where
  "no_abort ev \<longleftrightarrow> (\<forall>msg. Abort msg \<notin> set ev)"

lemma no_abort_simps [simp]:
  "no_abort []" "no_abort (xs @ ys) \<longleftrightarrow> no_abort xs \<and> no_abort ys"
  "no_abort (Changelog e # ys) \<longleftrightarrow> no_abort ys"
  by (auto simp: no_abort_def)

lemma no_abort_wake [simp]: "no_abort (concat (map (flock_wake_up l st) is))"
  by (auto simp: no_abort_def flock_wake_up_def split: option.splits)

lemma no_abort_remove_log [simp]: "no_abort (flock_lock_remove_log inode l)"
  by (simp add: flock_lock_remove_log_def)

lemma fok_simps [simp]:
  "factive_ok []" "fwaiting_ok []" "freaders []"
  "freaders (l # ls) \<longleftrightarrow> l_ltype l = LTYPE_READER \<and> freaders ls"
  "fwaiting_ok (l # ls) \<longleftrightarrow> fwait_ok l \<and> fwaiting_ok ls"
  "fwaiting_ok (ls @ ls') \<longleftrightarrow> fwaiting_ok ls \<and> fwaiting_ok ls'"
  by (auto simp: factive_ok_def fwaiting_ok_def freaders_def)

lemma fwaiting_ok_subset: "fwaiting_ok ls \<Longrightarrow> set ls' \<subseteq> set ls \<Longrightarrow> fwaiting_ok ls'"
  by (auto simp: fwaiting_ok_def)

lemma factive_ok_delete: "factive_ok (xs @ l # ys) \<Longrightarrow> factive_ok (xs @ ys)"
  by (auto simp: factive_ok_def freaders_def)

lemma remove_first_split:
  "List.find p xs = Some l \<Longrightarrow> \<exists>pre post. xs = pre @ l # post \<and> remove_first p xs = pre @ post"
proof (induction xs)
  case (Cons x xs)
  then show ?case by (cases "p x") (force intro: exI [of _ "x # _"] exI [of _ "[]"])+
qed simp

lemma factive_ok_remove_first:
  "factive_ok xs \<Longrightarrow> List.find p xs = Some l \<Longrightarrow> factive_ok (remove_first p xs)"
  using remove_first_split factive_ok_delete by metis

subsection \<open>Granting keeps the invariant\<close>

lemma activate_simps [simp]:
  "f_inode (fst (flock_activate il l)) = f_inode il"
  "f_waiting (fst (flock_activate il l)) = f_waiting il"
  "f_active (fst (flock_activate il l)) = l\<lparr>l_state := STATE_ACTIVE, l_instances := []\<rparr> # f_active il"
  "no_abort (snd (flock_activate il l))"
  by (simp_all add: flock_activate_def flock_lock_wake_up_all_def flock_lock_inode_attach_def
      flock_do_lock_inode_attach_def)

lemma factive_ok_activate:
  "factive_ok act \<Longrightarrow> fwait_ok l \<Longrightarrow> act = [] \<or> (freaders act \<and> l_ltype l = LTYPE_READER) \<Longrightarrow>
   factive_ok (l\<lparr>l_state := STATE_ACTIVE, l_instances := []\<rparr> # act)"
  by (auto simp: factive_ok_def fwait_ok_def freaders_def)

text \<open>What both granting loops do, as one statement over the loop.\<close>

definition grant_fine :: "(finodelocks \<Rightarrow> flock list \<Rightarrow> finodelocks \<times> flock list \<times> out_event list) \<Rightarrow> bool" where
  "grant_fine grant \<longleftrightarrow> (\<forall>il ls il' ws ev. grant il ls = (il', ws, ev) \<longrightarrow>
     factive_ok (f_active il) \<longrightarrow> freaders (f_active il) \<longrightarrow> fwaiting_ok ls \<longrightarrow>
     factive_ok (f_active il') \<and> freaders (f_active il') \<and> fwaiting_ok ws \<and> no_abort ev \<and>
     f_inode il' = f_inode il \<and> (f_active il \<noteq> [] \<longrightarrow> f_active il' \<noteq> []) \<and>
     (ls \<noteq> [] \<longrightarrow> l_ltype (hd ls) = LTYPE_READER \<longrightarrow> f_active il' \<noteq> []))"

lemma grant_linux_fine: "grant_fine flock_grant_linux"
proof -
  have "flock_grant_linux il ls = (il', ws, ev) \<Longrightarrow> factive_ok (f_active il) \<Longrightarrow> freaders (f_active il) \<Longrightarrow>
     fwaiting_ok ls \<Longrightarrow>
     factive_ok (f_active il') \<and> freaders (f_active il') \<and> fwaiting_ok ws \<and> no_abort ev \<and>
     f_inode il' = f_inode il \<and> (f_active il \<noteq> [] \<longrightarrow> f_active il' \<noteq> []) \<and>
     (ls \<noteq> [] \<longrightarrow> l_ltype (hd ls) = LTYPE_READER \<longrightarrow> f_active il' \<noteq> [])" for il ls il' ws ev
  proof (induction il ls arbitrary: il' ws ev rule: flock_grant_linux.induct)
    case (2 il l ls)
    have r: "fwait_ok l" "fwaiting_ok ls" using "2.prems"(4) by simp_all
    show ?case
    proof (cases "l_ltype l = LTYPE_READER")
      case True
      obtain ev2 where g: "flock_grant_linux (fst (flock_activate il l)) ls = (il', ws, ev2)"
        and ev: "ev = snd (flock_activate il l) @ ev2"
        using "2.prems"(1) True by (auto split: prod.splits)
      have "factive_ok (f_active (fst (flock_activate il l)))"
        using factive_ok_activate [OF "2.prems"(2) r(1)] "2.prems"(3) True by simp
      with "2.IH"(1) [OF True prod.collapse refl g] True ev r "2.prems"(3) show ?thesis by simp
    next
      case False
      obtain ws2 where g: "flock_grant_linux il ls = (il', ws2, ev)" "ws = l # ws2"
        using "2.prems"(1) False by (auto split: prod.splits)
      with "2.IH"(2) [OF False g(1) "2.prems"(2,3) r(2)] False r(1) show ?thesis by simp
    qed
  qed auto
  then show ?thesis by (auto simp: grant_fine_def)
qed

lemma grant_prefix_fine: "grant_fine flock_grant_prefix"
proof -
  have "flock_grant_prefix il ls = (il', ws, ev) \<Longrightarrow> factive_ok (f_active il) \<Longrightarrow> freaders (f_active il) \<Longrightarrow>
     fwaiting_ok ls \<Longrightarrow>
     factive_ok (f_active il') \<and> freaders (f_active il') \<and> fwaiting_ok ws \<and> no_abort ev \<and>
     f_inode il' = f_inode il \<and> (f_active il \<noteq> [] \<longrightarrow> f_active il' \<noteq> []) \<and>
     (ls \<noteq> [] \<longrightarrow> l_ltype (hd ls) = LTYPE_READER \<longrightarrow> f_active il' \<noteq> [])" for il ls il' ws ev
  proof (induction il ls arbitrary: il' ws ev rule: flock_grant_prefix.induct)
    case (2 il l ls)
    have r: "fwait_ok l" "fwaiting_ok ls" using "2.prems"(4) by simp_all
    show ?case
    proof (cases "l_ltype l = LTYPE_READER")
      case True
      obtain ev2 where g: "flock_grant_prefix (fst (flock_activate il l)) ls = (il', ws, ev2)"
        and ev: "ev = snd (flock_activate il l) @ ev2"
        using "2.prems"(1) True by (auto split: prod.splits)
      have "factive_ok (f_active (fst (flock_activate il l)))"
        using factive_ok_activate [OF "2.prems"(2) r(1)] "2.prems"(3) True by simp
      with "2.IH" [OF True prod.collapse refl g] True ev r "2.prems"(3) show ?thesis by simp
    next
      case False
      with 2 show ?thesis by auto
    qed
  qed auto
  then show ?thesis by (auto simp: grant_fine_def)
qed

lemma grant_fineD:
  assumes "grant_fine grant" "grant il ls = (il', ws, ev)"
    and "factive_ok (f_active il)" "freaders (f_active il)" "fwaiting_ok ls"
  shows "factive_ok (f_active il')" "freaders (f_active il')" "fwaiting_ok ws" "no_abort ev"
    "f_inode il' = f_inode il" "f_active il \<noteq> [] \<Longrightarrow> f_active il' \<noteq> []"
    "ls \<noteq> [] \<Longrightarrow> l_ltype (hd ls) = LTYPE_READER \<Longrightarrow> f_active il' \<noteq> []"
  using assms unfolding grant_fine_def by blast+

lemma factive_head:
  "factive_ok ls \<Longrightarrow> ls = [] \<or> l_ltype (hd ls) = LTYPE_READER \<Longrightarrow> freaders ls"
  by (cases ls) (auto simp: factive_ok_def freaders_def)

lemma factive_not_writer:
  "factive_ok ls \<Longrightarrow> \<not> (ls \<noteq> [] \<and> l_ltype (hd ls) = LTYPE_WRITER) \<Longrightarrow> freaders ls"
  by (cases ls) (auto simp: factive_ok_def freaders_def)

lemma check_waiting_fine:
  assumes "fil_struct il" "flock_lock_check_waiting mode il = (il', ev)"
  shows "fil_struct il' \<and> no_abort ev \<and> f_inode il' = f_inode il \<and> fil_live il' \<and>
    (f_active il \<noteq> [] \<or> f_waiting il \<noteq> [] \<longrightarrow> f_active il' \<noteq> [])"
proof (cases "f_waiting il")
  case Nil
  with assms show ?thesis by (auto simp: flock_lock_check_waiting_def fil_live_def)
next
  case (Cons l ls)
  have ok: "factive_ok (f_active il)" "fwait_ok l" "fwaiting_ok ls" "fwaiting_ok (f_waiting il)"
    using assms(1) Cons by (auto simp: fil_struct_def)
  let ?grant = "if mode = MODE_LINUX then flock_grant_linux else flock_grant_prefix"
  have fine: "grant_fine ?grant" by (simp add: grant_linux_fine grant_prefix_fine)
  show ?thesis
  proof (cases "f_active il = [] \<or> l_ltype (hd (f_active il)) = LTYPE_READER")
    case False
    with assms Cons show ?thesis by (auto simp: flock_lock_check_waiting_def fil_live_def Let_def)
  next
    case readers: True
    show ?thesis
    proof (cases "f_active il = [] \<and> l_ltype l = LTYPE_WRITER")
      case True
      have "flock_activate (il\<lparr>f_waiting := ls\<rparr>) l = (il', ev)"
        using assms(2) Cons True by (auto simp: flock_lock_check_waiting_def split_def Let_def)
      then have "il' = fst (flock_activate (il\<lparr>f_waiting := ls\<rparr>) l)"
        "ev = snd (flock_activate (il\<lparr>f_waiting := ls\<rparr>) l)" by simp_all
      with True ok factive_ok_activate [of "[]" l] show ?thesis
        by (simp add: fil_live_def fil_struct_def)
    next
      case False
      obtain il2 ws ev2 where g: "?grant il (f_waiting il) = (il2, ws, ev2)" by (metis prod_cases3)
      then have eq: "il' = il2\<lparr>f_waiting := ws\<rparr>" "ev = ev2"
        using assms(2) Cons readers False
        by (auto simp: flock_lock_check_waiting_def Let_def split: if_splits)
      have "f_active il = [] \<Longrightarrow> l_ltype l = LTYPE_READER" using False ok(2) by (auto simp: fwait_ok_def)
      with grant_fineD [OF fine g ok(1) factive_head [OF ok(1) readers] ok(4)] eq Cons
      show ?thesis by (auto simp: fil_struct_def fil_live_def)
    qed
  qed
qed

lemma unlock_fine:
  assumes "fwaiting_ok (f_waiting il)" "factive_ok rest" "flock_lock_unlock mode il rest l = (il', ev)"
  shows "fil_struct il' \<and> no_abort ev \<and> f_inode il' = f_inode il \<and> fil_live il' \<and>
    (rest \<noteq> [] \<or> f_waiting il \<noteq> [] \<longrightarrow> f_active il' \<noteq> []) \<and> (rest \<noteq> [] \<longrightarrow> f_active il' = rest)"
  using assms check_waiting_fine [of "il\<lparr>f_active := rest\<rparr>" mode]
  by (auto simp: flock_lock_unlock_def fil_struct_def fil_live_def Let_def split: if_splits prod.splits)

lemma append_req_fine [simp]:
  "l_instances (flock_lock_append_req l m r) \<noteq> []"
  "l_state (flock_lock_append_req l m r) = l_state l"
  "l_ltype (flock_lock_append_req l m r) = l_ltype l"
  "l_connptr (flock_lock_append_req l m r) = l_connptr l"
  "l_sessionid (flock_lock_append_req l m r) = l_sessionid l"
  "l_owner (flock_lock_append_req l m r) = l_owner l"
  by (auto simp: flock_lock_append_req_def)

lemma lock_new_fine:
  assumes "fil_struct il" "fil_live il" "ltype \<in> {LTYPE_READER, LTYPE_WRITER}"
    and "flock_lock_new mode il ltype conn ses msgid reqid own = (st, il', ev)"
  shows "fil_struct il' \<and> fil_live il' \<and> no_abort ev \<and> f_inode il' = f_inode il \<and> f_active il' \<noteq> []"
proof (cases "flock_check mode il ltype")
  case True
  then have "f_active il \<noteq> []"
    using assms(2) by (auto simp: flock_check_def fil_live_def split: if_splits)
  with True assms show ?thesis
    by (auto simp: flock_lock_new_def flock_lock_inode_attach_def flock_do_lock_inode_attach_def
        fil_struct_def fil_live_def fwait_ok_def)
next
  case False
  have "f_active il = [] \<or> freaders (f_active il) \<and> ltype = LTYPE_READER"
    using False assms(1,3) factive_not_writer [of "f_active il"]
    by (auto simp: flock_check_def fil_struct_def split: if_splits)
  then have "factive_ok (\<lparr>l_owner = own, l_connptr = Some conn, l_sessionid = ses,
      l_state = STATE_ACTIVE, l_ltype = ltype, l_instances = []\<rparr> # f_active il)"
    using assms(1,3) by (auto simp: fil_struct_def factive_ok_def freaders_def)
  with False assms show ?thesis
    by (auto simp: flock_lock_new_def flock_lock_inode_attach_def flock_do_lock_inode_attach_def
        fil_struct_def fil_live_def Let_def)
qed

subsection \<open>Every operation keeps the invariant\<close>

definition fil_ok :: "finodelocks \<Rightarrow> bool" where
  "fil_ok il \<longleftrightarrow> fil_struct il \<and> f_active il \<noteq> []"

text \<open>The result of a command on a record: fine, and empty only after an unlock.\<close>

definition cmd_fine :: "finodelocks \<Rightarrow> bool \<Rightarrow> finodelocks \<Rightarrow> out_event list \<Rightarrow> bool" where
  "cmd_fine il unlocked il' ev \<longleftrightarrow> fil_struct il' \<and> no_abort ev \<and> f_inode il' = f_inode il \<and>
     (f_active il' = [] \<longrightarrow> f_waiting il' = [] \<and> unlocked)"

lemma fil_live_cmd: "fil_live il' \<Longrightarrow> f_active il' = [] \<Longrightarrow> f_waiting il' = []"
  by (auto simp: fil_live_def)

lemma set_ltype_fine:
  assumes "factive_ok act" "tl act = [] \<or> t = LTYPE_READER" "t \<in> {LTYPE_READER, LTYPE_WRITER}"
  shows "factive_ok (chain_upd p (\<lambda>l. l\<lparr>l_ltype := t\<rparr>) act)"
proof (cases act)
  case (Cons l ls)
  show ?thesis
  proof (cases "ls = []")
    case True
    with Cons assms show ?thesis by (auto simp: factive_ok_def)
  next
    case False
    with Cons assms have *: "freaders act" "t = LTYPE_READER" by (auto simp: factive_ok_def)
    have "\<forall>l \<in> set (chain_upd p (\<lambda>l. l\<lparr>l_ltype := t\<rparr>) act). l_state l = STATE_ACTIVE \<and>
        l_ltype l = LTYPE_READER \<and> l_instances l = []"
      using set_chain_upd [of p "\<lambda>l. l\<lparr>l_ltype := t\<rparr>" act] assms(1) *
      by (auto simp: factive_ok_def freaders_def dest!: subsetD)
    then show ?thesis by (auto simp: factive_ok_def freaders_def)
  qed
qed (simp)

lemma cmd_active_fine:
  assumes il: "fil_ok il" and l: "List.find (flock_mine ses own) (f_active il) = Some l"
    and r: "flock_cmd_active mode il l conn ses msgid reqid own op = (st, il', ev)"
  shows "cmd_fine il (op = FLOCK_UNLOCK \<or> op = FLOCK_RELEASE) il' ev"
proof -
  let ?rest = "remove_first (flock_mine ses own) (f_active il)"
  have ok: "fil_struct il" "fwaiting_ok (f_waiting il)" "factive_ok (f_active il)" "f_active il \<noteq> []"
    using il by (auto simp: fil_ok_def fil_struct_def)
  have rest: "factive_ok ?rest" using factive_ok_remove_first [OF ok(3) l] .
  have mem: "l \<in> set (f_active il)" using find_mem [OF l] by simp
  have single: "tl (f_active il) = []" if "l_ltype l \<noteq> LTYPE_READER"
    using ok(3) mem that by (cases "f_active il") (auto simp: factive_ok_def freaders_def)
  obtain u ev1 where u: "flock_lock_unlock mode il ?rest l = (u, ev1)" by fastforce
  note uf = unlock_fine [OF ok(2) rest u]
  obtain stR ilR evR stW ilW evW where
    n: "flock_lock_new mode u LTYPE_READER conn ses msgid reqid own = (stR, ilR, evR)"
       "flock_lock_new mode u LTYPE_WRITER conn ses msgid reqid own = (stW, ilW, evW)"
    by (metis prod_cases3)
  have relock: "cmd_fine il b ilR (ev1 @ evR)" "cmd_fine il b ilW (ev1 @ evW)" for b
    using lock_new_fine [OF _ _ _ n(1)] lock_new_fine [OF _ _ _ n(2)] uf by (auto simp: cmd_fine_def)
  obtain c ev3 where c: "flock_lock_check_waiting mode (il\<lparr>f_active :=
      chain_upd (flock_mine ses own) (\<lambda>l. l\<lparr>l_ltype := LTYPE_READER\<rparr>) (f_active il)\<rparr>) = (c, ev3)" by fastforce
  have cf: "cmd_fine il b c ev3" for b
    using check_waiting_fine [OF _ c] set_ltype_fine [OF ok(3), of LTYPE_READER] ok
    by (auto simp: cmd_fine_def fil_struct_def)
  have up: "cmd_fine il b (il\<lparr>f_active := chain_upd (flock_mine ses own) (\<lambda>l. l\<lparr>l_ltype := LTYPE_WRITER\<rparr>)
      (f_active il)\<rparr>) []" if "tl (f_active il) = []" for b
    using set_ltype_fine [OF ok(3), of LTYPE_WRITER] ok that by (auto simp: cmd_fine_def fil_struct_def)
  have id: "cmd_fine il b il []" for b using ok by (simp add: cmd_fine_def)
  have un: "cmd_fine il True u ev1" using uf fil_live_cmd by (auto simp: cmd_fine_def)
  show ?thesis
    using r relock [of False] cf [of False] up [of False] id [of False] un
    unfolding flock_cmd_active_def Let_def u c n prod.case
    by (auto split: if_splits)
qed

lemma cmd_waiting_fine:
  assumes il: "fil_ok il" and l: "List.find (flock_wmine conn ses own) (f_waiting il) = Some l"
    and r: "flock_cmd_waiting mode il l conn ses msgid reqid own op = (st, il', ev)"
  shows "cmd_fine il b il' ev"
proof -
  have ok: "fil_struct il" "fwaiting_ok (f_waiting il)" "f_active il \<noteq> []" "fwait_ok l"
    using il find_mem [OF l] by (auto simp: fil_ok_def fil_struct_def fwaiting_ok_def)
  have rm: "fwaiting_ok (remove_first (flock_wmine conn ses own) (f_waiting il))"
    using fwaiting_ok_subset [OF ok(2) remove_first_subset] .
  have ch: "fwaiting_ok (chain_upd (flock_wmine conn ses own) (\<lambda>_. l') (f_waiting il))" if "fwait_ok l'" for l'
    using set_chain_upd [of "flock_wmine conn ses own" "\<lambda>_. l'" "f_waiting il"] ok(2) that
    by (auto simp: fwaiting_ok_def dest!: subsetD)
  have new: "fwait_ok (flock_lock_append_req l msgid reqid)"
    "\<And>t. t \<in> {LTYPE_READER, LTYPE_WRITER} \<Longrightarrow>
      fwait_ok (flock_lock_append_req (l\<lparr>l_instances := [], l_ltype := t\<rparr>) msgid reqid)"
    using ok(4) by (auto simp: fwait_ok_def)
  note ch = ch [OF new(1)] ch [OF new(2) [of LTYPE_READER]] ch [OF new(2) [of LTYPE_WRITER]]
  show ?thesis
    using r ok(1,3) rm ch
    unfolding flock_cmd_waiting_def flock_lock_wake_up_all_def Let_def prod.case
    by (auto simp: cmd_fine_def fil_struct_def split: if_splits)
qed

lemma cmd_new_fine:
  assumes "fil_struct il" "fil_live il"
    and "f_active il \<noteq> [] \<or> \<not> (op = FLOCK_UNLOCK \<or> op = FLOCK_RELEASE)"
    and r: "flock_cmd_new mode il conn ses msgid reqid own op = (st, il', ev)"
  shows "cmd_fine il b il' ev"
proof -
  have "flock_check mode il t \<Longrightarrow> f_active il \<noteq> []" for t
    using assms(2) by (auto simp: flock_check_def fil_live_def split: if_splits)
  then show ?thesis
    using assms(1,3) r lock_new_fine [OF assms(1,2), of LTYPE_READER mode conn ses msgid reqid own st il' ev]
      lock_new_fine [OF assms(1,2), of LTYPE_WRITER mode conn ses msgid reqid own st il' ev]
    by (auto simp: flock_cmd_new_def Let_def cmd_fine_def split: if_splits)
qed

lemma interrupt_fine:
  "fwaiting_ok ws \<Longrightarrow> flock_interrupt ws conn ses own reqid = (ws', ev) \<Longrightarrow> fwaiting_ok ws' \<and> no_abort ev"
  by (induction ws arbitrary: ws' ev)
    (auto simp: Let_def flock_lock_wake_up_one_def fwait_ok_def split: prod.splits if_splits)

lemma cmd_il_fine:
  assumes il: "fil_ok il \<or> (f_active il = [] \<and> f_waiting il = [] \<and>
      op \<noteq> FLOCK_UNLOCK \<and> op \<noteq> FLOCK_RELEASE \<and> op \<noteq> FLOCK_INTERRUPT)"
    and r: "flock_cmd_il mode il conn ses msgid reqid own op = (st, il', ev)"
  shows "cmd_fine il ((op = FLOCK_UNLOCK \<or> op = FLOCK_RELEASE) \<and>
    List.find (flock_mine ses own) (f_active il) \<noteq> None) il' ev"
proof -
  have s: "fil_struct il" "fil_live il" using il by (auto simp: fil_ok_def fil_struct_def fil_live_def)
  consider (int) "op = FLOCK_INTERRUPT" | (act) l where "op \<noteq> FLOCK_INTERRUPT"
      "List.find (flock_mine ses own) (f_active il) = Some l"
    | (wait) l where "op \<noteq> FLOCK_INTERRUPT" "List.find (flock_mine ses own) (f_active il) = None"
      "List.find (flock_wmine conn ses own) (f_waiting il) = Some l"
    | (new) "op \<noteq> FLOCK_INTERRUPT" "List.find (flock_mine ses own) (f_active il) = None"
      "List.find (flock_wmine conn ses own) (f_waiting il) = None"
    by fastforce
  then show ?thesis
  proof cases
    case int
    with r interrupt_fine [of "f_waiting il" conn ses own reqid] il s show ?thesis
      by (auto simp: flock_cmd_il_def cmd_fine_def fil_ok_def fil_struct_def split: prod.splits)
  next
    case act
    then have "fil_ok il" using il by auto
    from cmd_active_fine [OF this act(2)] r act show ?thesis by (simp add: flock_cmd_il_def)
  next
    case wait
    then have "fil_ok il" using il by auto
    from cmd_waiting_fine [OF this wait(3)] r wait show ?thesis by (simp add: flock_cmd_il_def)
  next
    case new
    have "f_active il \<noteq> [] \<or> \<not> (op = FLOCK_UNLOCK \<or> op = FLOCK_RELEASE)"
      using il by (auto simp: fil_ok_def)
    from cmd_new_fine [OF s this] r new show ?thesis by (simp add: flock_cmd_il_def)
  qed
qed

subsection \<open>The invariant of the table\<close>

definition ftable_ok :: "ftable \<Rightarrow> bool" where
  "ftable_ok tab \<longleftrightarrow> ftable_chains tab \<and> fd.all_recs fil_ok tab"

definition flock_init :: ftable where
  "flock_init = (\<lambda>_. [])"

lemma ftable_ok_init: "ftable_ok flock_init"
  by (simp add: ftable_ok_def flock_init_def ftable_chains_def chains_ok_def fd.all_recs_def
      flock_inode_find_def)

lemma ftable_okD:
  "ftable_ok tab \<Longrightarrow> flock_inode_find tab inode = Some il \<Longrightarrow>
   ftable_chains tab \<and> fil_ok il \<and> fil_struct il \<and> f_inode il = inode"
  by (auto simp: ftable_ok_def fil_ok_def dest: fd.find_key fd.all_recsD)

text \<open>The record of one inode is replaced, and removed when it is empty.\<close>

definition ftable_but :: "u32 \<Rightarrow> ftable \<Rightarrow> bool" where
  "ftable_but inode tab \<longleftrightarrow> ftable_chains tab \<and> flock_inode_find tab inode \<noteq> None \<and>
     (\<forall>k il. k \<noteq> inode \<longrightarrow> flock_inode_find tab k = Some il \<longrightarrow> fil_ok il)"

lemma ftable_but_old: "ftable_ok tab \<Longrightarrow> flock_inode_find tab inode \<noteq> None \<Longrightarrow> ftable_but inode tab"
  by (auto simp: ftable_but_def ftable_ok_def fd.all_recs_def)

lemma ftable_but_new:
  "ftable_ok tab \<Longrightarrow> flock_inode_find tab inode = None \<Longrightarrow> ftable_but inode (flock_inode_new tab inode)"
  by (auto simp: ftable_but_def ftable_ok_def fd.all_recs_def fd.find_new fd.inv_new)

lemma ftable_put_ok:
  assumes "ftable_but (f_inode il) tab" "fil_ok il"
  shows "ftable_ok (flock_inode_put tab il)"
  using assms by (auto simp: ftable_but_def ftable_ok_def fd.all_recs_def fd.find_put fd.inv_put)

lemma ftable_put_remove_ok:
  assumes "ftable_but (f_inode il) tab" "f_active il = []" "f_waiting il = []"
  shows "ftable_ok (fst (flock_inode_remove (flock_inode_put tab il) (f_inode il)))"
    "snd (flock_inode_remove (flock_inode_put tab il) (f_inode il)) = []"
proof -
  have "flock_inode_find (flock_inode_put tab il) (f_inode il) = Some il" "ftable_chains (flock_inode_put tab il)"
    using assms(1) by (simp_all add: ftable_but_def fd.find_put fd.inv_put)
  then show "snd (flock_inode_remove (flock_inode_put tab il) (f_inode il)) = []"
    using fd.remove_quiet assms(2,3) by blast
  show "ftable_ok (fst (flock_inode_remove (flock_inode_put tab il) (f_inode il)))"
    using assms(1) by (auto simp: ftable_but_def ftable_ok_def fd.all_recs_def fd.find_put fd.inv_put
        fd.find_remove fd.inv_remove)
qed

lemma flock_put_back_ok:
  assumes "ftable_but (f_inode il) tab" "cmd_fine il check il' ev"
  shows "ftable_ok (fst (flock_put_back tab il' check)) \<and> snd (flock_put_back tab il' check) = []"
proof (cases "f_active il' = []")
  case True
  have "f_waiting il' = []" "check" "f_inode il' = f_inode il"
    using assms(2) True by (auto simp: cmd_fine_def)
  with ftable_put_remove_ok [OF _ True this(1), of tab] assms(1) True show ?thesis
    by (simp add: flock_put_back_def)
next
  case False
  with assms ftable_put_ok [of il' tab] show ?thesis by (auto simp: flock_put_back_def cmd_fine_def fil_ok_def)
qed

lemma find_put_back:
  "flock_inode_find tab (f_inode il) \<noteq> None \<Longrightarrow>
   flock_inode_find (fst (flock_put_back tab il check)) k =
     (if k = f_inode il then (if check \<and> f_waiting il = [] \<and> f_active il = [] then None else Some il)
      else flock_inode_find tab k)"
  by (simp add: flock_put_back_def fd.find_put fd.find_remove)

lemma flock_inode_get_ok:
  assumes "ftable_ok tab" "flock_inode_get tab inode = (tab1, il)"
  shows "ftable_but (f_inode il) tab1" "f_inode il = inode" "flock_inode_find tab1 inode = Some il"
    "fil_ok il \<or> (flock_inode_find tab inode = None \<and> il = flock_inode_empty inode)"
    "\<And>k. k \<noteq> inode \<Longrightarrow> flock_inode_find tab1 k = flock_inode_find tab k"
  using assms ftable_okD [OF assms(1)] ftable_but_old [OF assms(1)] ftable_but_new [OF assms(1)]
  by (auto simp: flock_inode_get_def flock_inode_empty_def fd.find_new split: option.splits)

text \<open>What a command does when it gets past its checks.\<close>

lemma flock_locks_cmd_run:
  assumes "ftable_ok tab" "flock_inode_get tab inode = (tab1, il)"
    and "flock_cmd_il mode il conn ses msgid reqid own op = (st, il', ev)"
    and check: "check = ((op = FLOCK_UNLOCK \<or> op = FLOCK_RELEASE) \<and>
      List.find (flock_mine ses own) (f_active il) \<noteq> None)"
    and go: "op = FLOCK_INTERRUPT \<or> op = FLOCK_RELEASE \<or> chk ses inode"
      "flock_inode_find tab inode \<noteq> None \<or>
       \<not> (op = FLOCK_UNLOCK \<or> op = FLOCK_INTERRUPT \<or> op = FLOCK_RELEASE)"
  shows "cmd_fine il check il' ev" "ftable_but (f_inode il) tab1"
    "flock_locks_cmd mode chk tab conn ses msgid reqid inode own op =
       (st, fst (flock_put_back tab1 il' check), ev)"
proof -
  note g = flock_inode_get_ok [OF assms(1,2)]
  have "fil_ok il \<or> (f_active il = [] \<and> f_waiting il = [] \<and>
      op \<noteq> FLOCK_UNLOCK \<and> op \<noteq> FLOCK_RELEASE \<and> op \<noteq> FLOCK_INTERRUPT)"
    using g(4) go(2) by (auto simp: flock_inode_empty_def)
  from cmd_il_fine [OF this assms(3)] show fine: "cmd_fine il check il' ev" by (simp only: check)
  show "ftable_but (f_inode il) tab1" by (rule g(1))
  have "snd (flock_put_back tab1 il' check) = []" using flock_put_back_ok [OF g(1) fine] by simp
  then show "flock_locks_cmd mode chk tab conn ses msgid reqid inode own op =
       (st, fst (flock_put_back tab1 il' check), ev)"
    using go unfolding flock_locks_cmd_def assms(2,3) Let_def prod.case check [symmetric]
    by (auto simp: split_def)
qed

lemma flock_locks_cmd_ok:
  assumes "ftable_ok tab"
    and r: "flock_locks_cmd mode chk tab conn ses msgid reqid inode own op = (st, tab', ev)"
  shows "ftable_ok tab' \<and> no_abort ev"
proof (cases "(op = FLOCK_INTERRUPT \<or> op = FLOCK_RELEASE \<or> chk ses inode) \<and>
    (flock_inode_find tab inode \<noteq> None \<or> \<not> (op = FLOCK_UNLOCK \<or> op = FLOCK_INTERRUPT \<or> op = FLOCK_RELEASE))")
  case False
  with assms show ?thesis by (auto simp: flock_locks_cmd_def split: if_splits)
next
  case True
  obtain tab1 il where g: "flock_inode_get tab inode = (tab1, il)" by fastforce
  obtain st1 il1 ev1 where c: "flock_cmd_il mode il conn ses msgid reqid own op = (st1, il1, ev1)"
    by (metis prod_cases3)
  note run = flock_locks_cmd_run [OF assms(1) g c refl, of chk]
  from flock_put_back_ok [OF run(2,1)] run r True show ?thesis by (auto simp: cmd_fine_def)
qed

lemma close_active_fine:
  assumes "factive_ok (kept @ ls)" "fwaiting_ok (f_waiting il)" "kept @ ls \<noteq> []"
    and "flock_close_active mode ses il kept ls = (il', ev)"
  shows "cmd_fine il True il' ev"
  using assms
proof (induction mode ses il kept ls arbitrary: il' ev rule: flock_close_active.induct)
  case (1 mode ses il kept)
  then show ?case by (auto simp: cmd_fine_def fil_struct_def)
next
  case (2 mode ses il kept l ls)
  show ?case
  proof (cases "l_sessionid l = ses")
    case False
    with 2 show ?thesis by (simp add: cmd_fine_def)
  next
    case True
    obtain u ev1 where u: "flock_lock_unlock mode il (kept @ ls) l = (u, ev1)" by fastforce
    note rest = factive_ok_delete [OF "2.prems"(1)]
    note uf = unlock_fine [OF "2.prems"(2) rest u]
    show ?thesis
    proof (cases "kept @ ls = []")
      case True
      with \<open>l_sessionid l = ses\<close> u uf "2.prems"(4) fil_live_cmd show ?thesis by (auto simp: cmd_fine_def)
    next
      case False
      obtain ev2 where g: "flock_close_active mode ses u kept ls = (il', ev2)" "ev = ev1 @ ev2"
        using "2.prems"(4) u True False by (auto split: prod.splits)
      have "fwaiting_ok (f_waiting u)" using uf by (simp add: fil_struct_def)
      from "2.IH"(1) [OF True u [symmetric] refl False rest this False g(1)] uf g(2)
      show ?thesis by (simp add: cmd_fine_def)
    qed
  qed
qed

lemma no_abort_waiting_log [simp]: "no_abort (concat (map (flock_lock_remove_log inode) ls))"
  by (induction ls) auto

lemma flock_file_closed_ok:
  assumes "ftable_ok tab"
  shows "ftable_ok (fst (flock_file_closed mode tab ses inode)) \<and>
    no_abort (snd (flock_file_closed mode tab ses inode))"
proof (cases "flock_inode_find tab inode")
  case None
  with assms show ?thesis by (simp add: flock_file_closed_def)
next
  case (Some il)
  let ?il = "il\<lparr>f_waiting := filter (\<lambda>l. l_sessionid l \<noteq> ses) (f_waiting il)\<rparr>"
  note il = ftable_okD [OF assms Some]
  obtain il2 ev2 where c: "flock_close_active mode ses ?il [] (f_active ?il) = (il2, ev2)" by fastforce
  have "cmd_fine ?il True il2 ev2"
    using close_active_fine [OF _ _ _ c] il fwaiting_ok_subset [of "f_waiting il"]
    by (auto simp: fil_ok_def fil_struct_def)
  moreover have "ftable_but (f_inode ?il) tab" using ftable_but_old [OF assms] il Some by simp
  ultimately show ?thesis
    using flock_put_back_ok [of ?il tab True il2 ev2] Some c
    by (auto simp: flock_file_closed_def Let_def cmd_fine_def split_def)
qed

lemma find_flock_disconnected:
  "flock_inode_find (flock_disconnected tab c) inode =
     map_option (\<lambda>il. il\<lparr>f_waiting := filter (\<lambda>l. l_connptr l \<noteq> Some c) (f_waiting il)\<rparr>)
       (flock_inode_find tab inode)"
proof -
  have "List.find (\<lambda>il. f_inode il = inode)
      (map (\<lambda>il. il\<lparr>f_waiting := filter (\<lambda>l. l_connptr l \<noteq> Some c) (f_waiting il)\<rparr>) xs) =
     map_option (\<lambda>il. il\<lparr>f_waiting := filter (\<lambda>l. l_connptr l \<noteq> Some c) (f_waiting il)\<rparr>)
       (List.find (\<lambda>il. f_inode il = inode) xs)" for xs
    by (induction xs) auto
  then show ?thesis
    by (simp add: flock_inode_find_def flock_disconnected_def FLOCK_INODE_HASH_def FLOCK_INODE_HASHSIZE_def)
qed

lemma flock_disconnected_ok:
  assumes "ftable_ok tab"
  shows "ftable_ok (flock_disconnected tab c)"
proof -
  have "ftable_chains (flock_disconnected tab c)"
    using assms by (auto simp: ftable_ok_def ftable_chains_def chains_ok_def flock_disconnected_def comp_def)
  with assms fwaiting_ok_subset show ?thesis
    by (fastforce simp: ftable_ok_def fd.all_recs_def find_flock_disconnected fil_ok_def fil_struct_def)
qed

lemma factive_ok_filter: "factive_ok ls \<Longrightarrow> factive_ok (filter P ls)"
proof (cases "freaders ls")
  case False
  moreover assume "factive_ok ls"
  ultimately obtain l where "ls = [l]" "factive_ok [l]"
    by (auto simp: factive_ok_def length_Suc_conv)
  then show ?thesis by simp
qed (auto simp: factive_ok_def freaders_def)

text \<open>Replaying a changelog line on a table without waiting requests.\<close>

definition ftable_quiet :: "ftable \<Rightarrow> bool" where
  "ftable_quiet tab \<longleftrightarrow> fd.all_recs (\<lambda>il. f_waiting il = []) tab"

definition factive_of :: "ftable \<Rightarrow> u32 \<Rightarrow> flock list" where
  "factive_of tab inode = (case flock_inode_find tab inode of None \<Rightarrow> [] | Some il \<Rightarrow> f_active il)"

lemma factive_of_put_back:
  "flock_inode_find tab (f_inode il) \<noteq> None \<Longrightarrow>
   factive_of (fst (flock_put_back tab il check)) k = (if k = f_inode il then f_active il else factive_of tab k)"
  by (simp add: factive_of_def find_put_back)

lemma ftable_quiet_put_back:
  "flock_inode_find tab (f_inode il) \<noteq> None \<Longrightarrow> f_waiting il = [] \<Longrightarrow>
   (\<And>k v. k \<noteq> f_inode il \<Longrightarrow> flock_inode_find tab k = Some v \<Longrightarrow> f_waiting v = []) \<Longrightarrow>
   ftable_quiet (fst (flock_put_back tab il check))"
  by (auto simp: ftable_quiet_def fd.all_recs_def find_put_back)

lemma flock_mr_unlock:
  assumes "ftable_ok tab" "ftable_quiet tab" "factive_of tab inode \<noteq> []"
    and "flock_mr_change tab inode ses own (CHR ''U'') = (st, tab', ev)"
  shows "st = MFS_STATUS_OK \<and> ftable_ok tab' \<and> ftable_quiet tab' \<and> no_abort ev \<and>
    (\<forall>k. factive_of tab' k =
      (if k = inode then filter (\<lambda>l. \<not> flock_mine ses own l) (factive_of tab inode) else factive_of tab k))"
proof -
  obtain il where il: "flock_inode_find tab inode = Some il"
    using assms(3) by (auto simp: factive_of_def split: option.splits)
  let ?il = "il\<lparr>f_active := filter (\<lambda>l. \<not> flock_mine ses own l) (f_active il)\<rparr>"
  note ok = ftable_okD [OF assms(1) il]
  have w: "f_waiting il = []" using assms(2) il by (auto simp: ftable_quiet_def dest: fd.all_recsD)
  have fine: "cmd_fine il True ?il []"
    using ok w factive_ok_filter by (auto simp: cmd_fine_def fil_struct_def)
  have but: "ftable_but (f_inode il) tab" using ftable_but_old [OF assms(1)] ok il by simp
  have "st = MFS_STATUS_OK" "tab' = fst (flock_put_back tab ?il True)" "no_abort ev"
    using assms(4) il flock_put_back_ok [OF but fine]
    by (auto simp: flock_mr_change_def Let_def split_def no_abort_def)
  moreover have "ftable_quiet (fst (flock_put_back tab ?il True))"
    using ftable_quiet_put_back [of tab ?il True] assms(2) ok il w
    by (auto simp: ftable_quiet_def dest: fd.all_recsD)
  ultimately show ?thesis
    using flock_put_back_ok [OF but fine] factive_of_put_back [of tab ?il True] ok il
    by (auto simp: factive_of_def)
qed

lemma flock_mr_lock:
  assumes "ftable_ok tab" "ftable_quiet tab" "flock_mr_type c = Some t" "c \<noteq> CHR ''U''"
    and free: "factive_of tab inode = [] \<or>
      (l_ltype (hd (factive_of tab inode)) \<noteq> LTYPE_WRITER \<and> t \<noteq> LTYPE_WRITER)"
    and r: "flock_mr_change tab inode ses own c = (st, tab', ev)"
  shows "st = MFS_STATUS_OK \<and> ftable_ok tab' \<and> ftable_quiet tab' \<and> no_abort ev \<and>
    (\<forall>k. factive_of tab' k =
      (if k = inode then flock_replayed ses own t # factive_of tab inode else factive_of tab k))"
proof -
  obtain tab1 il where g: "flock_inode_get tab inode = (tab1, il)" by fastforce
  note gok = flock_inode_get_ok [OF assms(1) g]
  have act: "f_active il = factive_of tab inode" and w: "f_waiting il = []"
    using g assms(2)
    by (auto simp: flock_inode_get_def factive_of_def flock_inode_empty_def ftable_quiet_def
        split: option.splits dest: fd.all_recsD)
  have t: "t \<in> {LTYPE_READER, LTYPE_WRITER}" and c: "c \<notin> {CHR ''U'', CHR ''u''}"
    using assms(3) by (auto simp: flock_mr_type_def split: if_splits)
  let ?il = "il\<lparr>f_active := flock_replayed ses own t # f_active il\<rparr>"
  have "factive_ok (f_active il)" using gok(4) by (auto simp: fil_ok_def fil_struct_def flock_inode_empty_def)
  then have fine: "cmd_fine il False ?il []"
    using free act t w factive_not_writer [of "f_active il"]
    by (auto simp: cmd_fine_def fil_struct_def factive_ok_def freaders_def flock_replayed_def)
  have "st = MFS_STATUS_OK" "tab' = fst (flock_put_back tab1 ?il False)" "no_abort ev"
    using r free act c
    by (auto simp: flock_mr_change_def g assms(3) flock_put_back_def flock_do_lock_inode_attach_def
        flock_replayed_def no_abort_def)
  moreover have "ftable_quiet (fst (flock_put_back tab1 ?il False))"
    using ftable_quiet_put_back [of tab1 ?il False] assms(2) gok w
    by (auto simp: ftable_quiet_def dest: fd.all_recsD)
  moreover have "factive_of tab1 k = factive_of tab k" if "k \<noteq> inode" for k
    using gok(5) [OF that] by (simp add: factive_of_def)
  ultimately show ?thesis
    using flock_put_back_ok [OF gok(1) fine] factive_of_put_back [of tab1 ?il False] gok(2,3) act
    by auto
qed

end
