(* ===== verification/Flock_Replay.thy ===== *)
theory Flock_Replay
  imports Flock_Locks
begin

text \<open>
  The changelog of the BSD lock manager and its replay (\<^verbatim>\<open>do_flock\<close> in \<^verbatim>\<open>restore.c\<close>): the lines of
  a history of commands, closed files and disconnections are accepted by a replica and give it the
  active locks of the live master. Two kinds of command break this in the code and are left out: the
  two conversions that \<^verbatim>\<open>flock_locks_cmd\<close> makes without a line, and commands of an owner that waits
  on another connection. The theory ends with the properties of the lock manager.
\<close>

subsection \<open>Lines on the list of active locks\<close>

type_synonym fview = "u32 \<times> u64 \<times> u8"

definition flock_view :: "flock \<Rightarrow> fview" where
  "flock_view l = (l_sessionid l, l_owner l, l_ltype l)"

abbreviation fviews :: "flock list \<Rightarrow> fview list" where
  "fviews \<equiv> map flock_view"

datatype flock_key = FKey u32 u64

definition fkey :: "flock \<Rightarrow> flock_key" where
  "fkey l = FKey (l_sessionid l) (l_owner l)"

lemma view_key_upd [simp]:
  "flock_view (l\<lparr>l_state := a\<rparr>) = flock_view l" "flock_view (l\<lparr>l_instances := b\<rparr>) = flock_view l"
  "fkey (l\<lparr>l_state := a\<rparr>) = fkey l" "fkey (l\<lparr>l_instances := b\<rparr>) = fkey l"
  "fkey (l\<lparr>l_ltype := t\<rparr>) = fkey l"
  by (simp_all add: flock_view_def fkey_def)

lemma fkey_simps [simp]:
  "fkey (flock_lock_append_req l m r) = fkey l"
  "fkey \<lparr>l_owner = w, l_connptr = c, l_sessionid = s, l_state = a, l_ltype = t, l_instances = b\<rparr> = FKey s w"
  by (simp_all add: fkey_def)

lemma mine_fkey: "flock_mine s w l \<longleftrightarrow> fkey l = FKey s w"
  by (simp add: flock_mine_def fkey_def)

fun vreplay :: "fview list \<Rightarrow> changelog_entry list \<Rightarrow> fview list option" where
  "vreplay v [] = Some v"
| "vreplay v (FLOCK i s w c # es) =
     (if c = CHR ''U'' then
        (if v = [] then None else vreplay (filter (\<lambda>x. \<not> (fst x = s \<and> fst (snd x) = w)) v) es)
      else (case flock_mr_type c of
              None \<Rightarrow> None
            | Some t \<Rightarrow>
                if v \<noteq> [] \<and> (snd (snd (hd v)) = LTYPE_WRITER \<or> t = LTYPE_WRITER) then None
                else vreplay ((s, w, t) # v) es))"
| "vreplay v (e # es) = vreplay v es"

lemma vreplay_append: "vreplay v (xs @ ys) = Option.bind (vreplay v xs) (\<lambda>v'. vreplay v' ys)"
  by (induction v xs rule: vreplay.induct) (auto split: option.splits)

lemma vreplay_lock:
  assumes "l_ltype l \<in> {LTYPE_READER, LTYPE_WRITER}"
    and "act = [] \<or> (freaders act \<and> l_ltype l = LTYPE_READER)"
  shows "vreplay (fviews act) (FLOCK i (l_sessionid l) (l_owner l) (flock_type_char l) # es) =
    vreplay (flock_view l # fviews act) es"
  using assms
  by (cases act) (auto simp: flock_type_char_def flock_mr_type_def flock_view_def)

lemma view_filter:
  "filter (\<lambda>x. \<not> (fst x = s \<and> fst (snd x) = w)) (fviews ls) = fviews (filter (\<lambda>l. \<not> flock_mine s w l) ls)"
  by (induction ls) (auto simp: flock_view_def flock_mine_def)

lemma vreplay_unlock:
  "ls \<noteq> [] \<Longrightarrow> vreplay (fviews ls) (FLOCK i s w (CHR ''U'') # es) =
     vreplay (fviews (filter (\<lambda>l. \<not> flock_mine s w l) ls)) es"
  unfolding vreplay.simps view_filter by simp

declare vreplay.simps(2) [simp del]

lemma changelog_wake [simp]: "changelog_of (concat (map (flock_wake_up l st) is)) = []"
  by (induction "is") (auto simp: flock_wake_up_def split: option.splits)

lemma changelog_activate [simp]:
  "changelog_of (snd (flock_activate il l)) =
     [FLOCK (f_inode il) (l_sessionid l) (l_owner l) (flock_type_char l)]"
  by (simp add: flock_activate_def flock_lock_wake_up_all_def flock_lock_inode_attach_def flock_type_char_def)

subsection \<open>Every step of a command is logged\<close>

text \<open>No owner has two locks on a file, active or waiting.\<close>

definition fkeys_ok :: "finodelocks \<Rightarrow> bool" where
  "fkeys_ok il \<longleftrightarrow> distinct (map fkey (f_active il @ f_waiting il))"

definition logged :: "finodelocks \<Rightarrow> out_event list \<Rightarrow> finodelocks \<Rightarrow> bool" where
  "logged il ev il' \<longleftrightarrow>
     vreplay (fviews (f_active il)) (changelog_of ev) = Some (fviews (f_active il')) \<and> fkeys_ok il'"

lemma logged_trans: "logged il ev1 il1 \<Longrightarrow> logged il1 ev2 il2 \<Longrightarrow> logged il (ev1 @ ev2) il2"
  by (simp add: logged_def vreplay_append)

lemma activate_logged:
  assumes "fkeys_ok (il\<lparr>f_waiting := l # ws\<rparr>)" "fwait_ok l"
    and "f_active il = [] \<or> (freaders (f_active il) \<and> l_ltype l = LTYPE_READER)"
  shows "logged il (snd (flock_activate il l)) (fst (flock_activate (il\<lparr>f_waiting := ws\<rparr>) l))"
    "fkeys_ok ((fst (flock_activate il l))\<lparr>f_waiting := ws\<rparr>)"
  using assms vreplay_lock [of l "f_active il" "f_inode il" "[]"]
  by (auto simp: logged_def fwait_ok_def fkeys_ok_def fkey_def flock_view_def)

lemma grant_linux_logged:
  assumes "flock_grant_linux il ls = (il', ws, ev)" "fkeys_ok (il\<lparr>f_waiting := ps @ ls\<rparr>)"
    and "freaders (f_active il)" "fwaiting_ok ls"
  shows "vreplay (fviews (f_active il)) (changelog_of ev) = Some (fviews (f_active il')) \<and>
    fkeys_ok (il'\<lparr>f_waiting := ps @ ws\<rparr>)"
  using assms
proof (induction il ls arbitrary: il' ws ev ps rule: flock_grant_linux.induct)
  case (1 il)
  then show ?case by simp
next
  case (2 il l ls)
  show ?case
  proof (cases "l_ltype l = LTYPE_READER")
    case True
    obtain ev2 where g: "flock_grant_linux (fst (flock_activate il l)) ls = (il', ws, ev2)"
      and ev: "ev = snd (flock_activate il l) @ ev2"
      using "2.prems"(1) True by (auto split: prod.splits)
    have "vreplay (fviews (f_active (fst (flock_activate il l)))) (changelog_of ev2) = Some (fviews (f_active il')) \<and>
        fkeys_ok (il'\<lparr>f_waiting := ps @ ws\<rparr>)"
      using "2.IH"(1) [OF True prod.collapse refl g, of ps] "2.prems" True
      by (auto simp: fkeys_ok_def)
    with ev vreplay_lock [of l "f_active il" "f_inode il" "changelog_of ev2"] "2.prems" True show ?thesis
      by (simp add: fwait_ok_def)
  next
    case False
    obtain ws2 where g: "flock_grant_linux il ls = (il', ws2, ev)" "ws = l # ws2"
      using "2.prems"(1) False by (auto split: prod.splits)
    with "2.IH"(2) [OF False g(1), of "ps @ [l]"] "2.prems" show ?thesis by simp
  qed
qed

lemma grant_prefix_logged:
  assumes "flock_grant_prefix il ls = (il', ws, ev)" "fkeys_ok (il\<lparr>f_waiting := ls\<rparr>)"
    and "freaders (f_active il)" "fwaiting_ok ls"
  shows "vreplay (fviews (f_active il)) (changelog_of ev) = Some (fviews (f_active il')) \<and>
    fkeys_ok (il'\<lparr>f_waiting := ws\<rparr>)"
  using assms
proof (induction il ls arbitrary: il' ws ev rule: flock_grant_prefix.induct)
  case (1 il)
  then show ?case by simp
next
  case (2 il l ls)
  show ?case
  proof (cases "l_ltype l = LTYPE_READER")
    case True
    obtain ev2 where g: "flock_grant_prefix (fst (flock_activate il l)) ls = (il', ws, ev2)"
      and ev: "ev = snd (flock_activate il l) @ ev2"
      using "2.prems"(1) True by (auto split: prod.splits)
    have "vreplay (fviews (f_active (fst (flock_activate il l)))) (changelog_of ev2) = Some (fviews (f_active il')) \<and>
        fkeys_ok (il'\<lparr>f_waiting := ws\<rparr>)"
      using "2.IH" [OF True prod.collapse refl g] "2.prems" True by (auto simp: fkeys_ok_def)
    with ev vreplay_lock [of l "f_active il" "f_inode il" "changelog_of ev2"] "2.prems" True show ?thesis
      by (simp add: fwait_ok_def)
  next
    case False
    with 2 show ?thesis by auto
  qed
qed

lemma check_waiting_logged:
  assumes "fil_struct il" "fkeys_ok il" "flock_lock_check_waiting mode il = (il', ev)"
  shows "logged il ev il'"
proof (cases "f_waiting il")
  case Nil
  with assms show ?thesis by (auto simp: flock_lock_check_waiting_def logged_def)
next
  case (Cons l ls)
  have ok: "factive_ok (f_active il)" "fwait_ok l" "fwaiting_ok (f_waiting il)"
    using assms(1) Cons by (auto simp: fil_struct_def)
  show ?thesis
  proof (cases "f_active il = [] \<or> l_ltype (hd (f_active il)) = LTYPE_READER")
    case False
    with assms Cons show ?thesis by (auto simp: flock_lock_check_waiting_def logged_def Let_def)
  next
    case readers: True
    show ?thesis
    proof (cases "f_active il = [] \<and> l_ltype l = LTYPE_WRITER")
      case True
      have "flock_activate (il\<lparr>f_waiting := ls\<rparr>) l = (il', ev)"
        using assms(3) Cons True by (auto simp: flock_lock_check_waiting_def split_def Let_def)
      then have "il' = fst (flock_activate (il\<lparr>f_waiting := ls\<rparr>) l)"
        "ev = snd (flock_activate (il\<lparr>f_waiting := ls\<rparr>) l)" by simp_all
      with True ok(2) assms(2) Cons vreplay_lock [of l "[]" "f_inode il" "[]"] show ?thesis
        by (simp add: logged_def fkeys_ok_def fkey_def flock_view_def)
    next
      case False
      obtain il2 ws ev2 where g: "(if mode = MODE_LINUX then flock_grant_linux else flock_grant_prefix)
          il (f_waiting il) = (il2, ws, ev2)" by (metis prod_cases3)
      then have eq: "il' = il2\<lparr>f_waiting := ws\<rparr>" "ev = ev2"
        using assms(3) Cons readers False
        by (auto simp: flock_lock_check_waiting_def Let_def split: if_splits)
      note r = factive_head [OF ok(1) readers]
      show ?thesis
        using g grant_linux_logged [of il "f_waiting il" il2 ws ev2 "[]", OF _ _ r ok(3)]
          grant_prefix_logged [of il "f_waiting il" il2 ws ev2, OF _ _ r ok(3)] assms(2)
        by (auto simp: logged_def eq split: if_splits)
    qed
  qed
qed

lemma filter_remove_first:
  assumes "distinct (map fkey ls)" "List.find (flock_mine s w) ls = Some l"
  shows "filter (\<lambda>l. \<not> flock_mine s w l) ls = remove_first (flock_mine s w) ls"
  using assms
proof (induction ls)
  case (Cons x xs)
  show ?case
  proof (cases "flock_mine s w x")
    case True
    then have "\<not> flock_mine s w y" if "y \<in> set xs" for y
      using Cons.prems(1) that by (auto simp: flock_mine_def fkey_def rev_image_eqI)
    with True show ?thesis by (simp add: filter_id_conv)
  next
    case False
    with Cons show ?thesis by simp
  qed
qed simp

text \<open>Granting moves locks but brings in nobody.\<close>

definition fkeys :: "finodelocks \<Rightarrow> flock_key set" where
  "fkeys il = fkey ` set (f_active il) \<union> fkey ` set (f_waiting il)"

lemma grant_linux_keys:
  "flock_grant_linux il ls = (il', ws, ev) \<Longrightarrow>
   fkey ` set (f_active il') \<union> fkey ` set ws = fkey ` set (f_active il) \<union> fkey ` set ls"
proof (induction il ls arbitrary: il' ws ev rule: flock_grant_linux.induct)
  case (2 il l ls)
  show ?case
  proof (cases "l_ltype l = LTYPE_READER")
    case True
    obtain ev2 where g: "flock_grant_linux (fst (flock_activate il l)) ls = (il', ws, ev2)"
      using "2.prems" True by (auto split: prod.splits)
    from "2.IH"(1) [OF True prod.collapse refl g] show ?thesis by auto
  next
    case False
    obtain ws2 where g: "flock_grant_linux il ls = (il', ws2, ev)" "ws = l # ws2"
      using "2.prems" False by (auto split: prod.splits)
    from "2.IH"(2) [OF False g(1)] g(2) show ?thesis by simp
  qed
qed simp

lemma grant_prefix_keys:
  "flock_grant_prefix il ls = (il', ws, ev) \<Longrightarrow>
   fkey ` set (f_active il') \<union> fkey ` set ws = fkey ` set (f_active il) \<union> fkey ` set ls"
proof (induction il ls arbitrary: il' ws ev rule: flock_grant_prefix.induct)
  case (2 il l ls)
  show ?case
  proof (cases "l_ltype l = LTYPE_READER")
    case True
    obtain ev2 where g: "flock_grant_prefix (fst (flock_activate il l)) ls = (il', ws, ev2)"
      using "2.prems" True by (auto split: prod.splits)
    from "2.IH" [OF True prod.collapse refl g] show ?thesis by auto
  next
    case False
    with 2 show ?thesis by auto
  qed
qed simp

lemma check_waiting_keys: "fkeys (fst (flock_lock_check_waiting mode il)) = fkeys il"
proof (cases "f_waiting il")
  case (Cons l ls)
  obtain il2 ws ev where g: "(if mode = MODE_LINUX then flock_grant_linux else flock_grant_prefix)
      il (f_waiting il) = (il2, ws, ev)" by (metis prod_cases3)
  have keys: "fkeys (il2\<lparr>f_waiting := ws\<rparr>) = fkeys il"
    using g grant_linux_keys grant_prefix_keys by (auto simp: fkeys_def split: if_splits)
  have "fst (flock_lock_check_waiting mode il) \<in>
      {il, fst (flock_activate (il\<lparr>f_waiting := ls\<rparr>) l), il2\<lparr>f_waiting := ws\<rparr>}"
    using Cons g by (auto simp: flock_lock_check_waiting_def Let_def split_def)
  moreover have "fkeys (fst (flock_activate (il\<lparr>f_waiting := ls\<rparr>) l)) = fkeys il"
    using Cons by (simp add: fkeys_def)
  ultimately show ?thesis using keys by auto
qed (simp add: flock_lock_check_waiting_def)

lemma unlock_keys:
  "fkeys (fst (flock_lock_unlock mode il rest l)) = fkeys (il\<lparr>f_active := rest\<rparr>)"
  by (simp add: flock_lock_unlock_def Let_def split_def check_waiting_keys)

lemma unlock_logged:
  assumes "fil_struct il" "fkeys_ok il" "List.find (flock_mine s w) (f_active il) = Some l"
    and u: "flock_lock_unlock mode il (remove_first (flock_mine s w) (f_active il)) l = (il', ev)"
  shows "logged il ev il'" "FKey s w \<notin> fkeys il'"
proof -
  let ?il = "il\<lparr>f_active := remove_first (flock_mine s w) (f_active il)\<rparr>"
  have l: "l \<in> set (f_active il)" "flock_mine s w l" "f_active il \<noteq> []" "l_state l = STATE_ACTIVE"
    using find_mem [OF assms(3)] assms(1) by (auto simp: fil_struct_def factive_ok_def)
  have f: "remove_first (flock_mine s w) (f_active il) = filter (\<lambda>l. \<not> flock_mine s w l) (f_active il)"
    using filter_remove_first [OF _ assms(3)] assms(2) by (simp add: fkeys_ok_def)
  have keys: "fkeys_ok ?il" "FKey s w \<notin> fkeys ?il"
    using assms(2) l unfolding f by (auto simp: fkeys_ok_def fkeys_def mine_fkey distinct_map_filter)
  have log: "logged il (flock_lock_remove_log (f_inode il) l) ?il"
    using l keys(1) vreplay_unlock [OF l(3), of "f_inode il" s w "[]"]
    unfolding logged_def f by (simp add: flock_lock_remove_log_def flock_mine_def)
  have st: "fil_struct ?il" using assms(1,3) factive_ok_remove_first by (auto simp: fil_struct_def)
  obtain il2 ev2 where c: "flock_lock_check_waiting mode ?il = (il2, ev2)" by fastforce
  show "logged il ev il'"
    using u c log logged_trans [OF log check_waiting_logged [OF st keys(1) c]]
    by (auto simp: flock_lock_unlock_def Let_def split: if_splits)
  show "FKey s w \<notin> fkeys il'"
    using unlock_keys [of mode il "remove_first (flock_mine s w) (f_active il)" l] u keys(2) by simp
qed

lemma lock_new_logged:
  assumes "fil_struct il" "fkeys_ok il" "FKey ses own \<notin> fkeys il" "ltype \<in> {LTYPE_READER, LTYPE_WRITER}"
    and n: "flock_lock_new mode il ltype conn ses msgid reqid own = (st, il', ev)"
  shows "logged il ev il'"
proof (cases "flock_check mode il ltype")
  case True
  then obtain l where "il' = il\<lparr>f_waiting := f_waiting il @ [l]\<rparr>" "ev = []" "fkey l = FKey ses own"
    using n by (auto simp: flock_lock_new_def flock_lock_inode_attach_def flock_do_lock_inode_attach_def Let_def)
  with assms(2,3) show ?thesis by (simp add: logged_def fkeys_ok_def fkeys_def)
next
  case False
  let ?l = "\<lparr>l_owner = own, l_connptr = Some conn, l_sessionid = ses,
      l_state = STATE_ACTIVE, l_ltype = ltype, l_instances = []\<rparr>"
  have "f_active il = [] \<or> freaders (f_active il) \<and> ltype = LTYPE_READER"
    using False assms(1,4) factive_not_writer [of "f_active il"]
    by (auto simp: flock_check_def fil_struct_def split: if_splits)
  then have "vreplay (fviews (f_active il)) [FLOCK (f_inode il) ses own (flock_type_char ?l)] =
      Some (flock_view ?l # fviews (f_active il))"
    using vreplay_lock [of ?l "f_active il" "f_inode il" "[]"] assms(4) by simp
  moreover have "il' = il\<lparr>f_active := ?l # f_active il\<rparr>"
    "ev = [Changelog (FLOCK (f_inode il) ses own (flock_type_char ?l))]"
    using n False by (auto simp: flock_lock_new_def flock_lock_inode_attach_def
        flock_do_lock_inode_attach_def Let_def)
  ultimately show ?thesis using assms(2,3) by (simp add: logged_def fkeys_ok_def fkeys_def)
qed

text \<open>The two conversions that are not logged.\<close>

definition silent_conversion :: "finodelocks \<Rightarrow> u32 \<Rightarrow> u64 \<Rightarrow> u8 \<Rightarrow> bool" where
  "silent_conversion il ses own op \<longleftrightarrow>
     (\<exists>l. List.find (flock_mine ses own) (f_active il) = Some l \<and>
       ((op = FLOCK_TRY_SHARED \<and> l_ltype l \<noteq> LTYPE_READER) \<or>
        (op = FLOCK_TRY_EXCLUSIVE \<and> l_ltype l \<noteq> LTYPE_WRITER \<and> tl (f_active il) = [])))"

lemma cmd_active_logged:
  assumes il: "fil_struct il" "fkeys_ok il" and l: "List.find (flock_mine ses own) (f_active il) = Some l"
    and ns: "\<not> silent_conversion il ses own op"
    and r: "flock_cmd_active mode il l conn ses msgid reqid own op = (st, il', ev)"
  shows "logged il ev il'"
proof -
  obtain u ev1 where u: "flock_lock_unlock mode il (remove_first (flock_mine ses own) (f_active il)) l = (u, ev1)"
    by fastforce
  note ul = unlock_logged [OF il l u]
  have us: "fil_struct u" "fkeys_ok u"
    using unlock_fine [OF _ _ u] il(1) factive_ok_remove_first [OF _ l] ul(1)
    by (auto simp: fil_struct_def logged_def)
  obtain stR ilR evR stW ilW evW where
    n: "flock_lock_new mode u LTYPE_READER conn ses msgid reqid own = (stR, ilR, evR)"
       "flock_lock_new mode u LTYPE_WRITER conn ses msgid reqid own = (stW, ilW, evW)"
    by (metis prod_cases3)
  note relock = logged_trans [OF ul(1) lock_new_logged [OF us ul(2) _ n(1)]]
    logged_trans [OF ul(1) lock_new_logged [OF us ul(2) _ n(2)]]
  have id: "logged il [] il" using il(2) by (simp add: logged_def)
  show ?thesis
    using r ns l relock ul(1) id
    unfolding flock_cmd_active_def silent_conversion_def Let_def u n prod.case
    by (auto split: if_splits)
qed

lemma chain_upd_fkeys:
  "(\<And>l. l \<in> set ls \<Longrightarrow> p l \<Longrightarrow> fkey (f l) = fkey l) \<Longrightarrow> map fkey (chain_upd p f ls) = map fkey ls"
  by (induction ls) auto

lemma distinct_remove_first: "distinct (map f xs) \<Longrightarrow> distinct (map f (remove_first p xs))"
  by (induction xs) (use remove_first_subset in fastforce)+

lemma cmd_waiting_logged:
  assumes il: "fil_struct il" "fkeys_ok il"
    and l: "List.find (flock_wmine conn ses own) (f_waiting il) = Some l"
    and r: "flock_cmd_waiting mode il l conn ses msgid reqid own op = (st, il', ev)"
  shows "logged il ev il'"
proof -
  have m: "l \<in> set (f_waiting il)" "flock_wmine conn ses own l" using find_mem [OF l] by auto
  then have w: "l_state l = STATE_WAITING" using il(1) by (auto simp: fil_struct_def fwaiting_ok_def fwait_ok_def)
  have rm: "fkeys_ok (il\<lparr>f_waiting := remove_first (flock_wmine conn ses own) (f_waiting il)\<rparr>)"
    using il(2) distinct_remove_first [of fkey "f_waiting il"] remove_first_subset
    by (fastforce simp: fkeys_ok_def)
  have ch: "fkeys_ok (il\<lparr>f_waiting := chain_upd (flock_wmine conn ses own) (\<lambda>_. l') (f_waiting il)\<rparr>)"
    if "fkey l' = FKey ses own" for l'
  proof -
    have "map fkey (chain_upd (flock_wmine conn ses own) (\<lambda>_. l') (f_waiting il)) = map fkey (f_waiting il)"
      using that by (intro chain_upd_fkeys) (auto simp: flock_wmine_def fkey_def)
    then show ?thesis using il(2) by (simp add: fkeys_ok_def flip: set_map)
  qed
  note ch = ch [of "flock_lock_append_req l msgid reqid"]
    ch [of "flock_lock_append_req (l\<lparr>l_instances := [], l_ltype := LTYPE_READER\<rparr>) msgid reqid"]
    ch [of "flock_lock_append_req (l\<lparr>l_instances := [], l_ltype := LTYPE_WRITER\<rparr>) msgid reqid"]
  show ?thesis
    using r il(2) rm ch m(2) w
    unfolding flock_cmd_waiting_def flock_lock_wake_up_all_def Let_def prod.case
    by (auto simp: logged_def flock_lock_remove_log_def flock_wmine_def fkey_def split: if_splits)
qed

lemma interrupt_logged:
  "flock_interrupt ws conn ses own reqid = (ws', ev) \<Longrightarrow>
   changelog_of ev = [] \<and> fkey ` set ws' \<subseteq> fkey ` set ws \<and>
   (distinct (map fkey ws) \<longrightarrow> distinct (map fkey ws'))"
proof (induction ws arbitrary: ws' ev)
  case (Cons l ls)
  obtain ls' ev2 where i: "flock_interrupt ls conn ses own reqid = (ls', ev2)" by fastforce
  note IH = Cons.IH [OF this]
  then have sub: "fkey ` set ls' \<subseteq> insert (fkey l) (fkey ` set ls)"
    "fkey l \<notin> fkey ` set ls \<Longrightarrow> fkey l \<notin> fkey ` set ls'" by blast+
  have "ws' = ls' \<or> (\<exists>l'. fkey l' = fkey l \<and> ws' = l' # ls')" "changelog_of ev = []"
    using IH Cons.prems i by (auto simp: Let_def flock_lock_wake_up_one_def split: if_splits)
  then show ?case using IH sub by (elim disjE exE conjE) simp_all
qed simp

text \<open>The owner does not wait on another connection.\<close>

definition one_conn :: "finodelocks \<Rightarrow> connptr \<Rightarrow> u32 \<Rightarrow> u64 \<Rightarrow> bool" where
  "one_conn il conn ses own \<longleftrightarrow> (\<forall>l \<in> set (f_waiting il). flock_mine ses own l \<longrightarrow> l_connptr l = Some conn)"

lemma cmd_il_logged:
  assumes il: "fil_struct il" "fkeys_ok il" "one_conn il conn ses own"
    and ns: "\<not> silent_conversion il ses own op"
    and r: "flock_cmd_il mode il conn ses msgid reqid own op = (st, il', ev)"
  shows "logged il ev il'"
proof (cases "op = FLOCK_INTERRUPT")
  case True
  obtain ws' ev' where i: "flock_interrupt (f_waiting il) conn ses own reqid = (ws', ev')" by fastforce
  note il' = interrupt_logged [OF i]
  then have "fkey ` set (f_active il) \<inter> fkey ` set ws' = {}" using il(2) by (auto simp: fkeys_ok_def)
  moreover have "il' = il\<lparr>f_waiting := ws'\<rparr>" "ev = ev'" using True r i by (auto simp: flock_cmd_il_def)
  ultimately show ?thesis using il' il(2) by (simp add: logged_def fkeys_ok_def)
next
  case op: False
  show ?thesis
  proof (cases "List.find (flock_mine ses own) (f_active il)")
    case (Some l)
    with cmd_active_logged [OF il(1,2) Some ns] r op show ?thesis by (simp add: flock_cmd_il_def)
  next
    case act: None
    show ?thesis
    proof (cases "List.find (flock_wmine conn ses own) (f_waiting il)")
      case (Some l)
      with cmd_waiting_logged [OF il(1,2) Some] r op act show ?thesis by (simp add: flock_cmd_il_def)
    next
      case None
      have "FKey ses own \<notin> fkeys il"
        using act None il(3) unfolding find_None_iff fkeys_def one_conn_def
        by (force simp: flock_mine_def flock_wmine_def fkey_def)
      then show ?thesis
        using r op act None il(2) lock_new_logged [OF il(1,2), of ses own LTYPE_READER mode conn msgid reqid]
          lock_new_logged [OF il(1,2), of ses own LTYPE_WRITER mode conn msgid reqid]
        by (auto simp: flock_cmd_il_def flock_cmd_new_def Let_def logged_def split: if_splits)
    qed
  qed
qed

subsection \<open>Replay on a replica\<close>

fun flock_replay :: "ftable \<Rightarrow> changelog_entry list \<Rightarrow> u8 \<times> ftable" where
  "flock_replay tab [] = (MFS_STATUS_OK, tab)"
| "flock_replay tab (FLOCK inode ses own cmd # es) =
     (let (st, tab', ev) = flock_mr_change tab inode ses own cmd
      in if st = MFS_STATUS_OK then flock_replay tab' es else (st, tab'))"
| "flock_replay tab (e # es) = flock_replay tab es"

text \<open>A replica has the same active locks (owner and type), and nothing waits there.\<close>

definition freplica :: "(u32 \<Rightarrow> fview list) \<Rightarrow> ftable \<Rightarrow> bool" where
  "freplica views rep \<longleftrightarrow> ftable_ok rep \<and> ftable_quiet rep \<and> (\<forall>k. fviews (factive_of rep k) = views k)"

fun lines_of :: "u32 \<Rightarrow> changelog_entry list \<Rightarrow> bool" where
  "lines_of inode [] = True"
| "lines_of inode (FLOCK i s w c # es) = (i = inode \<and> c \<noteq> CHR ''u'' \<and> lines_of inode es)"
| "lines_of inode (e # es) = lines_of inode es"

lemma hd_views: "ls \<noteq> [] \<Longrightarrow> snd (snd (hd (fviews ls))) = l_ltype (hd ls)"
  by (cases ls) (auto simp: flock_view_def)

lemma flock_replay_views:
  assumes "freplica views rep" "lines_of inode es" "vreplay (views inode) es = Some v"
  shows "\<exists>rep'. flock_replay rep es = (MFS_STATUS_OK, rep') \<and> freplica (views(inode := v)) rep'"
  using assms
proof (induction es arbitrary: rep views)
  case Nil
  then show ?case by (auto simp: fun_upd_idem)
next
  case (Cons e es)
  show ?case
  proof (cases "\<exists>i s w c. e = FLOCK i s w c")
    case False
    with Cons show ?thesis by (cases e) auto
  next
    case True
    then obtain s w c where e: "e = FLOCK inode s w c" "c \<noteq> CHR ''u''" using Cons.prems(2) by auto
    have rep: "ftable_ok rep" "ftable_quiet rep" "\<And>k. views k = fviews (factive_of rep k)"
      using Cons.prems(1) by (auto simp: freplica_def)
    obtain st rep1 ev where m: "flock_mr_change rep inode s w c = (st, rep1, ev)" by (metis prod_cases3)
    let ?v = "if c = CHR ''U'' then filter (\<lambda>x. \<not> (fst x = s \<and> fst (snd x) = w)) (views inode)
      else (s, w, the (flock_mr_type c)) # views inode"
    have step: "st = MFS_STATUS_OK \<and> freplica (views(inode := ?v)) rep1 \<and> vreplay ?v es = Some v"
    proof (cases "c = CHR ''U''")
      case True
      with Cons.prems(3) e have ne: "factive_of rep inode \<noteq> []"
        by (auto simp: vreplay.simps(2) rep(3) split: if_splits)
      with flock_mr_unlock [OF rep(1,2) ne m [unfolded True]] Cons.prems(3) e True rep(3)
      show ?thesis by (auto simp: vreplay.simps(2) freplica_def view_filter [simplified])
    next
      case False
      with Cons.prems(3) e obtain t where t: "flock_mr_type c = Some t"
        by (auto simp: vreplay.simps(2) split: option.splits)
      with Cons.prems(3) e False have free: "factive_of rep inode = [] \<or>
          (l_ltype (hd (factive_of rep inode)) \<noteq> LTYPE_WRITER \<and> t \<noteq> LTYPE_WRITER)"
        by (auto simp: vreplay.simps(2) rep(3) hd_views split: if_splits)
      with flock_mr_lock [OF rep(1,2) t False free m] Cons.prems(3) e False rep(3) t
      show ?thesis
        by (auto simp: vreplay.simps(2) freplica_def flock_view_def flock_replayed_def split: if_splits)
    qed
    have "\<exists>rep'. flock_replay rep1 es = (MFS_STATUS_OK, rep') \<and> freplica ((views(inode := ?v))(inode := v)) rep'"
    proof (rule Cons.IH)
      show "freplica (views(inode := ?v)) rep1" using step by blast
      show "vreplay ((views(inode := ?v)) inode) es = Some v" using step unfolding fun_upd_same by blast
      show "lines_of inode es" using Cons.prems(2) e(1) by simp
    qed
    then obtain rep' where rep': "flock_replay rep1 es = (MFS_STATUS_OK, rep')" "freplica (views(inode := v)) rep'"
      unfolding fun_upd_upd by blast
    have "flock_replay rep (e # es) = (MFS_STATUS_OK, rep')" using step m e(1) rep'(1) by simp
    with rep'(2) show ?thesis by blast
  qed
qed

subsection \<open>The lines name the inode of the command\<close>

lemma lines_of_append [simp]: "lines_of inode (xs @ ys) \<longleftrightarrow> lines_of inode xs \<and> lines_of inode ys"
  by (induction inode xs rule: lines_of.induct) auto

lemma flock_type_char_U [simp]: "flock_type_char l \<noteq> CHR ''u''"
  by (simp add: flock_type_char_def)

lemma lines_remove_log [simp]: "lines_of inode (changelog_of (flock_lock_remove_log inode l))"
  by (simp add: flock_lock_remove_log_def)

lemma grant_lines:
  "f_inode il = i \<Longrightarrow> lines_of i (changelog_of (snd (snd (flock_grant_linux il ls))))"
  "f_inode il = i \<Longrightarrow> lines_of i (changelog_of (snd (snd (flock_grant_prefix il ls))))"
  by (induction ls arbitrary: il) (auto simp: Let_def split_def)

lemma check_waiting_lines:
  "f_inode il = i \<Longrightarrow> lines_of i (changelog_of (snd (flock_lock_check_waiting mode il)))"
  by (cases "f_waiting il")
    (simp_all add: flock_lock_check_waiting_def Let_def split_def grant_lines)

lemma unlock_lines: "lines_of (f_inode il) (changelog_of (snd (flock_lock_unlock mode il rest l)))"
  by (simp add: flock_lock_unlock_def Let_def split_def check_waiting_lines)

lemma lock_new_lines:
  "lines_of (f_inode il) (changelog_of (snd (snd (flock_lock_new mode il t conn ses msgid reqid own))))"
  by (simp add: flock_lock_new_def flock_lock_inode_attach_def Let_def)

lemma unlock_inode:
  assumes "fil_struct il" "List.find (flock_mine ses own) (f_active il) = Some l"
  shows "f_inode (fst (flock_lock_unlock mode il (remove_first (flock_mine ses own) (f_active il)) l)) = f_inode il"
proof -
  have "fwaiting_ok (f_waiting il)" "factive_ok (remove_first (flock_mine ses own) (f_active il))"
    using assms factive_ok_remove_first by (auto simp: fil_struct_def)
  from unlock_fine [OF this prod.collapse [symmetric]] show ?thesis by blast
qed

lemma cmd_il_lines:
  assumes "fil_struct il"
  shows "lines_of (f_inode il) (changelog_of (snd (snd (flock_cmd_il mode il conn ses msgid reqid own op))))"
proof -
  have int: "changelog_of (snd (flock_interrupt (f_waiting il) conn ses own reqid)) = []"
    using interrupt_logged [of "f_waiting il" conn ses own reqid] by (cases "flock_interrupt (f_waiting il) conn ses own reqid") auto
  have act: "lines_of (f_inode il) (changelog_of (snd (snd (flock_cmd_active mode il l conn ses msgid reqid own op))))"
    if "List.find (flock_mine ses own) (f_active il) = Some l" for l
  proof -
    let ?u = "flock_lock_unlock mode il (remove_first (flock_mine ses own) (f_active il)) l"
    have u: "f_inode (fst ?u) = f_inode il" using unlock_inode [OF assms that] .
    have "lines_of (f_inode il) (changelog_of (snd ?u))" by (rule unlock_lines)
    moreover have "lines_of (f_inode il) (changelog_of (snd (snd (flock_lock_new mode (fst ?u) t conn ses msgid reqid own))))" for t
      using lock_new_lines [of "fst ?u" mode t conn ses msgid reqid own] u by simp
    ultimately show ?thesis
      by (simp add: flock_cmd_active_def Let_def split_def check_waiting_lines)
  qed
  have "changelog_of (snd (snd (flock_cmd_waiting mode il l conn ses msgid reqid own op))) = [] \<or>
      changelog_of (snd (snd (flock_cmd_waiting mode il l conn ses msgid reqid own op))) =
        changelog_of (flock_lock_remove_log (f_inode il) l)" for l
    by (simp add: flock_cmd_waiting_def flock_lock_wake_up_all_def Let_def)
  then have wait: "lines_of (f_inode il) (changelog_of (snd (snd (flock_cmd_waiting mode il l conn ses msgid reqid own op))))" for l
    by (metis lines_of.simps(1) lines_remove_log)
  have new: "lines_of (f_inode il) (changelog_of (snd (snd (flock_cmd_new mode il conn ses msgid reqid own op))))"
    by (simp add: flock_cmd_new_def Let_def lock_new_lines)
  show ?thesis
  proof (cases "op = FLOCK_INTERRUPT")
    case True
    then show ?thesis by (simp add: flock_cmd_il_def int Let_def split_def)
  next
    case False
    note op = this
    show ?thesis
    proof (cases "List.find (flock_mine ses own) (f_active il)")
      case (Some l)
      with op act [OF Some] show ?thesis by (simp add: flock_cmd_il_def)
    next
      case None
      with op wait new show ?thesis
        by (cases "List.find (flock_wmine conn ses own) (f_waiting il)") (simp_all add: flock_cmd_il_def)
    qed
  qed
qed

subsection \<open>Closed files are logged\<close>

lemma fkeys_ok_filter: "fkeys_ok il \<Longrightarrow> fkeys_ok (il\<lparr>f_waiting := filter p (f_waiting il)\<rparr>)"
  by (auto simp: fkeys_ok_def distinct_map_filter dest: disjoint_iff [THEN iffD1])

lemma logged_head:
  assumes "f_active il = kept @ l # ls" "fkeys_ok il"
  shows "List.find (flock_mine (l_sessionid l) (l_owner l)) (f_active il) = Some l"
    "remove_first (flock_mine (l_sessionid l) (l_owner l)) (f_active il) = kept @ ls"
proof -
  have "\<not> flock_mine (l_sessionid l) (l_owner l) x" if "x \<in> set kept" for x
    using assms imageI [OF that, of fkey] by (auto simp: fkeys_ok_def mine_fkey simp flip: fkey_def)
  then show "List.find (flock_mine (l_sessionid l) (l_owner l)) (f_active il) = Some l"
    "remove_first (flock_mine (l_sessionid l) (l_owner l)) (f_active il) = kept @ ls"
    unfolding assms(1) by (induction kept) (auto simp: flock_mine_def)
qed

lemma close_active_logged:
  assumes "f_active il = kept @ ls" "kept @ ls \<noteq> []" "fil_struct il" "fkeys_ok il"
    and "flock_close_active mode ses il kept ls = (il', ev)"
  shows "logged il ev il' \<and> lines_of (f_inode il) (changelog_of ev)"
  using assms
proof (induction mode ses il kept ls arbitrary: il' ev rule: flock_close_active.induct)
  case (1 mode ses il kept)
  then have "il' = il" "ev = []" by auto
  with 1 show ?case by (simp add: logged_def)
next
  case (2 mode ses il kept l ls)
  show ?case
  proof (cases "l_sessionid l = ses")
    case False
    with 2 show ?thesis by simp
  next
    case True
    obtain u ev1 where u: "flock_lock_unlock mode il (kept @ ls) l = (u, ev1)" by fastforce
    note h = logged_head [OF "2.prems"(1,4)]
    have log: "logged il ev1 u"
      using unlock_logged(1) [OF "2.prems"(3,4) h(1)] u unfolding h(2) by blast
    have lines: "lines_of (f_inode il) (changelog_of ev1)"
      using unlock_lines [of il mode "kept @ ls" l] u by simp
    show ?thesis
    proof (cases "kept @ ls = []")
      case True
      with \<open>l_sessionid l = ses\<close> u log lines "2.prems"(5) show ?thesis by auto
    next
      case False
      obtain ev2 where g: "flock_close_active mode ses u kept ls = (il', ev2)" "ev = ev1 @ ev2"
        using "2.prems"(5) u True False by (auto split: prod.splits)
      have "fwaiting_ok (f_waiting il)" "factive_ok (kept @ ls)"
        using "2.prems"(1,3) factive_ok_delete [of kept l ls] by (auto simp: fil_struct_def)
      note uf = unlock_fine [OF this u]
      have "f_active u = kept @ ls" "fil_struct u" using uf False by blast+
      from "2.IH"(1) [OF True u [symmetric] refl False this(1) False this(2) _ g(1)] log lines uf g(2)
      show ?thesis using logged_trans [of il ev1 u ev2 il'] by (auto simp: logged_def)
    qed
  qed
qed

lemma waiting_log_quiet:
  "fwaiting_ok ls \<Longrightarrow> concat (map (flock_lock_remove_log inode) (filter p ls)) = []"
  by (induction ls) (auto simp: fwait_ok_def flock_lock_remove_log_def)

subsection \<open>One step of the live table and its replica\<close>

text \<open>A step on one record: what it logs takes a replica of the old table to a replica of the new one.\<close>

definition followed :: "ftable \<Rightarrow> changelog_entry list \<Rightarrow> ftable \<Rightarrow> bool" where
  "followed tab es tab' \<longleftrightarrow> ftable_ok tab' \<and> fd.all_recs fkeys_ok tab' \<and>
     (\<forall>rep. freplica (\<lambda>k. fviews (factive_of tab k)) rep \<longrightarrow>
       (\<exists>rep'. flock_replay rep es = (MFS_STATUS_OK, rep') \<and>
         freplica (\<lambda>k. fviews (factive_of tab' k)) rep'))"

lemma followed_record:
  assumes "ftable_ok tab'" "fd.all_recs fkeys_ok tab" "lines_of inode es"
    and v: "vreplay (fviews (factive_of tab inode)) es = Some (fviews (factive_of tab' inode))"
    and il': "\<And>il. flock_inode_find tab' inode = Some il \<Longrightarrow> fkeys_ok il"
    and other: "\<And>k. k \<noteq> inode \<Longrightarrow> flock_inode_find tab' k = flock_inode_find tab k"
  shows "followed tab es tab'"
proof -
  have keys: "fkeys_ok il" if "flock_inode_find tab' k = Some il" for k il
    using that il' other [of k] assms(2) by (cases "k = inode") (auto simp: fd.all_recs_def)
  have "(\<lambda>k. fviews (factive_of tab k))(inode := fviews (factive_of tab' inode)) =
      (\<lambda>k. fviews (factive_of tab' k))"
    by (intro ext) (simp add: factive_of_def other)
  then show ?thesis
    using keys assms(1) flock_replay_views [of "\<lambda>k. fviews (factive_of tab k)" _ inode es, OF _ assms(3) v]
    by (auto simp: followed_def fd.all_recs_def)
qed

lemma flock_cmd_followed:
  assumes tab: "ftable_ok tab" "fd.all_recs fkeys_ok tab"
    and il: "\<forall>il. flock_inode_find tab inode = Some il \<longrightarrow>
      one_conn il conn ses own \<and> \<not> silent_conversion il ses own op"
    and r: "flock_locks_cmd mode chk tab conn ses msgid reqid inode own op = (st, tab', ev)"
  shows "followed tab (changelog_of ev) tab'"
proof (cases "(op = FLOCK_INTERRUPT \<or> op = FLOCK_RELEASE \<or> chk ses inode) \<and>
    (flock_inode_find tab inode \<noteq> None \<or> \<not> (op = FLOCK_UNLOCK \<or> op = FLOCK_INTERRUPT \<or> op = FLOCK_RELEASE))")
  case False
  with r tab show ?thesis by (auto simp: flock_locks_cmd_def followed_def split: if_splits)
next
  case True
  obtain tab1 il1 where g: "flock_inode_get tab inode = (tab1, il1)" by fastforce
  obtain st1 il2 ev1 where c: "flock_cmd_il mode il1 conn ses msgid reqid own op = (st1, il2, ev1)"
    by (metis prod_cases3)
  note gok = flock_inode_get_ok [OF tab(1) g] and run = flock_locks_cmd_run [OF tab(1) g c refl, of chk]
  have il1: "fil_struct il1" "fkeys_ok il1" "one_conn il1 conn ses own" "\<not> silent_conversion il1 ses own op"
    "factive_of tab inode = f_active il1"
    using g gok(4) il tab(2)
    by (auto simp: flock_inode_get_def fil_ok_def fil_struct_def flock_inode_empty_def fkeys_ok_def
        one_conn_def silent_conversion_def factive_of_def fd.all_recs_def split: option.splits)
  have inode: "f_inode il2 = inode" using run(1) True gok(2) by (simp add: cmd_fine_def)
  have res: "ev = ev1" "flock_inode_find tab' k =
      (if k = inode then flock_inode_find tab' inode else flock_inode_find tab k)"
    "flock_inode_find tab' inode = Some il2 \<or> flock_inode_find tab' inode = None \<and> f_active il2 = []" for k
    using run True r gok find_put_back [of tab1 il2] inode by (auto split: if_splits)
  note log = cmd_il_logged [OF il1(1-4) c] and ok = flock_locks_cmd_ok [OF tab(1) r]
  show ?thesis
  proof (rule followed_record [where inode = inode])
    show "ftable_ok tab'" using ok ..
    show "fd.all_recs fkeys_ok tab" by (rule tab(2))
    show "lines_of inode (changelog_of ev)"
      using cmd_il_lines [OF il1(1), of mode conn ses msgid reqid own op] c res(1) gok(2) by simp
    show "vreplay (fviews (factive_of tab inode)) (changelog_of ev) = Some (fviews (factive_of tab' inode))"
      using log il1(5) res(1,3) by (auto simp: logged_def factive_of_def)
    show "fkeys_ok il" if "flock_inode_find tab' inode = Some il" for il
      using log that res(3) by (auto simp: logged_def)
    show "flock_inode_find tab' k = flock_inode_find tab k" if "k \<noteq> inode" for k using res(2) [of k] that by simp
  qed
qed

lemma flock_closed_followed:
  assumes tab: "ftable_ok tab" "fd.all_recs fkeys_ok tab"
    and r: "flock_file_closed mode tab ses inode = (tab', ev)"
  shows "followed tab (changelog_of ev) tab'"
proof (cases "flock_inode_find tab inode")
  case None
  with r tab show ?thesis by (auto simp: flock_file_closed_def followed_def)
next
  case (Some il)
  let ?il = "il\<lparr>f_waiting := filter (\<lambda>l. l_sessionid l \<noteq> ses) (f_waiting il)\<rparr>"
  note ok = ftable_okD [OF tab(1) Some]
  obtain il2 ev2 where c: "flock_close_active mode ses ?il [] (f_active ?il) = (il2, ev2)" by fastforce
  have il: "f_active ?il \<noteq> []" "fil_struct ?il" "fkeys_ok ?il"
    using ok fwaiting_ok_subset [of "f_waiting il"] fd.all_recsD [OF tab(2) Some]
    by (auto simp: fil_ok_def fil_struct_def fkeys_ok_filter)
  note log = close_active_logged [OF _ _ il(2,3) c]
  have fine: "cmd_fine ?il True il2 ev2"
    using close_active_fine [OF _ _ _ c] il by (auto simp: fil_struct_def)
  then have inode: "f_inode il2 = inode" using ok by (simp add: cmd_fine_def)
  have "ftable_but (f_inode ?il) tab" using ftable_but_old [OF tab(1)] ok Some by simp
  then have "snd (flock_put_back tab il2 True) = []" using flock_put_back_ok fine by blast
  moreover have "fwaiting_ok (f_waiting il)" using ok by (simp add: fil_ok_def fil_struct_def)
  ultimately have res: "ev = ev2" "tab' = fst (flock_put_back tab il2 True)"
    using r Some c waiting_log_quiet by (auto simp: flock_file_closed_def Let_def split_def)
  have find: "flock_inode_find tab' k = (if k = inode then (if f_waiting il2 = [] \<and> f_active il2 = [] then None
      else Some il2) else flock_inode_find tab k)" for k
    using find_put_back [of tab il2 True k] inode Some res(2) by simp
  show ?thesis
  proof (rule followed_record [where inode = inode])
    show "ftable_ok tab'" using flock_file_closed_ok [OF tab(1), of mode ses inode] r by simp
    show "fd.all_recs fkeys_ok tab" by (rule tab(2))
    show "lines_of inode (changelog_of ev)" using log il(1) ok res(1) by simp
    show "vreplay (fviews (factive_of tab inode)) (changelog_of ev) = Some (fviews (factive_of tab' inode))"
      using log il(1) res(1) Some find by (auto simp: logged_def factive_of_def)
    show "fkeys_ok il'" if "flock_inode_find tab' inode = Some il'" for il'
      using log il(1) that find by (auto simp: logged_def split: if_splits)
    show "flock_inode_find tab' k = flock_inode_find tab k" if "k \<noteq> inode" for k using find that by simp
  qed
qed

lemma flock_disconnected_followed:
  assumes "ftable_ok tab" "fd.all_recs fkeys_ok tab"
  shows "followed tab [] (flock_disconnected tab conn)"
proof -
  have "factive_of (flock_disconnected tab conn) k = factive_of tab k" for k
    by (auto simp: factive_of_def find_flock_disconnected split: option.split)
  then show ?thesis
    using assms flock_disconnected_ok [OF assms(1)]
    by (auto simp: followed_def fd.all_recs_def find_flock_disconnected fkeys_ok_filter)
qed

text \<open>
  The histories of the lock manager: commands in any mode, closed files and disconnections, from the
  empty table, with all lines they logged. A command is none of the two conversions without a line,
  and its owner does not wait on another connection.
\<close>

inductive flock_history :: "ftable \<Rightarrow> changelog_entry list \<Rightarrow> bool" where
  fhistory_init: "flock_history flock_init []"
| fhistory_cmd: "flock_history tab es \<Longrightarrow>
    \<forall>il. flock_inode_find tab inode = Some il \<longrightarrow>
      one_conn il conn ses own \<and> \<not> silent_conversion il ses own op \<Longrightarrow>
    flock_locks_cmd mode chk tab conn ses msgid reqid inode own op = (st, tab', ev) \<Longrightarrow>
    flock_history tab' (es @ changelog_of ev)"
| fhistory_closed: "flock_history tab es \<Longrightarrow> flock_file_closed mode tab ses inode = (tab', ev) \<Longrightarrow>
    flock_history tab' (es @ changelog_of ev)"
| fhistory_disconnected: "flock_history tab es \<Longrightarrow> flock_history (flock_disconnected tab conn) es"

lemma flock_replay_append:
  "flock_replay rep (xs @ ys) =
     (let (st, rep') = flock_replay rep xs in if st = MFS_STATUS_OK then flock_replay rep' ys else (st, rep'))"
  by (induction rep xs rule: flock_replay.induct) (auto simp: Let_def split: prod.splits)

lemma followed_init: "followed flock_init [] flock_init"
  using ftable_ok_init
  by (auto simp: followed_def fd.all_recs_def flock_init_def flock_inode_find_def)

lemma followed_trans: "followed tab es tab1 \<Longrightarrow> followed tab1 es' tab2 \<Longrightarrow> followed tab (es @ es') tab2"
  unfolding followed_def by (fastforce simp: flock_replay_append)

lemma fhistory_followed: "flock_history tab es \<Longrightarrow> followed flock_init es tab"
proof (induction rule: flock_history.induct)
  case (fhistory_cmd tab es inode conn ses own op mode chk msgid reqid st tab' ev)
  then have "ftable_ok tab" "fd.all_recs fkeys_ok tab" by (simp_all add: followed_def)
  from flock_cmd_followed [OF this fhistory_cmd(2,3)] fhistory_cmd(4) show ?case by (blast intro: followed_trans)
next
  case (fhistory_closed tab es mode ses inode tab' ev)
  then have "ftable_ok tab" "fd.all_recs fkeys_ok tab" by (simp_all add: followed_def)
  from flock_closed_followed [OF this fhistory_closed(2)] fhistory_closed(3)
  show ?case by (blast intro: followed_trans)
next
  case (fhistory_disconnected tab es conn)
  then have "ftable_ok tab" "fd.all_recs fkeys_ok tab" by (simp_all add: followed_def)
  from followed_trans [OF fhistory_disconnected(2) flock_disconnected_followed [OF this]] show ?case by simp
qed (rule followed_init)

lemma freplica_init: "freplica (\<lambda>k. fviews (factive_of flock_init k)) flock_init"
proof -
  have "ftable_quiet flock_init" by (simp add: ftable_quiet_def fd.all_recs_def flock_init_def flock_inode_find_def)
  with ftable_ok_init show ?thesis by (simp add: freplica_def)
qed

subsection \<open>Who is granted\<close>

definition flock_granted :: "u8 \<Rightarrow> flock list \<Rightarrow> flock list" where
  "flock_granted mode ws =
     (case ws of
        [] \<Rightarrow> []
      | l # _ \<Rightarrow> if l_ltype l = LTYPE_WRITER then [l]
                 else if mode = MODE_LINUX then filter (\<lambda>l. l_ltype l = LTYPE_READER) ws
                 else takeWhile (\<lambda>l. l_ltype l = LTYPE_READER) ws)"

definition flock_left :: "u8 \<Rightarrow> flock list \<Rightarrow> flock list" where
  "flock_left mode ws =
     (case ws of
        [] \<Rightarrow> []
      | l # ls \<Rightarrow> if l_ltype l = LTYPE_WRITER then ls
                  else if mode = MODE_LINUX then filter (\<lambda>l. l_ltype l \<noteq> LTYPE_READER) ws
                  else dropWhile (\<lambda>l. l_ltype l = LTYPE_READER) ws)"

lemma grant_linux_result:
  "flock_grant_linux il ls = (il', ws, ev) \<Longrightarrow>
   fviews (f_active il') = rev (fviews (filter (\<lambda>l. l_ltype l = LTYPE_READER) ls)) @ fviews (f_active il) \<and>
   ws = filter (\<lambda>l. l_ltype l \<noteq> LTYPE_READER) ls"
proof (induction il ls arbitrary: il' ws ev rule: flock_grant_linux.induct)
  case (2 il l ls)
  show ?case
  proof (cases "l_ltype l = LTYPE_READER")
    case True
    obtain ev2 where g: "flock_grant_linux (fst (flock_activate il l)) ls = (il', ws, ev2)"
      using "2.prems" True by (auto split: prod.splits)
    from "2.IH"(1) [OF True prod.collapse refl g] True show ?thesis by simp
  next
    case False
    with 2 show ?thesis by (auto split: prod.splits)
  qed
qed simp

lemma grant_prefix_result:
  "flock_grant_prefix il ls = (il', ws, ev) \<Longrightarrow>
   fviews (f_active il') = rev (fviews (takeWhile (\<lambda>l. l_ltype l = LTYPE_READER) ls)) @ fviews (f_active il) \<and>
   ws = dropWhile (\<lambda>l. l_ltype l = LTYPE_READER) ls"
proof (induction il ls arbitrary: il' ws ev rule: flock_grant_prefix.induct)
  case (2 il l ls)
  show ?case
  proof (cases "l_ltype l = LTYPE_READER")
    case True
    obtain ev2 where g: "flock_grant_prefix (fst (flock_activate il l)) ls = (il', ws, ev2)"
      using "2.prems" True by (auto split: prod.splits)
    from "2.IH" [OF True prod.collapse refl g] True show ?thesis by simp
  next
    case False
    with 2 show ?thesis by auto
  qed
qed simp

lemma check_waiting_result:
  assumes "f_active il = []" "fwaiting_ok (f_waiting il)" "flock_lock_check_waiting mode il = (il', ev)"
  shows "fviews (f_active il') = rev (fviews (flock_granted mode (f_waiting il)))"
    "f_waiting il' = flock_left mode (f_waiting il)"
proof -
  have "fviews (f_active il') = rev (fviews (flock_granted mode (f_waiting il))) \<and>
    f_waiting il' = flock_left mode (f_waiting il)"
  proof (cases "f_waiting il")
    case Nil
    with assms show ?thesis by (simp add: flock_lock_check_waiting_def flock_granted_def flock_left_def)
  next
    case (Cons l ls)
    show ?thesis
    proof (cases "l_ltype l = LTYPE_WRITER")
      case True
      have "flock_activate (il\<lparr>f_waiting := ls\<rparr>) l = (il', ev)"
        using assms(1,3) Cons True by (auto simp: flock_lock_check_waiting_def split_def Let_def)
      then have "il' = fst (flock_activate (il\<lparr>f_waiting := ls\<rparr>) l)" by simp
      with True Cons assms(1) show ?thesis by (simp add: flock_granted_def flock_left_def)
    next
      case False
      then have rd: "l_ltype l = LTYPE_READER" using assms(2) Cons by (auto simp: fwait_ok_def)
      obtain il2 ws ev2 where g: "(if mode = MODE_LINUX then flock_grant_linux else flock_grant_prefix)
          il (f_waiting il) = (il2, ws, ev2)" by (metis prod_cases3)
      then have "il' = il2\<lparr>f_waiting := ws\<rparr>"
        using assms(1,3) Cons rd by (auto simp: flock_lock_check_waiting_def Let_def split: if_splits)
      with g assms(1) Cons rd grant_linux_result [of il "f_waiting il" il2 ws ev2]
        grant_prefix_result [of il "f_waiting il" il2 ws ev2]
      show ?thesis by (auto simp: flock_granted_def flock_left_def split: if_splits)
    qed
  qed
  then show "fviews (f_active il') = rev (fviews (flock_granted mode (f_waiting il)))"
    "f_waiting il' = flock_left mode (f_waiting il)" by simp_all
qed

subsection \<open>Running examples\<close>

lemma flock_hash_1: "FLOCK_INODE_HASH 1 = 889"
  by (simp add: FLOCK_INODE_HASH_def FLOCK_INODE_HASHSIZE_def)

lemmas flock_eval =
  flock_locks_cmd_def flock_inode_find_def flock_inode_new_def flock_inode_put_def flock_inode_get_def
  flock_inode_empty_def flock_inode_remove_def flock_put_back_def flock_cmd_il_def flock_cmd_active_def
  flock_cmd_waiting_def flock_cmd_new_def flock_lock_new_def flock_check_def flock_lock_unlock_def
  flock_lock_check_waiting_def flock_activate_def flock_lock_wake_up_all_def flock_wake_up_def
  flock_lock_append_req_def flock_lock_inode_attach_def flock_do_lock_inode_attach_def
  flock_lock_remove_log_def flock_type_char_def flock_mine_def flock_wmine_def flock_init_def
  flock_hash_1 Let_def

text \<open>A command of session 5 on inode 1, which the session has open.\<close>

definition flock_on_1 :: "u8 \<Rightarrow> u64 \<Rightarrow> u8 \<Rightarrow> ftable \<Rightarrow> u8 \<times> ftable \<times> out_event list" where
  "flock_on_1 mode own op tab = flock_locks_cmd mode (\<lambda>_ _. True) tab 1 5 6 7 1 own op"

abbreviation flock_tab :: "u8 \<times> ftable \<times> out_event list \<Rightarrow> ftable" where
  "flock_tab r \<equiv> fst (snd r)"

definition writer_9 :: ftable where
  "writer_9 = flock_tab (flock_on_1 MODE_CORRECT 9 FLOCK_LOCK_EXCLUSIVE flock_init)"

definition writer_9_reader_8 :: ftable where
  "writer_9_reader_8 = flock_tab (flock_on_1 MODE_CORRECT 8 FLOCK_LOCK_SHARED writer_9)"

lemma example_tables_ok: "ftable_ok writer_9" "ftable_ok writer_9_reader_8"
proof -
  have ok: "ftable_ok tab \<Longrightarrow> ftable_ok (flock_tab (flock_on_1 mode own op tab))" for tab mode own op
    using flock_locks_cmd_ok [of tab mode "\<lambda>_ _. True" 1 5 6 7 1 own op]
    by (cases "flock_on_1 mode own op tab") (auto simp: flock_on_1_def)
  show "ftable_ok writer_9" unfolding writer_9_def by (rule ok) (rule ftable_ok_init)
  then show "ftable_ok writer_9_reader_8" unfolding writer_9_reader_8_def by (rule ok)
qed

lemma writer_9_find:
  "flock_inode_find writer_9 1 = Some \<lparr>f_inode = 1, f_active = [\<lparr>l_owner = 9, l_connptr = Some 1,
     l_sessionid = 5, l_state = 1, l_ltype = 1, l_instances = []\<rparr>], f_waiting = []\<rparr>"
  by (simp add: writer_9_def flock_on_1_def flock_eval)

lemma writer_9_find_other: "k \<noteq> 1 \<Longrightarrow> flock_inode_find writer_9 k = None"
  by (simp add: writer_9_def flock_on_1_def flock_eval)

lemma writer_9_reader_8_find:
  "flock_inode_find writer_9_reader_8 1 = Some \<lparr>f_inode = 1, f_active = [\<lparr>l_owner = 9, l_connptr = Some 1,
     l_sessionid = 5, l_state = 1, l_ltype = 1, l_instances = []\<rparr>],
     f_waiting = [\<lparr>l_owner = 8, l_connptr = Some 1, l_sessionid = 5, l_state = 0, l_ltype = 0,
       l_instances = [\<lparr>i_msgid = 6, i_reqid = 7\<rparr>]\<rparr>]\<rparr>"
  by (simp add: writer_9_reader_8_def writer_9_def flock_on_1_def flock_eval)

lemma find_init: "flock_inode_find flock_init k = None"
  by (simp add: flock_init_def flock_inode_find_def)

lemma writer_9_log:
  "changelog_of (snd (snd (flock_on_1 MODE_CORRECT 9 FLOCK_LOCK_EXCLUSIVE flock_init))) =
     [FLOCK 1 5 9 (CHR ''W'')]"
  "changelog_of (snd (snd (flock_on_1 MODE_CORRECT 8 FLOCK_LOCK_SHARED writer_9))) = []"
  by (simp_all add: writer_9_def flock_on_1_def flock_eval)

lemma handed_over:
  "changelog_of (snd (snd (flock_on_1 MODE_CORRECT 9 FLOCK_UNLOCK writer_9_reader_8))) =
     [FLOCK 1 5 9 (CHR ''U''), FLOCK 1 5 8 (CHR ''R'')]"
  "fviews (factive_of (flock_tab (flock_on_1 MODE_CORRECT 9 FLOCK_UNLOCK writer_9_reader_8)) 1) =
     [(5, 8, LTYPE_READER)]"
  by (simp_all add: flock_on_1_def writer_9_reader_8_def writer_9_def factive_of_def flock_view_def flock_eval)

lemma fhistory_on_1:
  "flock_history tab es \<Longrightarrow>
   \<forall>il. flock_inode_find tab 1 = Some il \<longrightarrow> one_conn il 1 5 own \<and> \<not> silent_conversion il 5 own op \<Longrightarrow>
   flock_history (flock_tab (flock_on_1 mode own op tab))
     (es @ changelog_of (snd (snd (flock_on_1 mode own op tab))))"
  using fhistory_cmd [of tab es 1 1 5 own op mode "\<lambda>_ _. True" 6 7] prod_cases3
  unfolding flock_on_1_def by (metis prod.collapse)

text \<open>
  Owner 9 holds a shared lock and converts it with \<^verbatim>\<open>FLOCK_TRY_EXCLUSIVE\<close>: the master answers OK
  and the lock is exclusive, but nothing is logged. A replica that replayed the log still has the
  shared lock and accepts a shared lock of session 6.
\<close>

definition upgraded :: "u8 \<times> ftable \<times> out_event list" where
  "upgraded = flock_on_1 MODE_CORRECT 9 FLOCK_TRY_EXCLUSIVE
     (flock_tab (flock_on_1 MODE_CORRECT 9 FLOCK_LOCK_SHARED flock_init))"

theorem upgrade_not_logged:
  "fst upgraded = MFS_STATUS_OK \<and> changelog_of (snd (snd upgraded)) = [] \<and>
   fviews (factive_of (flock_tab upgraded) 1) = [(5, 9, LTYPE_WRITER)]"
  "fst (flock_replay flock_init [FLOCK 1 5 9 (CHR ''R''), FLOCK 1 6 9 (CHR ''R'')]) = MFS_STATUS_OK"
  by (simp_all add: upgraded_def flock_on_1_def factive_of_def flock_view_def flock_eval
      flock_mr_change_def flock_mr_type_def flock_replayed_def)

text \<open>
  Owner 9 holds an exclusive lock and converts it with \<^verbatim>\<open>FLOCK_TRY_SHARED\<close>; owner 8 then gets a
  shared lock. The replica refuses the second line of the log.
\<close>

definition downgraded :: "u8 \<times> ftable \<times> out_event list" where
  "downgraded = flock_on_1 MODE_CORRECT 8 FLOCK_LOCK_SHARED
     (flock_tab (flock_on_1 MODE_CORRECT 9 FLOCK_TRY_SHARED writer_9))"

theorem downgrade_breaks_replay:
  "fst downgraded = MFS_STATUS_OK \<and> changelog_of (snd (snd downgraded)) = [FLOCK 1 5 8 (CHR ''R'')]"
  "changelog_of (snd (snd (flock_on_1 MODE_CORRECT 9 FLOCK_TRY_SHARED writer_9))) = []"
  "fst (flock_replay flock_init [FLOCK 1 5 9 (CHR ''W''), FLOCK 1 5 8 (CHR ''R'')]) = MFS_ERROR_MISMATCH"
  by (simp_all add: downgraded_def writer_9_def flock_on_1_def flock_eval
      flock_mr_change_def flock_mr_type_def flock_replayed_def)

text \<open>
  Owner 9 of session 5 waits for a shared lock on two connections, and both requests are granted when
  owner 8 unlocks. The unlock of owner 9 then takes one of the two locks, its line takes both locks
  of a replica.
\<close>

definition waits_twice :: ftable where
  "waits_twice =
     (let tab = flock_tab (flock_on_1 MODE_CORRECT 8 FLOCK_LOCK_EXCLUSIVE flock_init);
          tab1 = flock_tab (flock_on_1 MODE_CORRECT 9 FLOCK_LOCK_SHARED tab);
          tab2 = flock_tab (flock_locks_cmd MODE_CORRECT (\<lambda>_ _. True) tab1 2 5 6 7 1 9 FLOCK_LOCK_SHARED)
      in flock_tab (flock_on_1 MODE_CORRECT 8 FLOCK_UNLOCK tab2))"

theorem second_connection_breaks_replay:
  "fviews (factive_of waits_twice 1) = [(5, 9, LTYPE_READER), (5, 9, LTYPE_READER)]"
  "fviews (factive_of (flock_tab (flock_on_1 MODE_CORRECT 9 FLOCK_UNLOCK waits_twice)) 1) =
     [(5, 9, LTYPE_READER)]"
  "changelog_of (snd (snd (flock_on_1 MODE_CORRECT 9 FLOCK_UNLOCK waits_twice))) = [FLOCK 1 5 9 (CHR ''U'')]"
  "factive_of (snd (flock_replay flock_init [FLOCK 1 5 9 (CHR ''R''), FLOCK 1 5 9 (CHR ''R''),
     FLOCK 1 5 9 (CHR ''U'')])) 1 = []"
  by (simp_all add: waits_twice_def flock_on_1_def factive_of_def flock_view_def flock_eval
      flock_mr_change_def flock_mr_type_def flock_replayed_def)

subsection \<open>Properties\<close>

text \<open>
  C4. Replay of the BSD lock manager: take any history of commands (in any mode), closed files and
  disconnections from the empty table. The lines that the whole history logged are accepted by a
  replica one after the other, and the replica then has exactly the active locks of the live table,
  with owner and type and in the same order. Two kinds of command are left out of the histories,
  because the code does not keep the promise for them: the conversions that
  \<^verbatim>\<open>FLOCK_TRY_SHARED\<close> and \<^verbatim>\<open>FLOCK_TRY_EXCLUSIVE\<close> make without a line
  (\<open>upgrade_not_logged\<close>, \<open>downgrade_breaks_replay\<close>), and a command of an owner that waits for the file
  on another connection (\<open>second_connection_breaks_replay\<close>).
\<close>

theorem flock_history_replays:
  assumes "flock_history tab es"
  shows "\<exists>rep. flock_replay flock_init es = (MFS_STATUS_OK, rep) \<and>
    freplica (\<lambda>k. fviews (factive_of tab k)) rep"
  using fhistory_followed [OF assms] freplica_init by (auto simp: followed_def)

theorem flock_history_replays_witness:
  "\<exists>rep. flock_replay flock_init [FLOCK 1 5 9 (CHR ''W''), FLOCK 1 5 9 (CHR ''U''), FLOCK 1 5 8 (CHR ''R'')] =
       (MFS_STATUS_OK, rep) \<and>
     fviews (factive_of rep 1) = [(5, 8, LTYPE_READER)]"
proof -
  have h1: "flock_history writer_9 [FLOCK 1 5 9 (CHR ''W'')]"
    using fhistory_on_1 [OF fhistory_init, of 9 FLOCK_LOCK_EXCLUSIVE MODE_CORRECT] writer_9_log
    by (simp add: find_init writer_9_def)
  have h2: "flock_history writer_9_reader_8 [FLOCK 1 5 9 (CHR ''W'')]"
    using fhistory_on_1 [OF h1, of 8 FLOCK_LOCK_SHARED MODE_CORRECT] writer_9_log
    by (simp add: writer_9_find one_conn_def silent_conversion_def flock_mine_def writer_9_reader_8_def)
  have "\<forall>il. flock_inode_find writer_9_reader_8 1 = Some il \<longrightarrow>
      one_conn il 1 5 9 \<and> \<not> silent_conversion il 5 9 FLOCK_UNLOCK"
    by (simp add: writer_9_reader_8_find one_conn_def silent_conversion_def flock_mine_def)
  from flock_history_replays [OF fhistory_on_1 [OF h2 this, of MODE_CORRECT]] show ?thesis
    unfolding handed_over(1) freplica_def append_Cons append_Nil using handed_over(2) by (elim ex_forward) simp
qed

text \<open>
  C5. Hand-over: when the only holder unlocks and somebody waits, \<^verbatim>\<open>flock_locks_cmd\<close> answers OK and
  the queue is served in the order of the mode: a writer at its head alone; otherwise the readers at
  its head, or every reader of the queue in the Linux mode. Everybody else keeps the place.
\<close>

theorem flock_unlock_hands_over:
  assumes tab: "ftable_ok tab" and il: "flock_inode_find tab inode = Some il" "f_active il = [l]"
    and l: "flock_mine ses own l" and w: "f_waiting il \<noteq> []" and chk: "chk ses inode"
    and r: "flock_locks_cmd mode chk tab conn ses msgid reqid inode own FLOCK_UNLOCK = (st, tab', ev)"
  shows "\<exists>il'. flock_inode_find tab' inode = Some il' \<and> st = MFS_STATUS_OK \<and>
    fviews (f_active il') = rev (fviews (flock_granted mode (f_waiting il))) \<and>
    f_waiting il' = flock_left mode (f_waiting il)"
proof -
  have g: "flock_inode_get tab inode = (tab, il)" using il(1) by (simp add: flock_inode_get_def)
  obtain il2 ev2 where cw: "flock_lock_check_waiting mode (il\<lparr>f_active := []\<rparr>) = (il2, ev2)" by fastforce
  then have c: "flock_cmd_il mode il conn ses msgid reqid own FLOCK_UNLOCK =
      (MFS_STATUS_OK, il2, flock_lock_remove_log (f_inode il) l @ ev2)"
    using il(2) l w by (simp add: flock_cmd_il_def flock_cmd_active_def flock_lock_unlock_def Let_def)
  note ok = ftable_okD [OF tab il(1)]
  then have wok: "fwaiting_ok (f_waiting (il\<lparr>f_active := []\<rparr>))" by (simp add: fil_struct_def)
  have fine: "f_active il2 \<noteq> []" "f_inode il2 = inode"
    using check_waiting_fine [OF _ cw] ok w by (simp_all add: fil_struct_def)
  have "(st, tab', ev) = (MFS_STATUS_OK, fst (flock_put_back tab il2 True),
      flock_lock_remove_log (f_inode il) l @ ev2)"
    using flock_locks_cmd_run(3) [OF tab g c, of True chk] r chk il l by simp
  then show ?thesis
    using find_put_back [of tab il2 True inode] fine il(1) check_waiting_result [OF _ wok cw] by simp
qed

theorem flock_unlock_hands_over_witness:
  "\<exists>il'. flock_inode_find (flock_tab (flock_on_1 MODE_CORRECT 9 FLOCK_UNLOCK writer_9_reader_8)) 1 = Some il' \<and>
    fviews (f_active il') = [(5, 8, LTYPE_READER)] \<and> f_waiting il' = []"
  using flock_unlock_hands_over [OF example_tables_ok(2) writer_9_reader_8_find, of "\<lparr>l_owner = 9,
      l_connptr = Some 1, l_sessionid = 5, l_state = 1, l_ltype = 1, l_instances = []\<rparr>"
      5 9 "\<lambda>_ _. True" MODE_CORRECT 1 6 7]
  by (cases "flock_on_1 MODE_CORRECT 9 FLOCK_UNLOCK writer_9_reader_8")
    (auto simp: flock_on_1_def flock_mine_def flock_granted_def flock_left_def flock_view_def)

text \<open>
  C6. No overtaking in the default mode: while somebody waits for a file, an owner without a lock there
  gets nothing. A blocking request is answered with WAITING and goes to the end of the queue, a
  trying one with EAGAIN; nothing is logged and nobody else's lock changes. This is what keeps
  readers from starving a writer.
\<close>

theorem flock_no_overtaking:
  assumes tab: "ftable_ok tab" and il: "flock_inode_find tab inode = Some il" "f_waiting il \<noteq> []"
    and own: "List.find (flock_mine ses own) (f_active il) = None"
      "List.find (flock_wmine conn ses own) (f_waiting il) = None"
    and op: "op \<in> {FLOCK_TRY_SHARED, FLOCK_LOCK_SHARED, FLOCK_TRY_EXCLUSIVE, FLOCK_LOCK_EXCLUSIVE}"
    and chk: "chk ses inode"
    and r: "flock_locks_cmd MODE_CORRECT chk tab conn ses msgid reqid inode own op = (st, tab', ev)"
  shows "ev = [] \<and>
    (if op = FLOCK_LOCK_SHARED \<or> op = FLOCK_LOCK_EXCLUSIVE
     then st = MFS_ERROR_WAITING \<and> (\<exists>l. flock_mine ses own l \<and> l_connptr l = Some conn \<and>
            flock_inode_find tab' inode = Some (il\<lparr>f_waiting := f_waiting il @ [l]\<rparr>))
     else st = MFS_ERROR_EAGAIN \<and> flock_inode_find tab' inode = Some il)"
proof -
  have g: "flock_inode_get tab inode = (tab, il)" using il(1) by (simp add: flock_inode_get_def)
  obtain st1 il2 ev1 where c: "flock_cmd_il MODE_CORRECT il conn ses msgid reqid own op = (st1, il2, ev1)"
    by (metis prod_cases3)
  note ok = ftable_okD [OF tab il(1)]
  have check: "flock_check MODE_CORRECT il t" for t using il(2) ok by (auto simp: flock_check_def fil_ok_def)
  have res: "(st, tab', ev) = (st1, fst (flock_put_back tab il2 False), ev1)"
    using flock_locks_cmd_run(3) [OF tab g c, of False chk] r chk il own by simp
  have found: "flock_inode_find (fst (flock_put_back tab il2 False)) inode = Some il2" if "f_inode il2 = inode"
    using find_put_back [of tab il2 False inode] that il(1) by simp
  define l where "l = flock_lock_append_req \<lparr>l_owner = own, l_connptr = Some conn, l_sessionid = ses,
    l_state = STATE_WAITING, l_ltype = (if op = FLOCK_LOCK_SHARED then LTYPE_READER else LTYPE_WRITER),
    l_instances = []\<rparr> msgid reqid"
  have l: "flock_mine ses own l" "l_connptr l = Some conn" by (simp_all add: l_def flock_mine_def)
  have wait: "st1 = MFS_ERROR_WAITING \<and> ev1 = [] \<and> il2 = il\<lparr>f_waiting := f_waiting il @ [l]\<rparr>"
    if "op = FLOCK_LOCK_SHARED \<or> op = FLOCK_LOCK_EXCLUSIVE"
    using c own check that
    by (auto simp: flock_cmd_il_def flock_cmd_new_def flock_lock_new_def flock_lock_inode_attach_def
        flock_do_lock_inode_attach_def l_def Let_def)
  have again: "st1 = MFS_ERROR_EAGAIN \<and> ev1 = [] \<and> il2 = il"
    if "\<not> (op = FLOCK_LOCK_SHARED \<or> op = FLOCK_LOCK_EXCLUSIVE)"
    using c own check op that by (auto simp: flock_cmd_il_def flock_cmd_new_def Let_def)
  show ?thesis
  proof (cases "op = FLOCK_LOCK_SHARED \<or> op = FLOCK_LOCK_EXCLUSIVE")
    case True
    note w = wait [OF True]
    then have "flock_inode_find tab' inode = Some (il\<lparr>f_waiting := f_waiting il @ [l]\<rparr>)"
      using found ok res by simp
    with w l res True show ?thesis by simp blast
  next
    case False
    with again [OF False] found ok res show ?thesis by simp
  qed
qed

theorem flock_no_overtaking_witness:
  "fst (flock_on_1 MODE_CORRECT 7 FLOCK_LOCK_SHARED writer_9_reader_8) = MFS_ERROR_WAITING \<and>
   snd (snd (flock_on_1 MODE_CORRECT 7 FLOCK_LOCK_SHARED writer_9_reader_8)) = []"
  using flock_no_overtaking [OF example_tables_ok(2) writer_9_reader_8_find, of 5 7 1 FLOCK_LOCK_SHARED "\<lambda>_ _. True" 6 7]
  by (cases "flock_on_1 MODE_CORRECT 7 FLOCK_LOCK_SHARED writer_9_reader_8")
    (auto simp: flock_on_1_def flock_mine_def flock_wmine_def)

end
