(* ===== verification/Lock_Users.thy ===== *)
theory Lock_Users
  imports Posix_Safety Flock_Replay
begin

text \<open>
  What the open-file table relies on in the two lock managers: which sessions have a lock or wait
  for one on a file, that a command adds its session only when the file is open for it, and that
  closing a file removes the session from it. The first of these needs a command code that the lock
  manager knows. The contract is a locale, interpreted for the BSD and
  for the POSIX lock manager.
\<close>

subsection \<open>The contract\<close>

locale lock_manager =
  fixes users :: "'t \<Rightarrow> u32 \<Rightarrow> u32 set"
    and closed :: "'t \<Rightarrow> u32 \<Rightarrow> u32 \<Rightarrow> 't"
    and disconnected :: "'t \<Rightarrow> connptr \<Rightarrow> 't"
    and cmd :: "(u32 \<Rightarrow> u32 \<Rightarrow> bool) \<Rightarrow> 't \<Rightarrow> 'c \<Rightarrow> 't"
    and valid :: "'c \<Rightarrow> bool"
    and ok :: "'t \<Rightarrow> bool"
  assumes ok_closed: "ok t \<Longrightarrow> ok (closed t ses inode)"
    and ok_disconnected: "ok t \<Longrightarrow> ok (disconnected t conn)"
    and ok_cmd: "ok t \<Longrightarrow> ok (cmd is_open t c)"
    and users_closed: "ok t \<Longrightarrow>
      users (closed t ses inode) k \<subseteq> (if k = inode then users t k - {ses} else users t k)"
    and users_disconnected: "ok t \<Longrightarrow> users (disconnected t conn) k \<subseteq> users t k"
    and users_cmd: "ok t \<Longrightarrow> valid c \<Longrightarrow> users (cmd is_open t c) k \<subseteq> users t k \<union> {s. is_open s k}"
begin

text \<open>Every lock belongs to an open file.\<close>

definition covered :: "(u32 \<times> u32) set \<Rightarrow> 't \<Rightarrow> bool" where
  "covered rel t \<longleftrightarrow> (\<forall>k. \<forall>s \<in> users t k. (s, k) \<in> rel)"

lemma covered_mono: "covered rel t \<Longrightarrow> rel \<subseteq> rel' \<Longrightarrow> covered rel' t"
  by (auto simp: covered_def)

lemma covered_closed:
  assumes "ok t" "covered rel t"
  shows "covered (rel - {(ses, inode)}) (closed t ses inode)"
  unfolding covered_def
proof (intro allI ballI)
  fix k s assume "s \<in> users (closed t ses inode) k"
  then have "s \<in> (if k = inode then users t k - {ses} else users t k)"
    using users_closed [OF assms(1)] by blast
  with assms(2) show "(s, k) \<in> rel - {(ses, inode)}" by (auto simp: covered_def split: if_splits)
qed

lemma covered_closed_same:
  assumes "ok t" "covered rel t"
  shows "covered rel (closed t ses inode)"
  using covered_mono [OF covered_closed [OF assms]] by blast

lemma covered_disconnected: "ok t \<Longrightarrow> covered rel t \<Longrightarrow> covered rel (disconnected t conn)"
  using users_disconnected unfolding covered_def by blast

lemma covered_cmd:
  assumes "ok t" "valid c" "covered rel t" "\<And>s k. is_open s k \<Longrightarrow> (s, k) \<in> rel"
  shows "covered rel (cmd is_open t c)"
  using assms users_cmd [OF assms(1,2), of is_open] unfolding covered_def by blast

lemma not_covered: "covered rel t \<Longrightarrow> (s, k) \<notin> rel \<Longrightarrow> s \<notin> users t k"
  by (auto simp: covered_def)

end

subsection \<open>The BSD lock manager\<close>

definition key_session :: "flock_key \<Rightarrow> u32" where
  "key_session k = (case k of FKey s w \<Rightarrow> s)"

definition flock_users :: "ftable \<Rightarrow> u32 \<Rightarrow> u32 set" where
  "flock_users tab inode = (case flock_inode_find tab inode of None \<Rightarrow> {} | Some il \<Rightarrow> key_session ` fkeys il)"

lemma key_session_fkey [simp]: "key_session (fkey l) = l_sessionid l" "key_session (FKey s w) = s"
  by (simp_all add: key_session_def fkey_def)

lemma lock_new_keys:
  "fkeys (fst (snd (flock_lock_new mode il t conn ses msgid reqid own))) = insert (FKey ses own) (fkeys il)"
  by (auto simp: flock_lock_new_def flock_lock_inode_attach_def flock_do_lock_inode_attach_def fkeys_def Let_def)

lemma remove_first_keys: "fkeys (il\<lparr>f_active := remove_first p (f_active il)\<rparr>) \<subseteq> fkeys il"
  "fkeys (il\<lparr>f_waiting := remove_first p (f_waiting il)\<rparr>) \<subseteq> fkeys il"
  using remove_first_subset by (fastforce simp: fkeys_def)+

lemma map_fkey_set: "map fkey xs = map fkey ys \<Longrightarrow> fkey ` set xs = fkey ` set ys"
  by (metis set_map)

lemma set_ltype_keys:
  "fkeys (il\<lparr>f_active := chain_upd p (\<lambda>l. l\<lparr>l_ltype := t\<rparr>) (f_active il)\<rparr>) = fkeys il"
proof -
  have "map fkey (chain_upd p (\<lambda>l. l\<lparr>l_ltype := t\<rparr>) (f_active il)) = map fkey (f_active il)"
    by (intro chain_upd_fkeys) simp
  from map_fkey_set [OF this] show ?thesis by (simp add: fkeys_def)
qed

lemma cmd_active_keys:
  "fkeys (fst (snd (flock_cmd_active mode il l conn ses msgid reqid own op))) \<subseteq>
     (if op = FLOCK_UNLOCK \<or> op = FLOCK_RELEASE then fkeys il else insert (FKey ses own) (fkeys il))"
proof -
  let ?rest = "remove_first (flock_mine ses own) (f_active il)"
  let ?u = "flock_lock_unlock mode il ?rest l"
  have u: "fkeys (fst ?u) \<subseteq> fkeys il" unfolding unlock_keys by (rule remove_first_keys)
  show ?thesis
  proof (cases "op = FLOCK_UNLOCK \<or> op = FLOCK_RELEASE")
    case True
    with u show ?thesis by (auto simp: flock_cmd_active_def Let_def split_def)
  next
    case False
    have "fst (snd (flock_cmd_active mode il l conn ses msgid reqid own op)) \<in>
      {il, il\<lparr>f_active := chain_upd (flock_mine ses own) (\<lambda>l. l\<lparr>l_ltype := LTYPE_WRITER\<rparr>) (f_active il)\<rparr>,
       fst (flock_lock_check_waiting mode
         (il\<lparr>f_active := chain_upd (flock_mine ses own) (\<lambda>l. l\<lparr>l_ltype := LTYPE_READER\<rparr>) (f_active il)\<rparr>)),
       fst (snd (flock_lock_new mode (fst ?u) LTYPE_READER conn ses msgid reqid own)),
       fst (snd (flock_lock_new mode (fst ?u) LTYPE_WRITER conn ses msgid reqid own))}"
      using False by (simp add: flock_cmd_active_def Let_def split_def)
    with u False show ?thesis
      by (auto simp: set_ltype_keys check_waiting_keys lock_new_keys)
  qed
qed

lemma cmd_waiting_keys:
  assumes "flock_wmine conn ses own l"
  shows "fkeys (fst (snd (flock_cmd_waiting mode il l conn ses msgid reqid own op))) \<subseteq> fkeys il"
proof -
  have ch: "fkeys (il\<lparr>f_waiting := chain_upd (flock_wmine conn ses own) (\<lambda>_. l') (f_waiting il)\<rparr>) = fkeys il"
    if "fkey l' = FKey ses own" for l'
  proof -
    have "map fkey (chain_upd (flock_wmine conn ses own) (\<lambda>_. l') (f_waiting il)) = map fkey (f_waiting il)"
      using that by (intro chain_upd_fkeys) (auto simp: flock_wmine_def fkey_def)
    from map_fkey_set [OF this] show ?thesis by (simp add: fkeys_def)
  qed
  have "fkey l = FKey ses own" using assms by (simp add: flock_wmine_def fkey_def)
  then show ?thesis
    using remove_first_keys(2) [of "flock_wmine conn ses own" il]
    by (simp add: flock_cmd_waiting_def flock_lock_wake_up_all_def Let_def ch)
qed

lemma cmd_il_keys:
  "fkeys (fst (snd (flock_cmd_il mode il conn ses msgid reqid own op))) \<subseteq>
     (if op = FLOCK_UNLOCK \<or> op = FLOCK_RELEASE \<or> op = FLOCK_INTERRUPT then fkeys il
      else insert (FKey ses own) (fkeys il))"
proof (cases "op = FLOCK_INTERRUPT")
  case True
  have "fkey ` set (fst (flock_interrupt (f_waiting il) conn ses own reqid)) \<subseteq> fkey ` set (f_waiting il)"
    using interrupt_logged [of "f_waiting il" conn ses own reqid]
    by (cases "flock_interrupt (f_waiting il) conn ses own reqid") auto
  with True show ?thesis by (simp add: flock_cmd_il_def Let_def split_def fkeys_def) blast
next
  case op: False
  show ?thesis
  proof (cases "List.find (flock_mine ses own) (f_active il)")
    case (Some l)
    with op cmd_active_keys [of mode il l conn ses msgid reqid own op] show ?thesis by (simp add: flock_cmd_il_def)
  next
    case act: None
    show ?thesis
    proof (cases "List.find (flock_wmine conn ses own) (f_waiting il)")
      case (Some l)
      with op act cmd_waiting_keys [of conn ses own l mode il msgid reqid op] find_mem [OF Some]
      show ?thesis by (auto simp: flock_cmd_il_def)
    next
      case None
      with op act show ?thesis
        by (simp add: flock_cmd_il_def flock_cmd_new_def Let_def lock_new_keys subset_insertI)
    qed
  qed
qed

lemma close_active_keys:
  assumes "\<forall>l \<in> set kept. l_sessionid l \<noteq> ses" "\<forall>l \<in> set (f_waiting il). l_sessionid l \<noteq> ses"
  shows "fkeys (fst (flock_close_active mode ses il kept ls)) \<subseteq>
    {k \<in> fkeys (il\<lparr>f_active := kept @ ls\<rparr>). key_session k \<noteq> ses}"
  using assms
proof (induction mode ses il kept ls rule: flock_close_active.induct)
  case (1 mode ses il kept)
  then show ?case by (auto simp: fkeys_def)
next
  case (2 mode ses il kept l ls)
  show ?case
  proof (cases "l_sessionid l = ses")
    case False
    with "2.IH"(2) [OF False] "2.prems" show ?thesis by auto
  next
    case True
    show ?thesis
    proof (cases "kept @ ls = []")
      case empty: True
      have "fkeys (fst (flock_lock_unlock mode il [] l)) = fkeys (il\<lparr>f_active := []\<rparr>)" by (rule unlock_keys)
      with True empty "2.prems"(2) show ?thesis by (auto simp: split_def fkeys_def)
    next
      case False
      then have u: "flock_lock_unlock mode il (kept @ ls) l =
          (il\<lparr>f_active := kept @ ls\<rparr>, flock_lock_remove_log (f_inode il) l)"
        unfolding flock_lock_unlock_def Let_def by auto
      have "fkeys (fst (flock_close_active mode ses (il\<lparr>f_active := kept @ ls\<rparr>) kept ls)) \<subseteq>
          {k \<in> fkeys (il\<lparr>f_active := kept @ ls\<rparr>). key_session k \<noteq> ses}"
        using "2.IH"(1) [OF True u [symmetric] refl False] "2.prems" by simp
      moreover have "fst (flock_close_active mode ses il kept (l # ls)) =
          fst (flock_close_active mode ses (il\<lparr>f_active := kept @ ls\<rparr>) kept ls)"
        using True False u by (auto simp: Let_def split_def)
      moreover have "fkeys (il\<lparr>f_active := kept @ ls\<rparr>) \<subseteq> fkeys (il\<lparr>f_active := kept @ l # ls\<rparr>)"
        by (auto simp: fkeys_def)
      ultimately show ?thesis by auto
    qed
  qed
qed

lemma flock_users_put_back:
  assumes "flock_inode_find tab (f_inode il) \<noteq> None"
  shows "flock_users (fst (flock_put_back tab il check)) k \<subseteq>
    (if k = f_inode il then key_session ` fkeys il else flock_users tab k)"
  using find_put_back [OF assms, of check k] by (auto simp: flock_users_def)

lemma flock_users_closed:
  assumes "ftable_ok tab"
  shows "flock_users (fst (flock_file_closed mode tab ses inode)) k \<subseteq>
    (if k = inode then flock_users tab k - {ses} else flock_users tab k)"
proof (cases "flock_inode_find tab inode")
  case None
  then show ?thesis by (auto simp: flock_file_closed_def flock_users_def)
next
  case (Some il)
  let ?il = "il\<lparr>f_waiting := filter (\<lambda>l. l_sessionid l \<noteq> ses) (f_waiting il)\<rparr>"
  obtain il2 ev2 where c: "flock_close_active mode ses ?il [] (f_active ?il) = (il2, ev2)" by fastforce
  note ok = ftable_okD [OF assms Some]
  have "factive_ok ([] @ f_active ?il)" "fwaiting_ok (f_waiting ?il)" "[] @ f_active ?il \<noteq> []"
    using ok fwaiting_ok_subset [of "f_waiting il" "f_waiting ?il"] by (auto simp: fil_ok_def fil_struct_def)
  from close_active_fine [OF this c] have inode: "f_inode il2 = inode" using ok by (simp add: cmd_fine_def)
  have keys: "fkeys il2 \<subseteq> {k \<in> fkeys ?il. key_session k \<noteq> ses}"
  proof -
    have "fkeys (fst (flock_close_active mode ses ?il [] (f_active ?il))) \<subseteq>
        {k \<in> fkeys (?il\<lparr>f_active := [] @ f_active ?il\<rparr>). key_session k \<noteq> ses}"
      by (rule close_active_keys) simp_all
    moreover have "fkeys (?il\<lparr>f_active := [] @ f_active ?il\<rparr>) = fkeys ?il" by (simp add: fkeys_def)
    ultimately show ?thesis unfolding c by simp
  qed
  have "fkeys ?il \<subseteq> fkeys il" by (auto simp: fkeys_def)
  with keys have "key_session ` fkeys il2 \<subseteq> key_session ` fkeys il - {ses}" by blast
  moreover have "fst (flock_file_closed mode tab ses inode) = fst (flock_put_back tab il2 True)"
    using Some c by (simp add: flock_file_closed_def Let_def split_def)
  ultimately show ?thesis
    using flock_users_put_back [of tab il2 True k] inode Some
    by (cases "k = inode") (simp_all add: flock_users_def)
qed

lemma flock_users_disconnected: "flock_users (flock_disconnected tab conn) k \<subseteq> flock_users tab k"
  by (auto simp: flock_users_def find_flock_disconnected fkeys_def split: option.splits)

text \<open>A client command as one value.\<close>

record flock_request =
  fq_conn :: connptr
  fq_session :: u32
  fq_msgid :: u32
  fq_reqid :: u32
  fq_inode :: u32
  fq_owner :: u64
  fq_op :: u8

definition flock_run :: "u8 \<Rightarrow> (u32 \<Rightarrow> u32 \<Rightarrow> bool) \<Rightarrow> ftable \<Rightarrow> flock_request \<Rightarrow> u8 \<times> ftable \<times> out_event list" where
  "flock_run mode is_open tab q = flock_locks_cmd mode is_open tab (fq_conn q) (fq_session q)
     (fq_msgid q) (fq_reqid q) (fq_inode q) (fq_owner q) (fq_op q)"

lemma flock_users_run:
  assumes "ftable_ok tab"
  shows "flock_users (fst (snd (flock_run mode is_open tab q))) k \<subseteq> flock_users tab k \<union> {s. is_open s k}"
proof (cases "(fq_op q = FLOCK_INTERRUPT \<or> fq_op q = FLOCK_RELEASE \<or> is_open (fq_session q) (fq_inode q)) \<and>
    (flock_inode_find tab (fq_inode q) \<noteq> None \<or>
     \<not> (fq_op q = FLOCK_UNLOCK \<or> fq_op q = FLOCK_INTERRUPT \<or> fq_op q = FLOCK_RELEASE))")
  case False
  then show ?thesis by (auto simp: flock_run_def flock_locks_cmd_def)
next
  case True
  obtain tab1 il where g: "flock_inode_get tab (fq_inode q) = (tab1, il)" by fastforce
  obtain st il' ev where c: "flock_cmd_il mode il (fq_conn q) (fq_session q) (fq_msgid q) (fq_reqid q)
      (fq_owner q) (fq_op q) = (st, il', ev)" by (metis prod_cases3)
  note gok = flock_inode_get_ok [OF assms g] and run = flock_locks_cmd_run [OF assms g c refl, of is_open]
  have inode: "f_inode il' = fq_inode q" using run(1) True gok(2) by (simp add: cmd_fine_def)
  have il: "key_session ` fkeys il \<subseteq> flock_users tab (fq_inode q)"
    using g by (auto simp: flock_inode_get_def flock_users_def flock_inode_empty_def fkeys_def split: option.splits)
  have keys: "key_session ` fkeys il' \<subseteq> key_session ` fkeys il \<union> {s. is_open s (fq_inode q)}"
    using cmd_il_keys [of mode il "fq_conn q" "fq_session q" "fq_msgid q" "fq_reqid q" "fq_owner q" "fq_op q"]
      c True by (force split: if_splits)
  have other: "flock_users tab1 j = flock_users tab j" if "j \<noteq> fq_inode q" for j
    using gok(5) [OF that] by (simp add: flock_users_def)
  have res: "fst (snd (flock_run mode is_open tab q)) = fst (flock_put_back tab1 il'
      ((fq_op q = FLOCK_UNLOCK \<or> fq_op q = FLOCK_RELEASE) \<and>
       List.find (flock_mine (fq_session q) (fq_owner q)) (f_active il) \<noteq> None))" (is "_ = fst (flock_put_back _ _ ?c)")
    using run(3) True by (simp add: flock_run_def)
  have put: "flock_users (fst (flock_put_back tab1 il' ?c)) k \<subseteq>
      (if k = fq_inode q then key_session ` fkeys il' else flock_users tab1 k)"
    using flock_users_put_back [of tab1 il' ?c k] gok(3) inode by simp
  show ?thesis
  proof (cases "k = fq_inode q")
    case True
    from put keys il show ?thesis unfolding res True if_P [OF refl] by blast
  next
    case False
    from put show ?thesis unfolding res if_not_P [OF False] other [OF False] by blast
  qed
qed

interpretation fm: lock_manager flock_users "\<lambda>t ses inode. fst (flock_file_closed mode t ses inode)"
  flock_disconnected "\<lambda>is_open t q. fst (snd (flock_run mode is_open t q))" "\<lambda>_. True" ftable_ok for mode
proof unfold_locales
  fix t is_open and c :: flock_request and k
  assume ok: "ftable_ok t"
  then show "ftable_ok (fst (snd (flock_run mode is_open t c)))"
    using flock_locks_cmd_ok [of t mode is_open "fq_conn c" "fq_session c" "fq_msgid c" "fq_reqid c"
        "fq_inode c" "fq_owner c" "fq_op c"]
    by (cases "flock_run mode is_open t c") (auto simp: flock_run_def)
  show "flock_users (fst (snd (flock_run mode is_open t c))) k \<subseteq> flock_users t k \<union> {s. is_open s k}"
    by (rule flock_users_run [OF ok])
next
  fix t ses inode k assume ok: "ftable_ok t"
  show "ftable_ok (fst (flock_file_closed mode t ses inode))" using flock_file_closed_ok [OF ok] by blast
  show "flock_users (fst (flock_file_closed mode t ses inode)) k
      \<subseteq> (if k = inode then flock_users t k - {ses} else flock_users t k)"
    by (rule flock_users_closed [OF ok])
next
  fix t conn k assume "ftable_ok t"
  then show "ftable_ok (flock_disconnected t conn)" by (rule flock_disconnected_ok)
  show "flock_users (flock_disconnected t conn) k \<subseteq> flock_users t k" by (rule flock_users_disconnected)
qed

subsection \<open>The POSIX lock manager\<close>

record posix_request =
  pq_conn :: connptr
  pq_session :: u32
  pq_msgid :: u32
  pq_reqid :: u32
  pq_inode :: u32
  pq_owner :: u64
  pq_op :: u8
  pq_args :: plock_args

definition posix_run :: "(u32 \<Rightarrow> u32 \<Rightarrow> bool) \<Rightarrow> ptable \<Rightarrow> posix_request \<Rightarrow> plock_result" where
  "posix_run is_open tab q = posix_lock_cmd is_open tab (pq_conn q) (pq_session q) (pq_msgid q)
     (pq_reqid q) (pq_inode q) (pq_owner q) (pq_op q) (pq_args q)"

text \<open>A request with one of the four command codes; nothing is said about its type and range.\<close>

definition posix_known :: "posix_request \<Rightarrow> bool" where
  "posix_known q \<longleftrightarrow>
     pq_op q \<in> {POSIX_LOCK_CMD_GET, POSIX_LOCK_CMD_SET, POSIX_LOCK_CMD_TRY, POSIX_LOCK_CMD_INT}"

interpretation pm: lock_manager posix_users "\<lambda>t ses inode. fst (posix_lock_file_closed t ses inode)"
  posix_lock_disconnected "\<lambda>is_open t q. pr_table (posix_run is_open t q)" posix_known ptable_safe
proof unfold_locales
  fix t is_open c k
  assume ok: "ptable_safe t"
  then show "ptable_safe (pr_table (posix_run is_open t c))"
    using posix_lock_cmd_safe by (simp add: posix_run_def)
  assume "posix_known c"
  then show "posix_users (pr_table (posix_run is_open t c)) k \<subseteq> posix_users t k \<union> {s. is_open s k}"
    unfolding posix_run_def posix_known_def by (rule posix_users_cmd)
next
  fix t ses inode k assume ok: "ptable_safe t"
  show "ptable_safe (fst (posix_lock_file_closed t ses inode))" using posix_lock_file_closed_safe [OF ok] by blast
  show "posix_users (fst (posix_lock_file_closed t ses inode)) k
      \<subseteq> (if k = inode then posix_users t k - {ses} else posix_users t k)"
    by (rule posix_users_closed)
next
  fix t conn k assume "ptable_safe t"
  then show "ptable_safe (posix_lock_disconnected t conn)" by (rule posix_lock_disconnected_safe)
  show "posix_users (posix_lock_disconnected t conn) k \<subseteq> posix_users t k" by (rule posix_users_disconnected)
qed

end
