(* ===== verification/Open_Files.thy ===== *)
theory Open_Files
  imports Lock_Users "HOL-Library.Signed_Division"
begin

text \<open>
  The table of open files of the master (\<^verbatim>\<open>mfsmaster/openfiles.c\<close>): which session has which inode
  open, as nodes that hang in a hash chain by session and in one by inode. Closing a file drops the
  session's locks in both lock managers. \<^verbatim>\<open>of_sync\<close> brings a session's part of the table to the
  list of inodes that the client sends, with a binary search in the sorted list and a bit mask for
  the inodes it already had. The theory gives the model and its correctness against a set of pairs.
\<close>

unbundle bit_operations_syntax

subsection \<open>Data\<close>

text \<open>A node; \<open>o_id\<close> stands for its address. Its fields never change.\<close>

record ofrelation =
  o_id :: nat
  o_sessionid :: u32
  o_inode :: u32

text \<open>The two hash tables, the next address, and the size of the static bit mask of \<^verbatim>\<open>of_sync\<close>
  (zero before it is allocated).\<close>

record ofstate =
  of_next :: nat
  of_sessionhash :: "nat \<Rightarrow> ofrelation list"
  of_inodehash :: "nat \<Rightarrow> ofrelation list"
  of_bitmasksize :: u32

record lockstate =
  ls_open :: ofstate
  ls_flock :: ftable
  ls_posix :: ptable

definition OF_INODE_HASHSIZE :: nat where "OF_INODE_HASHSIZE = 65536"
definition OF_SESSION_HASHSIZE :: nat where "OF_SESSION_HASHSIZE = 4096"

definition OF_INODE_HASH :: "u32 \<Rightarrow> nat" where
  "OF_INODE_HASH inode = unat inode mod OF_INODE_HASHSIZE"

definition OF_SESSION_HASH :: "u32 \<Rightarrow> nat" where
  "OF_SESSION_HASH sessionid = unat sessionid mod OF_SESSION_HASHSIZE"

definition of_init :: ofstate where
  "of_init = \<lparr>of_next = 0, of_sessionhash = (\<lambda>_. []), of_inodehash = (\<lambda>_. []), of_bitmasksize = 0\<rparr>"

subsection \<open>Nodes\<close>

definition of_newnode :: "ofstate \<Rightarrow> u32 \<Rightarrow> u32 \<Rightarrow> ofstate" where
  "of_newnode st sessionid inode =
     (let shashpos = OF_SESSION_HASH sessionid; ihashpos = OF_INODE_HASH inode;
          ofr = \<lparr>o_id = of_next st, o_sessionid = sessionid, o_inode = inode\<rparr>
      in st\<lparr>of_next := Suc (of_next st),
            of_inodehash := (of_inodehash st)(ihashpos := ofr # of_inodehash st ihashpos),
            of_sessionhash := (of_sessionhash st)(shashpos := ofr # of_sessionhash st shashpos)\<rparr>)"

text \<open>Unlinking a node from its two chains.\<close>

definition of_unlink :: "ofstate \<Rightarrow> ofrelation \<Rightarrow> ofstate" where
  "of_unlink st ofr =
     (let shashpos = OF_SESSION_HASH (o_sessionid ofr); ihashpos = OF_INODE_HASH (o_inode ofr)
      in st\<lparr>of_inodehash := (of_inodehash st)(ihashpos :=
              filter (\<lambda>x. o_id x \<noteq> o_id ofr) (of_inodehash st ihashpos)),
            of_sessionhash := (of_sessionhash st)(shashpos :=
              filter (\<lambda>x. o_id x \<noteq> o_id ofr) (of_sessionhash st shashpos))\<rparr>)"

definition of_delnode :: "u8 \<Rightarrow> lockstate \<Rightarrow> ofrelation \<Rightarrow> lockstate \<times> out_event list" where
  "of_delnode mode ls ofr =
     (let (ft, ev1) = flock_file_closed mode (ls_flock ls) (o_sessionid ofr) (o_inode ofr);
          (pt, ev2) = posix_lock_file_closed (ls_posix ls) (o_sessionid ofr) (o_inode ofr)
      in (\<lparr>ls_open = of_unlink (ls_open ls) ofr, ls_flock = ft, ls_posix = pt\<rparr>, ev1 @ ev2))"

definition of_checknode :: "ofstate \<Rightarrow> u32 \<Rightarrow> u32 \<Rightarrow> bool" where
  "of_checknode st sessionid inode =
     list_ex (\<lambda>ofr. o_sessionid ofr = sessionid \<and> o_inode ofr = inode)
       (of_inodehash st (OF_INODE_HASH inode))"

subsection \<open>The binary search\<close>

text \<open>
  The loop of \<^verbatim>\<open>of_bisearch\<close> with its \<^verbatim>\<open>int32_t\<close> variables. A result \<^const>\<open>None\<close> means that the
  loop does not end, reads outside of the array, or overflows a signed variable; the conversion of
  the unsigned \<open>n - 1\<close> to a signed value wraps around.
\<close>

definition s32_add :: "int \<Rightarrow> int \<Rightarrow> int option" where
  "s32_add a b = (if - (2 ^ 31) \<le> a + b \<and> a + b < 2 ^ 31 then Some (a + b) else None)"

partial_function (option) of_bisearch_loop :: "u32 \<Rightarrow> u32 list \<Rightarrow> int \<Rightarrow> int \<Rightarrow> int option" where
  "of_bisearch_loop search array lo hi =
     Option.bind (s32_add lo hi) (\<lambda>sum.
     let middle = sum sdiv 2
     in if lo \<le> hi then
          (if middle < 0 \<or> int (length array) \<le> middle then None
           else if array ! nat middle < search
           then Option.bind (s32_add middle 1) (\<lambda>lo'. of_bisearch_loop search array lo' hi)
           else if array ! nat middle > search
           then Option.bind (s32_add middle (- 1)) (\<lambda>hi'. of_bisearch_loop search array lo hi')
           else Some middle)
        else Some (- 1))"

definition of_bisearch :: "u32 \<Rightarrow> u32 list \<Rightarrow> int option" where
  "of_bisearch search array =
     of_bisearch_loop search array 0 (sint (word_of_nat (length array) - 1 :: u32))"

subsection \<open>The bit mask\<close>

definition bitmask_set :: "u32 list \<Rightarrow> nat \<Rightarrow> u32 list" where
  "bitmask_set bits i = bits[i div 32 := bits ! (i div 32) OR push_bit (i mod 32) 1]"

definition bitmask_get :: "u32 list \<Rightarrow> nat \<Rightarrow> bool" where
  "bitmask_get bits i \<longleftrightarrow> bits ! (i div 32) AND push_bit (i mod 32) 1 \<noteq> 0"

definition of_bitmask_alloc :: "u32 \<Rightarrow> u32 \<Rightarrow> u32" where
  "of_bitmask_alloc bsize inodecnt =
     (if inodecnt > bsize * 32 \<or> bsize = 0 then (inodecnt + 31) div 32 + 10 else bsize)"

subsection \<open>Bringing a session up to date\<close>

text \<open>The loop over the session's nodes: what is not in the list is closed, the rest is marked.\<close>

fun of_sync_close ::
  "u8 \<Rightarrow> u32 \<Rightarrow> u32 list \<Rightarrow> lockstate \<Rightarrow> u32 list \<Rightarrow> ofrelation list
     \<Rightarrow> (lockstate \<times> u32 list \<times> out_event list) option" where
  "of_sync_close mode sessionid inodes ls bits [] = Some (ls, bits, [])"
| "of_sync_close mode sessionid inodes ls bits (ofr # rest) =
     (if o_sessionid ofr = sessionid then
        (case of_bisearch (o_inode ofr) inodes of
           None \<Rightarrow> None
         | Some ipos \<Rightarrow>
             if ipos < 0 then
               (let (ls1, ev1) = of_delnode mode ls ofr in
                case of_sync_close mode sessionid inodes ls1 bits rest of
                  None \<Rightarrow> None
                | Some (ls2, bits2, ev2) \<Rightarrow>
                    Some (ls2, bits2, ev1 @ Changelog (RELEASE sessionid (o_inode ofr)) # ev2))
             else of_sync_close mode sessionid inodes ls (bitmask_set bits (nat ipos)) rest)
      else of_sync_close mode sessionid inodes ls bits rest)"

text \<open>The loop over the list: what is not marked is opened.\<close>

fun of_sync_open :: "u32 \<Rightarrow> u32 list \<Rightarrow> ofstate \<Rightarrow> nat \<Rightarrow> u32 list \<Rightarrow> ofstate \<times> out_event list" where
  "of_sync_open sessionid bits st i [] = (st, [])"
| "of_sync_open sessionid bits st i (inode # inodes) =
     (if \<not> bitmask_get bits i then
        (let (st1, ev) = of_sync_open sessionid bits (of_newnode st sessionid inode) (Suc i) inodes
         in (st1, Changelog (ACQUIRE sessionid inode) # ev))
      else of_sync_open sessionid bits st (Suc i) inodes)"

definition of_sync :: "u8 \<Rightarrow> lockstate \<Rightarrow> u32 \<Rightarrow> u32 list \<Rightarrow> (lockstate \<times> out_event list) option" where
  "of_sync mode ls sessionid inodes0 =
     (let bsize = of_bitmask_alloc (of_bitmasksize (ls_open ls)) (word_of_nat (length inodes0));
          ls0 = ls\<lparr>ls_open := (ls_open ls)\<lparr>of_bitmasksize := bsize\<rparr>\<rparr>;
          bits = replicate (unat bsize) 0;
          inodes = sort inodes0
      in case of_sync_close mode sessionid inodes ls0 bits
                (of_sessionhash (ls_open ls0) (OF_SESSION_HASH sessionid)) of
           None \<Rightarrow> None
         | Some (ls1, bits1, ev1) \<Rightarrow>
             (let (st, ev2) = of_sync_open sessionid bits1 (ls_open ls1) 0 inodes
              in Some (ls1\<lparr>ls_open := st\<rparr>, ev1 @ ev2)))"

subsection \<open>The other operations\<close>

definition of_openfile :: "ofstate \<Rightarrow> u32 \<Rightarrow> u32 \<Rightarrow> ofstate \<times> out_event list" where
  "of_openfile st sessionid inode =
     (if \<not> of_checknode st sessionid inode
      then (of_newnode st sessionid inode, [Changelog (ACQUIRE sessionid inode)])
      else (st, []))"

fun of_del_session :: "u8 \<Rightarrow> u32 \<Rightarrow> lockstate \<Rightarrow> ofrelation list \<Rightarrow> lockstate \<times> out_event list" where
  "of_del_session mode sessionid ls [] = (ls, [])"
| "of_del_session mode sessionid ls (ofr # rest) =
     (if o_sessionid ofr = sessionid then
        (let (ls1, ev1) = of_delnode mode ls ofr; (ls2, ev2) = of_del_session mode sessionid ls1 rest
         in (ls2, ev1 @ ev2))
      else of_del_session mode sessionid ls rest)"

definition of_session_removed :: "u8 \<Rightarrow> lockstate \<Rightarrow> u32 \<Rightarrow> lockstate \<times> out_event list" where
  "of_session_removed mode ls sessionid =
     of_del_session mode sessionid ls (of_sessionhash (ls_open ls) (OF_SESSION_HASH sessionid))"

definition of_sessions_for_inode :: "ofstate \<Rightarrow> u32 \<Rightarrow> u32 list" where
  "of_sessions_for_inode st inode =
     map o_sessionid (filter (\<lambda>ofr. o_inode ofr = inode) (of_inodehash st (OF_INODE_HASH inode)))"

definition of_isfileopen :: "ofstate \<Rightarrow> u32 \<Rightarrow> bool" where
  "of_isfileopen st inode = list_ex (\<lambda>ofr. o_inode ofr = inode) (of_inodehash st (OF_INODE_HASH inode))"

definition of_isfileopened_by_session :: "ofstate \<Rightarrow> u32 \<Rightarrow> u32 \<Rightarrow> bool" where
  "of_isfileopened_by_session st inode sessionid =
     list_ex (\<lambda>ofr. o_inode ofr = inode \<and> o_sessionid ofr = sessionid) (of_inodehash st (OF_INODE_HASH inode))"

text \<open>The counter is a \<^verbatim>\<open>uint32_t\<close>.\<close>

definition of_noofopenedfiles :: "ofstate \<Rightarrow> u32 \<Rightarrow> u32" where
  "of_noofopenedfiles st sessionid =
     fold (\<lambda>ofr cnt. if o_sessionid ofr = sessionid then cnt + 1 else cnt)
       (of_sessionhash st (OF_SESSION_HASH sessionid)) 0"

definition of_mr_acquire :: "ofstate \<Rightarrow> u32 \<Rightarrow> u32 \<Rightarrow> u8 \<times> ofstate \<times> out_event list" where
  "of_mr_acquire st sessionid inode =
     (if of_checknode st sessionid inode then (MFS_ERROR_MISMATCH, st, [])
      else (MFS_STATUS_OK, of_newnode st sessionid inode, [Meta_version_inc]))"

definition of_mr_release :: "u8 \<Rightarrow> lockstate \<Rightarrow> u32 \<Rightarrow> u32 \<Rightarrow> u8 \<times> lockstate \<times> out_event list" where
  "of_mr_release mode ls sessionid inode =
     (case List.find (\<lambda>ofr. o_sessionid ofr = sessionid \<and> o_inode ofr = inode)
             (of_inodehash (ls_open ls) (OF_INODE_HASH inode)) of
        Some ofr \<Rightarrow> (let (ls1, ev) = of_delnode mode ls ofr in (MFS_STATUS_OK, ls1, ev @ [Meta_version_inc]))
      | None \<Rightarrow> (MFS_ERROR_MISMATCH, ls, []))"

text \<open>Replaying changelog lines one after the other, up to the first that is refused.\<close>

fun lock_mr_line :: "u8 \<Rightarrow> lockstate \<Rightarrow> changelog_entry \<Rightarrow> u8 \<times> lockstate \<times> out_event list" where
  "lock_mr_line mode ls (ACQUIRE s i) =
     (let (status, st, ev) = of_mr_acquire (ls_open ls) s i in (status, ls\<lparr>ls_open := st\<rparr>, ev))"
| "lock_mr_line mode ls (RELEASE s i) = of_mr_release mode ls s i"
| "lock_mr_line mode ls (FLOCK i s own c) =
     (let (status, tab, ev) = flock_mr_change (ls_flock ls) i s own c in (status, ls\<lparr>ls_flock := tab\<rparr>, ev))"
| "lock_mr_line mode ls (POSIXLOCK i s own c b e pid) =
     (let (status, tab, ev) = posix_lock_mr_change (ls_posix ls) i s own c b e pid
      in (status, ls\<lparr>ls_posix := tab\<rparr>, ev))"

fun lock_mr_lines :: "u8 \<Rightarrow> lockstate \<Rightarrow> changelog_entry list \<Rightarrow> u8 \<times> lockstate" where
  "lock_mr_lines mode ls [] = (MFS_STATUS_OK, ls)"
| "lock_mr_lines mode ls (e # es) =
     (let (status, ls1, ev) = lock_mr_line mode ls e
      in if status \<noteq> MFS_STATUS_OK then (status, ls1) else lock_mr_lines mode ls1 es)"

subsection \<open>Nodes and the open relation\<close>

abbreviation o_pair :: "ofrelation \<Rightarrow> u32 \<times> u32" where
  "o_pair r \<equiv> (o_sessionid r, o_inode r)"

definition of_nodes :: "ofstate \<Rightarrow> ofrelation set" where
  "of_nodes st = {r. r \<in> set (of_sessionhash st (OF_SESSION_HASH (o_sessionid r)))}"

definition of_rel :: "ofstate \<Rightarrow> (u32 \<times> u32) set" where
  "of_rel st = o_pair ` of_nodes st"

text \<open>Both tables hold the same nodes, each once and in its own chain, at addresses given out before.\<close>

definition of_linked :: "ofstate \<Rightarrow> bool" where
  "of_linked st \<longleftrightarrow>
     (\<forall>h. distinct (of_sessionhash st h) \<and> (\<forall>r \<in> set (of_sessionhash st h). OF_SESSION_HASH (o_sessionid r) = h)) \<and>
     (\<forall>h. distinct (of_inodehash st h) \<and> (\<forall>r \<in> set (of_inodehash st h). OF_INODE_HASH (o_inode r) = h)) \<and>
     (\<forall>r. r \<in> set (of_inodehash st (OF_INODE_HASH (o_inode r))) \<longleftrightarrow> r \<in> of_nodes st) \<and>
     (\<forall>r \<in> of_nodes st. o_id r < of_next st) \<and> inj_on o_id (of_nodes st)"

text \<open>No session has a file open twice, and the bit mask size does not overflow.\<close>

definition of_ok :: "ofstate \<Rightarrow> bool" where
  "of_ok st \<longleftrightarrow> of_linked st \<and> inj_on o_pair (of_nodes st) \<and> of_bitmasksize st \<le> 2 ^ 25 + 10"

lemma session_chain_mem:
  "of_linked st \<Longrightarrow> r \<in> set (of_sessionhash st h) \<longleftrightarrow> r \<in> of_nodes st \<and> OF_SESSION_HASH (o_sessionid r) = h"
  by (auto simp: of_linked_def of_nodes_def)

lemma inode_chain_mem:
  "of_linked st \<Longrightarrow> r \<in> set (of_inodehash st h) \<longleftrightarrow> r \<in> of_nodes st \<and> OF_INODE_HASH (o_inode r) = h"
  by (auto simp: of_linked_def)

lemma of_ok_init: "of_ok of_init" "of_rel of_init = {}"
  by (auto simp: of_ok_def of_linked_def of_nodes_def of_init_def of_rel_def)

lemma nodes_newnode [simp]:
  "of_nodes (of_newnode st s i) = insert \<lparr>o_id = of_next st, o_sessionid = s, o_inode = i\<rparr> (of_nodes st)"
  by (auto simp: of_nodes_def of_newnode_def Let_def)

lemma rel_newnode [simp]: "of_rel (of_newnode st s i) = insert (s, i) (of_rel st)"
  by (simp add: of_rel_def)

lemma linked_newnode:
  assumes "of_linked st"
  shows "of_linked (of_newnode st s i)"
proof -
  let ?n = "\<lparr>o_id = of_next st, o_sessionid = s, o_inode = i\<rparr>"
  have new: "?n \<notin> of_nodes st" using assms by (auto simp: of_linked_def)
  then have "?n \<notin> set (of_sessionhash st h)" "?n \<notin> set (of_inodehash st h)" for h
    using session_chain_mem [OF assms] inode_chain_mem [OF assms] by auto
  moreover have "inj_on o_id (insert ?n (of_nodes st))"
    using assms new by (auto simp: of_linked_def)
  ultimately show ?thesis
    using assms inode_chain_mem [OF assms] unfolding of_linked_def nodes_newnode
    by (auto simp: of_newnode_def Let_def less_Suc_eq)
qed

lemma ok_newnode:
  assumes "of_ok st" "(s, i) \<notin> of_rel st"
  shows "of_ok (of_newnode st s i)"
proof -
  have "inj_on o_pair (insert \<lparr>o_id = of_next st, o_sessionid = s, o_inode = i\<rparr> (of_nodes st))"
    using assms by (auto simp: of_ok_def of_rel_def inj_on_insert)
  then show ?thesis using assms linked_newnode by (simp add: of_ok_def) (simp add: of_newnode_def Let_def)
qed

lemma same_id: "of_linked st \<Longrightarrow> r \<in> of_nodes st \<Longrightarrow> x \<in> of_nodes st \<Longrightarrow> o_id x = o_id r \<longleftrightarrow> x = r"
  by (auto simp: of_linked_def inj_on_def)

lemma nodes_unlink:
  assumes "of_linked st" "r \<in> of_nodes st"
  shows "of_nodes (of_unlink st r) = of_nodes st - {r}"
proof -
  have "x \<in> of_nodes (of_unlink st r) \<longleftrightarrow> x \<in> of_nodes st - {r}" for x
  proof (cases "x \<in> of_nodes st")
    case True
    with same_id [OF assms True] show ?thesis by (auto simp: of_nodes_def of_unlink_def Let_def)
  next
    case False
    then show ?thesis by (auto simp: of_nodes_def of_unlink_def Let_def split: if_splits)
  qed
  then show ?thesis by blast
qed

lemma linked_unlink:
  assumes "of_linked st" "r \<in> of_nodes st"
  shows "of_linked (of_unlink st r)"
proof -
  have "x \<in> set (of_inodehash (of_unlink st r) h) \<longleftrightarrow> x \<in> set (of_inodehash st h) \<and> x \<noteq> r" for x h
    using same_id [OF assms] inode_chain_mem [OF assms(1)] assms(2) by (auto simp: of_unlink_def Let_def)
  moreover have "x \<in> set (of_sessionhash (of_unlink st r) h) \<longleftrightarrow> x \<in> set (of_sessionhash st h) \<and> x \<noteq> r" for x h
    using same_id [OF assms] session_chain_mem [OF assms(1)] assms(2) by (auto simp: of_unlink_def Let_def)
  moreover have "distinct (of_inodehash (of_unlink st r) h)" "distinct (of_sessionhash (of_unlink st r) h)" for h
    using assms(1) by (simp_all add: of_unlink_def of_linked_def Let_def)
  moreover have "of_next (of_unlink st r) = of_next st" by (simp add: of_unlink_def Let_def)
  moreover have "inj_on o_id (of_nodes st - {r})" using assms(1) by (auto simp: of_linked_def inj_on_diff)
  ultimately show ?thesis
    using assms(1) unfolding of_linked_def nodes_unlink [OF assms] by simp
qed

lemma ok_unlink:
  assumes "of_ok st" "r \<in> of_nodes st"
  shows "of_ok (of_unlink st r)" "of_rel (of_unlink st r) = of_rel st - {o_pair r}"
proof -
  have l: "of_linked st" and inj: "inj_on o_pair (of_nodes st)" using assms(1) by (simp_all add: of_ok_def)
  have "of_bitmasksize (of_unlink st r) = of_bitmasksize st" by (simp add: of_unlink_def Let_def)
  then show "of_ok (of_unlink st r)"
    using assms(1) linked_unlink [OF l assms(2)] inj
    by (simp add: of_ok_def nodes_unlink [OF l assms(2)] inj_on_diff)
  show "of_rel (of_unlink st r) = of_rel st - {o_pair r}"
    using inj_on_image_set_diff [OF inj, of "of_nodes st" "{r}"] assms(2)
    by (simp add: of_rel_def nodes_unlink [OF l assms(2)])
qed

subsection \<open>Queries\<close>

lemma checknode_rel: "of_linked st \<Longrightarrow> of_checknode st s i \<longleftrightarrow> (s, i) \<in> of_rel st"
  by (auto simp: of_checknode_def list_ex_iff inode_chain_mem of_rel_def)

lemma isfileopen_rel: "of_linked st \<Longrightarrow> of_isfileopen st i \<longleftrightarrow> (\<exists>s. (s, i) \<in> of_rel st)"
  by (force simp: of_isfileopen_def list_ex_iff inode_chain_mem of_rel_def)

lemma isfileopened_by_session_rel:
  "of_linked st \<Longrightarrow> of_isfileopened_by_session st i s \<longleftrightarrow> (s, i) \<in> of_rel st"
  by (auto simp: of_isfileopened_by_session_def list_ex_iff inode_chain_mem of_rel_def)

lemma sessions_for_inode_rel:
  assumes "of_ok st"
  shows "set (of_sessions_for_inode st i) = {s. (s, i) \<in> of_rel st}" "distinct (of_sessions_for_inode st i)"
proof -
  have l: "of_linked st" and inj: "inj_on o_pair (of_nodes st)" using assms by (simp_all add: of_ok_def)
  show "set (of_sessions_for_inode st i) = {s. (s, i) \<in> of_rel st}"
    by (force simp: of_sessions_for_inode_def inode_chain_mem [OF l] of_rel_def)
  have "inj_on o_sessionid {r \<in> set (of_inodehash st (OF_INODE_HASH i)). o_inode r = i}"
    using inj inode_chain_mem [OF l] by (auto simp: inj_on_def)
  then show "distinct (of_sessions_for_inode st i)"
    using l by (simp add: of_sessions_for_inode_def distinct_map of_linked_def)
qed

lemma fold_count: "fold (\<lambda>x c. if P x then c + 1 else c) xs (a :: u32) = a + word_of_nat (length (filter P xs))"
  by (induction xs arbitrary: a) (auto simp: algebra_simps)

lemma noofopenedfiles_rel:
  assumes "of_ok st"
  shows "of_noofopenedfiles st s = word_of_nat (card {i. (s, i) \<in> of_rel st})"
proof -
  have l: "of_linked st" and inj: "inj_on o_pair (of_nodes st)" using assms by (simp_all add: of_ok_def)
  let ?xs = "filter (\<lambda>r. o_sessionid r = s) (of_sessionhash st (OF_SESSION_HASH s))"
  have "{i. (s, i) \<in> of_rel st} = o_inode ` set ?xs"
    by (force simp: session_chain_mem [OF l] of_rel_def)
  moreover have "inj_on o_inode (set ?xs)"
    using inj session_chain_mem [OF l] by (auto simp: inj_on_def)
  moreover have "distinct ?xs" using l by (simp add: of_linked_def)
  ultimately have "card {i. (s, i) \<in> of_rel st} = length ?xs"
    using distinct_card [of ?xs] by (simp add: card_image)
  then show ?thesis by (simp add: of_noofopenedfiles_def fold_count)
qed

end
