(* ===== verification/Open_Sync.thy ===== *)
theory Open_Sync
  imports Open_Files
begin

text \<open>
  Correctness of \<^verbatim>\<open>of_bisearch\<close>, of the bit mask and of \<^verbatim>\<open>of_sync\<close>, of the removal of a session and of
  the replay of the ACQUIRE and RELEASE lines (\<^verbatim>\<open>mfsmaster/openfiles.c\<close>).
\<close>

unbundle bit_operations_syntax

subsection \<open>The binary search\<close>

definition search_result :: "u32 \<Rightarrow> u32 list \<Rightarrow> int \<Rightarrow> bool" where
  "search_result x arr p \<longleftrightarrow>
     (if p < 0 then p = - 1 \<and> x \<notin> set arr else nat p < length arr \<and> arr ! nat p = x)"

lemma s32_add_small: "- (2 ^ 31) \<le> a + b \<Longrightarrow> a + b < 2 ^ 31 \<Longrightarrow> s32_add a b = Some (a + b)"
  by (simp add: s32_add_def)

lemma sdiv_half: "0 \<le> (a :: int) \<Longrightarrow> a sdiv 2 = a div 2"
  by (cases "a = 0") (simp_all add: signed_divide_int_def)

lemma bisearch_loop:
  assumes "sorted arr" "length arr \<le> 2 ^ 30" "0 \<le> lo" "lo \<le> hi + 1" "hi < int (length arr)"
    and "\<And>j. j < length arr \<Longrightarrow> int j < lo \<Longrightarrow> arr ! j < x"
    and "\<And>j. j < length arr \<Longrightarrow> hi < int j \<Longrightarrow> x < arr ! j"
  shows "\<exists>p. of_bisearch_loop x arr lo hi = Some p \<and> search_result x arr p"
  using assms(3-)
proof (induction "nat (hi + 1 - lo)" arbitrary: lo hi rule: less_induct)
  case less
  have len: "int (length arr) \<le> 2 ^ 30" using assms(2) by (simp add: le_nat_iff flip: of_nat_le_iff)
  have sum: "s32_add lo hi = Some (lo + hi)" using less.prems len by (intro s32_add_small) auto
  show ?case
  proof (cases "lo \<le> hi")
    case False
    have "x \<notin> set arr"
    proof
      assume "x \<in> set arr"
      then obtain j where "j < length arr" "arr ! j = x" by (auto simp: in_set_conv_nth)
      with less.prems(4,5) [of j] False show False by (cases "int j < lo") auto
    qed
    with False sum show ?thesis
      by (subst of_bisearch_loop.simps) (simp add: search_result_def)
  next
    case True
    define m where "m = (lo + hi) div 2"
    have m: "lo \<le> m" "m \<le> hi" "(lo + hi) sdiv 2 = m"
      using True less.prems(1) by (auto simp: m_def sdiv_half)
    have nm: "nat m < length arr" "int (nat m) = m" using m less.prems by auto
    have le: "arr ! i \<le> arr ! j" if "i \<le> j" "j < length arr" for i j
      using sorted_nth_mono [OF assms(1) that] .
    consider "arr ! nat m < x" | "arr ! nat m > x" | "arr ! nat m = x" by fastforce
    then show ?thesis
    proof cases
      case 1
      have "arr ! j < x" if "j < length arr" "int j < m + 1" for j
        using le [of j "nat m"] that nm 1 by auto
      from less.hyps [of hi "m + 1"] m less.prems this
      have "\<exists>p. of_bisearch_loop x arr (m + 1) hi = Some p \<and> search_result x arr p" by simp
      moreover have "s32_add m 1 = Some (m + 1)" using m less.prems len by (intro s32_add_small) auto
      ultimately show ?thesis
        using 1 sum m nm True less.prems by (subst of_bisearch_loop.simps) (simp add: Let_def)
    next
      case 2
      have "x < arr ! j" if "j < length arr" "m - 1 < int j" for j
        using le [of "nat m" j] that nm 2 by auto
      from less.hyps [of "m - 1" lo] m less.prems this
      have "\<exists>p. of_bisearch_loop x arr lo (m - 1) = Some p \<and> search_result x arr p" by simp
      moreover have "s32_add m (- 1) = Some (m - 1)" using m less.prems len by (simp add: s32_add_def)
      ultimately show ?thesis
        using 2 sum m nm True less.prems by (subst of_bisearch_loop.simps) (simp add: Let_def ord_simps)
    next
      case 3
      then show ?thesis
        using sum m nm True less.prems by (subst of_bisearch_loop.simps) (simp add: Let_def search_result_def)
    qed
  qed
qed

lemma bisearch_total:
  assumes "sorted arr" "length arr \<le> 2 ^ 30"
  obtains p where "of_bisearch x arr = Some p" "search_result x arr p"
proof -
  have "sint (word_of_nat (length arr) - 1 :: u32) = int (length arr) - 1"
  proof (cases "length arr")
    case (Suc n)
    then show ?thesis using assms(2) by (simp add: signed_take_bit_int_eq_self sint_uint uint_nat unat_of_nat)
  qed simp
  then show thesis using bisearch_loop [OF assms, of 0 "int (length arr) - 1" x] that
    by (auto simp: of_bisearch_def)
qed

subsection \<open>The bit mask\<close>

lemma get_set:
  assumes "i < 32 * length bits" "j < 32 * length bits"
  shows "bitmask_get (bitmask_set bits i) j \<longleftrightarrow> j = i \<or> bitmask_get bits j"
proof -
  have bit: "bitmask_get b j \<longleftrightarrow> bit (b ! (j div 32)) (j mod 32)" for b j
  proof -
    have "b ! (j div 32) AND push_bit (j mod 32) 1 = (if bit (b ! (j div 32)) (j mod 32) then push_bit (j mod 32) 1 else 0)"
      by (rule bit_word_eqI) (auto simp: bit_simps)
    moreover have "push_bit (j mod 32) (1 :: u32) \<noteq> 0" by (simp add: push_bit_eq_mult unsigned_eq_0_iff) 
    ultimately show ?thesis by (simp add: bitmask_get_def)
  qed
  have d: "i div 32 < length bits" "j div 32 < length bits" using assms by auto
  have "j = i \<longleftrightarrow> j div 32 = i div 32 \<and> j mod 32 = i mod 32" by (metis div_mult_mod_eq)
  then show ?thesis
    using d by (auto simp: bit bitmask_set_def nth_list_update bit_simps)
qed

lemma length_bitmask_set [simp]: "length (bitmask_set bits i) = length bits"
  by (simp add: bitmask_set_def)

lemma get_empty: "i < 32 * n \<Longrightarrow> \<not> bitmask_get (replicate n 0) i"
  by (simp add: bitmask_get_def)

lemma bitmask_alloc:
  assumes "b \<le> 2 ^ 25 + 10" "n \<le> 2 ^ 30"
  shows "of_bitmask_alloc b n \<le> 2 ^ 25 + 10" "unat n \<le> 32 * unat (of_bitmask_alloc b n)"
proof -
  have "unat (b * 32) = unat b * 32" "unat (n + 31) = unat n + 31"
    using assms by (simp_all add: word_le_nat_alt unat_mult_lem [THEN iffD1] unat_add_lem [THEN iffD1])
  moreover from this have "unat ((n + 31) div 32 + 10) = (unat n + 31) div 32 + 10"
    using assms by (subst unat_add_lem [THEN iffD1]) (auto simp: unat_div word_le_nat_alt)
  ultimately show "of_bitmask_alloc b n \<le> 2 ^ 25 + 10" "unat n \<le> 32 * unat (of_bitmask_alloc b n)"
    using assms by (auto simp: of_bitmask_alloc_def word_le_nat_alt word_less_nat_alt)
qed

subsection \<open>Changelog lines of the open-file table\<close>

fun open_line :: "changelog_entry \<Rightarrow> bool" where
  "open_line (ACQUIRE s i) = True"
| "open_line (RELEASE s i) = True"
| "open_line _ = False"

definition open_lines :: "out_event list \<Rightarrow> changelog_entry list" where
  "open_lines ev = filter open_line (changelog_of ev)"

lemma open_lines_simps [simp]:
  "open_lines [] = []" "open_lines (xs @ ys) = open_lines xs @ open_lines ys"
  "open_lines (Changelog e # xs) = (if open_line e then e # open_lines xs else open_lines xs)"
  by (simp_all add: open_lines_def)

lemma open_lines_Nil: "open_lines ev = [] \<longleftrightarrow> (\<forall>e. Changelog e \<in> set ev \<longrightarrow> \<not> open_line e)"
  by (induction ev rule: changelog_of.induct) (auto simp: open_lines_def)

lemma open_lines_wake_ups [simp]:
  "open_lines (Flock_wake_up c m st # xs) = open_lines xs" "open_lines (Posix_wake_up c m st # xs) = open_lines xs"
  "open_lines (Abort msg # xs) = open_lines xs" "open_lines (Meta_version_inc # xs) = open_lines xs"
  by (simp_all add: open_lines_def)

lemma open_lines_activate [simp]: "open_lines (snd (flock_activate il l)) = []"
  by (auto simp: flock_activate_def flock_lock_wake_up_all_def flock_lock_inode_attach_def Let_def
      flock_wake_up_def open_lines_Nil split: option.splits)

lemma open_lines_grant [simp]:
  "open_lines (snd (snd (flock_grant_linux il ls))) = []" "open_lines (snd (snd (flock_grant_prefix il ls))) = []"
  by (induction ls arbitrary: il) (simp_all add: Let_def split_def)

lemma open_lines_check_waiting [simp]: "open_lines (snd (flock_lock_check_waiting mode il)) = []"
  by (simp add: flock_lock_check_waiting_def Let_def split_def split: list.split)

lemma open_lines_unlock [simp]: "open_lines (snd (flock_lock_unlock mode il rest l)) = []"
  by (simp add: flock_lock_unlock_def flock_lock_remove_log_def Let_def split_def)

lemma open_lines_flock_closed [simp]: "open_lines (snd (flock_file_closed mode tab ses inode)) = []"
proof -
  have act: "open_lines (snd (flock_close_active mode ses il kept ls)) = []" for il kept ls
    by (induction ls arbitrary: il kept) (simp_all add: Let_def split_def)
  have "open_lines (snd (flock_put_back tab il c)) = []" for il c
    by (auto simp: flock_put_back_def flock_inode_remove_def Let_def open_lines_Nil)
  moreover have "open_lines (concat (map (flock_lock_remove_log i) ls)) = []" for i ls
    by (auto simp: flock_lock_remove_log_def open_lines_Nil)
  ultimately show ?thesis
    by (simp add: flock_file_closed_def Let_def split_def act split: option.split)
qed

lemma open_lines_posix_closed [simp]: "open_lines (snd (posix_lock_file_closed tab ses inode)) = []"
proof -
  have "open_lines (snd (snd (posix_lock_drop_session ses als))) = []" for als
    by (induction als) (simp_all add: Let_def split_def)
  moreover have "open_lines (snd (snd (posix_lock_grant i act wls))) = []" for i act wls
    by (induction i act wls rule: posix_lock_grant.induct) (simp_all add: Let_def split_def posix_lock_apply_lock_def)
  moreover have "open_lines (snd (posix_lock_inode_remove tab i)) = []" for tab i
    by (auto simp: posix_lock_inode_remove_def Let_def open_lines_Nil)
  ultimately show ?thesis
    by (simp add: posix_lock_file_closed_def posix_lock_check_waiting_def Let_def split_def split: option.split)
qed

lemma delnode_open [simp]:
  "ls_open (fst (of_delnode mode ls r)) = of_unlink (ls_open ls) r" "open_lines (snd (of_delnode mode ls r)) = []"
  by (simp_all add: of_delnode_def Let_def split_def)

subsection \<open>The two loops of of\_sync\<close>

definition of_session_inodes :: "u32 \<Rightarrow> ofrelation list \<Rightarrow> u32 list" where
  "of_session_inodes s rs = map o_inode (filter (\<lambda>r. o_sessionid r = s) rs)"

lemma session_inodes_simps [simp]:
  "of_session_inodes s [] = []"
  "of_session_inodes s (r # rs) = (if o_sessionid r = s then [o_inode r] else []) @ of_session_inodes s rs"
  by (simp_all add: of_session_inodes_def)

definition sync_closed :: "u32 \<Rightarrow> u32 list \<Rightarrow> ofrelation list \<Rightarrow> u32 list" where
  "sync_closed s inodes rs = filter (\<lambda>i. i \<notin> set inodes) (of_session_inodes s rs)"

lemma sync_close:
  assumes "sorted inodes" "distinct inodes" "length inodes \<le> 2 ^ 30" "length inodes \<le> 32 * length bits"
    and "of_ok (ls_open ls)" "set rs \<subseteq> of_nodes (ls_open ls)" "distinct rs"
  shows "\<exists>ls' bits' ev. of_sync_close mode s inodes ls bits rs = Some (ls', bits', ev) \<and>
    of_ok (ls_open ls') \<and> of_rel (ls_open ls') = of_rel (ls_open ls) - Pair s ` set (sync_closed s inodes rs) \<and>
    length bits' = length bits \<and>
    (\<forall>j < length inodes. bitmask_get bits' j \<longleftrightarrow> bitmask_get bits j \<or> inodes ! j \<in> set (of_session_inodes s rs)) \<and>
    open_lines ev = map (RELEASE s) (sync_closed s inodes rs)"
  using assms(4-)
proof (induction rs arbitrary: ls bits)
  case Nil
  then show ?case by (simp add: sync_closed_def)
next
  case (Cons r rs)
  note prems = Cons.prems
  show ?case
  proof (cases "o_sessionid r = s")
    case False
    with Cons.IH [OF prems(1,2)] prems(3,4) show ?thesis by (simp add: sync_closed_def)
  next
    case True
    obtain p where p: "of_bisearch (o_inode r) inodes = Some p" "search_result (o_inode r) inodes p"
      using bisearch_total [OF assms(1,3)] .
    show ?thesis
    proof (cases "p < 0")
      case neg: True
      let ?ls = "fst (of_delnode mode ls r)"
      have r: "r \<in> of_nodes (ls_open ls)" using prems(3) by simp
      have l: "of_linked (ls_open ls)" using prems(2) by (simp add: of_ok_def)
      have "set rs \<subseteq> of_nodes (ls_open ?ls)"
        using prems(3,4) by (auto simp: nodes_unlink [OF l r])
      from Cons.IH [OF prems(1) _ this] obtain ls' bits' ev where
        "of_sync_close mode s inodes ?ls bits rs = Some (ls', bits', ev)"
        "of_ok (ls_open ls')" "of_rel (ls_open ls') = of_rel (ls_open ?ls) - Pair s ` set (sync_closed s inodes rs)"
        "length bits' = length bits"
        "\<forall>j < length inodes. bitmask_get bits' j \<longleftrightarrow> bitmask_get bits j \<or> inodes ! j \<in> set (of_session_inodes s rs)"
        "open_lines ev = map (RELEASE s) (sync_closed s inodes rs)"
        using ok_unlink [OF prems(2) r] prems(4) by auto
      moreover have "o_inode r \<notin> set inodes" using p(2) neg by (simp add: search_result_def)
      moreover from this have "inodes ! j \<noteq> o_inode r" if "j < length inodes" for j using that nth_mem by metis
      ultimately show ?thesis
        using p neg True ok_unlink(2) [OF prems(2) r]
        by (auto simp: Let_def split_def sync_closed_def)
    next
      case pos: False
      then have at: "nat p < length inodes" "inodes ! nat p = o_inode r" using p(2) by (simp_all add: search_result_def)
      then have mem: "o_inode r \<in> set inodes" using nth_mem by metis
      have same: "inodes ! j = o_inode r \<longleftrightarrow> j = nat p" if "j < length inodes" for j
        using at that assms(2) nth_eq_iff_index_eq by metis
      have "bitmask_get (bitmask_set bits (nat p)) j \<longleftrightarrow> bitmask_get bits j \<or> inodes ! j = o_inode r"
        if "j < length inodes" for j
        using get_set [of "nat p" bits j] at(1) that prems(1) same [OF that] by auto
      with Cons.IH [of "bitmask_set bits (nat p)" ls] prems p pos True mem show ?thesis
        by (auto simp: sync_closed_def)
    qed
  qed
qed

lemma sync_open:
  assumes "of_ok st" "distinct inodes"
    and "\<And>j. j < length inodes \<Longrightarrow> bitmask_get bits (k + j) \<longleftrightarrow> (s, inodes ! j) \<in> of_rel st"
    and "of_sync_open s bits st k inodes = (st', ev)"
  shows "of_ok st' \<and> of_rel st' = of_rel st \<union> Pair s ` set inodes \<and>
    changelog_of ev = map (ACQUIRE s) (filter (\<lambda>i. (s, i) \<notin> of_rel st) inodes)"
  using assms
proof (induction inodes arbitrary: st k ev)
  case (Cons i inodes)
  have get: "bitmask_get bits k \<longleftrightarrow> (s, i) \<in> of_rel st" using Cons.prems(3) [of 0] by simp
  have rest: "bitmask_get bits (Suc k + j) \<longleftrightarrow> (s, inodes ! j) \<in> of_rel st" if "j < length inodes" for j
    using Cons.prems(3) [of "Suc j"] that by simp
  have i: "i \<notin> set inodes" using Cons.prems(2) by simp
  show ?case
  proof (cases "(s, i) \<in> of_rel st")
    case True
    with Cons.IH [OF Cons.prems(1) _ rest] Cons.prems(2,4) get show ?thesis by auto
  next
    case False
    obtain ev1 where ev1: "of_sync_open s bits (of_newnode st s i) (Suc k) inodes = (st', ev1)"
      "ev = Changelog (ACQUIRE s i) # ev1"
      using Cons.prems(4) get False by (auto simp: Let_def split: prod.splits)
    have new: "inodes ! j \<noteq> i" if "j < length inodes" for j using i that nth_mem by metis
    have "bitmask_get bits (Suc k + j) \<longleftrightarrow> (s, inodes ! j) \<in> of_rel (of_newnode st s i)" if "j < length inodes" for j
      using rest [OF that] new [OF that] by simp
    from Cons.IH [OF ok_newnode [OF Cons.prems(1) False] _ this ev1(1)] Cons.prems(2)
    have "of_ok st' \<and> of_rel st' = insert (s, i) (of_rel st) \<union> Pair s ` set inodes \<and>
      changelog_of ev1 = map (ACQUIRE s) (filter (\<lambda>x. (s, x) \<notin> insert (s, i) (of_rel st)) inodes)" by simp
    moreover have "filter (\<lambda>x. (s, x) \<notin> insert (s, i) (of_rel st)) inodes = filter (\<lambda>x. (s, x) \<notin> of_rel st) inodes"
      using i by (intro filter_cong) auto
    ultimately show ?thesis using False ev1(2) by auto
  qed
qed simp

subsection \<open>The whole synchronisation\<close>

text \<open>The inodes that a session has open, in the order of its chain.\<close>

definition session_list :: "ofstate \<Rightarrow> u32 \<Rightarrow> u32 list" where
  "session_list st s = of_session_inodes s (of_sessionhash st (OF_SESSION_HASH s))"

lemma set_session_list: "of_linked st \<Longrightarrow> set (session_list st s) = {i. (s, i) \<in> of_rel st}"
  by (force simp: session_list_def of_session_inodes_def session_chain_mem of_rel_def)

lemma set_bitmasksize [simp]:
  "of_nodes (st\<lparr>of_bitmasksize := b\<rparr>) = of_nodes st" "of_rel (st\<lparr>of_bitmasksize := b\<rparr>) = of_rel st"
  "of_linked (st\<lparr>of_bitmasksize := b\<rparr>) = of_linked st"
proof -
  show n: "of_nodes (st\<lparr>of_bitmasksize := b\<rparr>) = of_nodes st" by (simp add: of_nodes_def)
  then show "of_rel (st\<lparr>of_bitmasksize := b\<rparr>) = of_rel st" by (simp add: of_rel_def)
  from n show "of_linked (st\<lparr>of_bitmasksize := b\<rparr>) = of_linked st" by (simp add: of_linked_def)
qed

lemma session_chain_nodes:
  assumes "of_linked st"
  shows "set (of_sessionhash st h) \<subseteq> of_nodes st" "distinct (of_sessionhash st h)"
  using assms session_chain_mem [OF assms] by (blast, simp add: of_linked_def)

text \<open>The state after the closing loop.\<close>

lemma sync_closing:
  assumes ok: "of_ok st" and inodes: "distinct inodes" "length inodes \<le> 2 ^ 30"
    and b: "b = of_bitmask_alloc (of_bitmasksize st) (word_of_nat (length inodes))"
    and ls: "ls_open ls = st\<lparr>of_bitmasksize := b\<rparr>"
  obtains ls1 bits1 ev1 where
    "of_sync_close mode s (sort inodes) ls (replicate (unat b) 0) (of_sessionhash st (OF_SESSION_HASH s)) =
       Some (ls1, bits1, ev1)"
    "of_ok (ls_open ls1)" "of_rel (ls_open ls1) = of_rel st - Pair s ` ({i. (s, i) \<in> of_rel st} - set inodes)"
    "\<And>j. j < length inodes \<Longrightarrow> bitmask_get bits1 j \<longleftrightarrow> (s, sort inodes ! j) \<in> of_rel st"
    "open_lines ev1 = map (RELEASE s) (filter (\<lambda>i. i \<notin> set inodes) (session_list st s))"
proof -
  let ?rs = "of_sessionhash st (OF_SESSION_HASH s)" and ?ino = "sort inodes"
  have n: "unat (word_of_nat (length inodes) :: u32) = length inodes"
    using inodes(2) by (simp add: unat_of_nat)
  have bs: "b \<le> 2 ^ 25 + 10" "length inodes \<le> 32 * unat b"
    using bitmask_alloc [of "of_bitmasksize st" "word_of_nat (length inodes)"] ok inodes(2) n
    by (simp_all add: b of_ok_def word_le_nat_alt)
  have l: "of_linked st" using ok by (simp add: of_ok_def)
  have ok0: "of_ok (ls_open ls)" using ok bs(1) by (simp add: ls of_ok_def)
  have rs: "set ?rs \<subseteq> of_nodes (ls_open ls)" using session_chain_nodes(1) [OF l] by (simp add: ls)
  have sl: "of_session_inodes s ?rs = session_list st s" by (simp add: session_list_def)
  have "length ?ino \<le> 2 ^ 30" "length ?ino \<le> 32 * length (replicate (unat b) (0 :: u32))"
    "sorted ?ino" "distinct ?ino" using bs(2) inodes by simp_all
  from sync_close [OF this(3,4,1,2) ok0 rs session_chain_nodes(2) [OF l], of mode s]
  obtain ls1 bits1 ev1 where
    "of_sync_close mode s ?ino ls (replicate (unat b) 0) ?rs = Some (ls1, bits1, ev1)"
    "of_ok (ls_open ls1)" "of_rel (ls_open ls1) = of_rel st - Pair s ` set (sync_closed s ?ino ?rs)"
    "\<And>j. j < length inodes \<Longrightarrow> bitmask_get bits1 j \<longleftrightarrow>
       bitmask_get (replicate (unat b) 0) j \<or> ?ino ! j \<in> set (session_list st s)"
    "open_lines ev1 = map (RELEASE s) (sync_closed s ?ino ?rs)"
    unfolding ls sl by auto
  moreover have "set (sync_closed s ?ino ?rs) = {i. (s, i) \<in> of_rel st} - set inodes"
    using set_session_list [OF l, of s] by (auto simp: sync_closed_def sl)
  moreover have "\<not> bitmask_get (replicate (unat b) 0) j" if "j < length inodes" for j
    using bs(2) that by (intro get_empty) simp
  ultimately show thesis
    using that set_session_list [OF l, of s] by (simp add: sync_closed_def sl)
qed

lemma sync_spec:
  assumes ok: "of_ok (ls_open ls)" and inodes: "distinct inodes" "length inodes \<le> 2 ^ 30"
  obtains ls' ev where "of_sync mode ls s inodes = Some (ls', ev)" "of_ok (ls_open ls')"
    "of_rel (ls_open ls') = {p \<in> of_rel (ls_open ls). fst p \<noteq> s} \<union> Pair s ` set inodes"
    "open_lines ev = map (RELEASE s) (filter (\<lambda>i. i \<notin> set inodes) (session_list (ls_open ls) s)) @
       map (ACQUIRE s) (filter (\<lambda>i. (s, i) \<notin> of_rel (ls_open ls)) (sort inodes))"
proof -
  define b where "b = of_bitmask_alloc (of_bitmasksize (ls_open ls)) (word_of_nat (length inodes))"
  let ?ls = "ls\<lparr>ls_open := (ls_open ls)\<lparr>of_bitmasksize := b\<rparr>\<rparr>" and ?ino = "sort inodes"
  obtain ls1 bits1 ev1 where c:
    "of_sync_close mode s ?ino ?ls (replicate (unat b) 0) (of_sessionhash (ls_open ls) (OF_SESSION_HASH s)) =
       Some (ls1, bits1, ev1)"
    "of_ok (ls_open ls1)"
    "of_rel (ls_open ls1) = of_rel (ls_open ls) - Pair s ` ({i. (s, i) \<in> of_rel (ls_open ls)} - set inodes)"
    "\<And>j. j < length inodes \<Longrightarrow> bitmask_get bits1 j \<longleftrightarrow> (s, ?ino ! j) \<in> of_rel (ls_open ls)"
    "open_lines ev1 = map (RELEASE s) (filter (\<lambda>i. i \<notin> set inodes) (session_list (ls_open ls) s))"
    using sync_closing [OF ok inodes b_def, of ?ls mode s] by auto
  obtain st' ev2 where o: "of_sync_open s bits1 (ls_open ls1) 0 ?ino = (st', ev2)" by fastforce
  have kept: "(s, i) \<in> of_rel (ls_open ls1) \<longleftrightarrow> (s, i) \<in> of_rel (ls_open ls)" if "i \<in> set inodes" for i
    using c(3) that by auto
  have "bitmask_get bits1 (0 + j) \<longleftrightarrow> (s, ?ino ! j) \<in> of_rel (ls_open ls1)" if "j < length ?ino" for j
    using c(4) [of j] that kept [of "?ino ! j"] nth_mem [OF that] by simp
  from sync_open [OF c(2) _ this o] inodes(1)
  have fin: "of_ok st'" "of_rel st' = of_rel (ls_open ls1) \<union> Pair s ` set inodes"
    "changelog_of ev2 = map (ACQUIRE s) (filter (\<lambda>i. (s, i) \<notin> of_rel (ls_open ls1)) ?ino)" by simp_all
  have "filter (\<lambda>i. (s, i) \<notin> of_rel (ls_open ls1)) ?ino = filter (\<lambda>i. (s, i) \<notin> of_rel (ls_open ls)) ?ino"
    using kept by (intro filter_cong) auto
  then have "open_lines ev2 = map (ACQUIRE s) (filter (\<lambda>i. (s, i) \<notin> of_rel (ls_open ls)) ?ino)"
    using fin(3) by (simp add: open_lines_def)
  moreover have "of_sync mode ls s inodes = Some (ls1\<lparr>ls_open := st'\<rparr>, ev1 @ ev2)"
    using c(1) o by (simp add: of_sync_def b_def Let_def)
  moreover have "of_rel st' = {p \<in> of_rel (ls_open ls). fst p \<noteq> s} \<union> Pair s ` set inodes"
    using fin(2) c(3) by auto
  ultimately show thesis using that c(5) fin(1) by simp
qed

subsection \<open>Replay\<close>

lemma replay_releases:
  assumes "of_ok (ls_open ls)" "distinct xs" "\<And>x. x \<in> set xs \<Longrightarrow> (s, x) \<in> of_rel (ls_open ls)"
  shows "\<exists>ls'. lock_mr_lines mode ls (map (RELEASE s) xs @ es) = lock_mr_lines mode ls' es \<and>
    of_ok (ls_open ls') \<and> of_rel (ls_open ls') = of_rel (ls_open ls) - Pair s ` set xs"
  using assms
proof (induction xs arbitrary: ls)
  case (Cons x xs)
  have l: "of_linked (ls_open ls)" using Cons.prems(1) by (simp add: of_ok_def)
  let ?P = "\<lambda>r. o_sessionid r = s \<and> o_inode r = x" and ?chain = "of_inodehash (ls_open ls) (OF_INODE_HASH x)"
  obtain r0 where "r0 \<in> set ?chain" "?P r0"
    using Cons.prems(3) [of x] by (force simp: of_rel_def inode_chain_mem [OF l])
  then obtain r where r: "List.find ?P ?chain = Some r"
    using find_None_iff [of ?P ?chain] by (cases "List.find ?P ?chain") auto
  then have mem: "r \<in> of_nodes (ls_open ls)" "o_pair r = (s, x)"
    using find_mem [OF r] by (auto simp: inode_chain_mem [OF l])
  let ?ls = "fst (of_delnode mode ls r)"
  have ok: "of_ok (ls_open ?ls)" "of_rel (ls_open ?ls) = of_rel (ls_open ls) - {(s, x)}"
    using ok_unlink [OF Cons.prems(1) mem(1)] mem(2) by simp_all
  then have "\<exists>ls'. lock_mr_lines mode ?ls (map (RELEASE s) xs @ es) = lock_mr_lines mode ls' es \<and>
      of_ok (ls_open ls') \<and> of_rel (ls_open ls') = of_rel (ls_open ?ls) - Pair s ` set xs"
    using Cons.prems(2,3) by (intro Cons.IH) auto
  then show ?case using ok(2) r by (auto simp: of_mr_release_def Let_def split_def)
qed auto

lemma replay_acquires:
  assumes "of_ok (ls_open ls)" "distinct xs" "\<And>x. x \<in> set xs \<Longrightarrow> (s, x) \<notin> of_rel (ls_open ls)"
  shows "\<exists>ls'. lock_mr_lines mode ls (map (ACQUIRE s) xs @ es) = lock_mr_lines mode ls' es \<and>
    of_ok (ls_open ls') \<and> of_rel (ls_open ls') = of_rel (ls_open ls) \<union> Pair s ` set xs"
  using assms
proof (induction xs arbitrary: ls)
  case (Cons x xs)
  let ?ls = "ls\<lparr>ls_open := of_newnode (ls_open ls) s x\<rparr>"
  have new: "\<not> of_checknode (ls_open ls) s x"
    using Cons.prems(1,3) by (simp add: checknode_rel of_ok_def)
  have "of_ok (ls_open ?ls)" using ok_newnode Cons.prems(1,3) by simp
  then have "\<exists>ls'. lock_mr_lines mode ?ls (map (ACQUIRE s) xs @ es) = lock_mr_lines mode ls' es \<and>
      of_ok (ls_open ls') \<and> of_rel (ls_open ls') = of_rel (ls_open ?ls) \<union> Pair s ` set xs"
    using Cons.prems(2,3) by (intro Cons.IH) auto
  then show ?case using new by (auto simp: of_mr_acquire_def)
qed auto

lemma distinct_session_list:
  assumes "of_ok st"
  shows "distinct (session_list st s)"
proof -
  have l: "of_linked st" and inj: "inj_on o_pair (of_nodes st)" using assms by (simp_all add: of_ok_def)
  have "inj_on o_inode {r \<in> set (of_sessionhash st (OF_SESSION_HASH s)). o_sessionid r = s}"
    using inj session_chain_mem [OF l] by (auto simp: inj_on_def)
  then show ?thesis
    using session_chain_nodes(2) [OF l] by (simp add: session_list_def of_session_inodes_def distinct_map)
qed

text \<open>Session 5 is synchronised with a list that names file 4 twice.\<close>

theorem repeated_inode_breaks_replay:
  "map_option (\<lambda>(ls, ev). open_lines ev) (of_sync MODE_CORRECT
     \<lparr>ls_open = of_init, ls_flock = flock_init, ls_posix = posix_lock_init\<rparr> 5 [4, 4]) =
     Some [ACQUIRE 5 4, ACQUIRE 5 4]"
  "fst (lock_mr_lines MODE_CORRECT \<lparr>ls_open = of_init, ls_flock = flock_init, ls_posix = posix_lock_init\<rparr>
     [ACQUIRE 5 4, ACQUIRE 5 4]) = MFS_ERROR_MISMATCH"
  by (simp_all add: of_sync_def of_init_def of_bitmask_alloc_def bitmask_get_def of_newnode_def
      of_mr_acquire_def of_checknode_def OF_SESSION_HASH_def Let_def)

subsection \<open>Properties\<close>

text \<open>
  C9. The binary search of \<^verbatim>\<open>of_sync\<close>: on a sorted array of at most \<open>2 ^ 30\<close> inodes \<^verbatim>\<open>of_bisearch\<close> ends,
  with no signed overflow and no access outside of the array, and returns a position of the inode
  or, exactly when the inode is not there, the number -1.
\<close>

theorem of_bisearch_correct:
  assumes "sorted arr" "length arr \<le> 2 ^ 30"
  shows "\<exists>p. of_bisearch x arr = Some p \<and> (p < 0 \<longleftrightarrow> x \<notin> set arr) \<and>
    (x \<notin> set arr \<longrightarrow> p = - 1) \<and> (0 \<le> p \<longrightarrow> p < int (length arr) \<and> arr ! nat p = x)"
proof -
  obtain p where "of_bisearch x arr = Some p" "search_result x arr p" using bisearch_total [OF assms] .
  moreover from this(2) have "(p < 0 \<longleftrightarrow> x \<notin> set arr) \<and> (x \<notin> set arr \<longrightarrow> p = - 1) \<and>
      (0 \<le> p \<longrightarrow> p < int (length arr) \<and> arr ! nat p = x)"
    using nth_mem [of "nat p" arr] by (auto simp: search_result_def zless_nat_eq_int_zless split: if_splits)
  ultimately show ?thesis by blast
qed

theorem of_bisearch_correct_witness:
  "\<exists>p. of_bisearch 7 [3, 5, 7, 9] = Some p \<and> \<not> p < 0 \<and> [3, 5, 7, 9 :: u32] ! nat p = 7"
  using of_bisearch_correct [of "[3, 5, 7, 9]" 7] by auto

text \<open>
  C10. Synchronising a session: \<^verbatim>\<open>of_sync\<close> ends for every list of different inodes; then the session has
  exactly these inodes open, what other sessions have open is unchanged, and the invariant of the two
  hash tables holds. Each file that was open and is not in the list is released and each file of the
  list that was not open is acquired, in the changelog once and nothing else.
\<close>

theorem of_sync_correct:
  assumes "of_ok (ls_open ls)" "distinct inodes" "length inodes \<le> 2 ^ 30"
  shows "\<exists>ls' ev. of_sync mode ls s inodes = Some (ls', ev) \<and> of_ok (ls_open ls') \<and>
    (\<forall>t i. of_checknode (ls_open ls') t i \<longleftrightarrow>
       (if t = s then i \<in> set inodes else of_checknode (ls_open ls) t i)) \<and>
    mset (open_lines ev) =
      image_mset (RELEASE s) (mset_set {i. of_checknode (ls_open ls) s i \<and> i \<notin> set inodes}) +
      image_mset (ACQUIRE s) (mset_set {i. i \<in> set inodes \<and> \<not> of_checknode (ls_open ls) s i})"
proof -
  obtain ls' ev where r: "of_sync mode ls s inodes = Some (ls', ev)" "of_ok (ls_open ls')"
    "of_rel (ls_open ls') = {p \<in> of_rel (ls_open ls). fst p \<noteq> s} \<union> Pair s ` set inodes"
    "open_lines ev = map (RELEASE s) (filter (\<lambda>i. i \<notin> set inodes) (session_list (ls_open ls) s)) @
       map (ACQUIRE s) (filter (\<lambda>i. (s, i) \<notin> of_rel (ls_open ls)) (sort inodes))"
    using sync_spec [OF assms] .
  have l: "of_linked (ls_open ls)" "of_linked (ls_open ls')" using assms(1) r(2) by (simp_all add: of_ok_def)
  have "mset (filter (\<lambda>i. i \<notin> set inodes) (session_list (ls_open ls) s)) =
      mset_set {i. (s, i) \<in> of_rel (ls_open ls) \<and> i \<notin> set inodes}"
    using distinct_session_list [OF assms(1)] set_session_list [OF l(1), of s]
    by (subst mset_set_set [symmetric]) (simp_all)
  moreover have "mset (filter (\<lambda>i. (s, i) \<notin> of_rel (ls_open ls)) (sort inodes)) =
      mset_set {i. i \<in> set inodes \<and> (s, i) \<notin> of_rel (ls_open ls)}"
    using assms(2) by (subst mset_set_set [symmetric]) simp_all
  ultimately show ?thesis
    using r l by (intro exI [of _ ls'] exI [of _ ev]) (auto simp: checknode_rel)
qed

definition opened_by_5 :: lockstate where
  "opened_by_5 = \<lparr>ls_open = of_newnode (of_newnode of_init 5 7) 5 9, ls_flock = flock_init, ls_posix = posix_lock_init\<rparr>"

lemma opened_by_5_ok: "of_ok (ls_open opened_by_5)"
  by (simp add: opened_by_5_def ok_newnode of_ok_init)

theorem of_sync_correct_witness:
  "\<exists>ls' ev. of_sync MODE_CORRECT opened_by_5 5 [9, 4] = Some (ls', ev) \<and>
    (of_checknode (ls_open ls') 5 4 \<and> \<not> of_checknode (ls_open ls') 5 7)"
  using of_sync_correct [OF opened_by_5_ok, of "[9, 4]" MODE_CORRECT 5] by auto

text \<open>
  C11. Replay of the open-file table: when a session is synchronised with a list of different inodes
  (of at most \<open>2 ^ 30\<close>), a replica that has the same files open accepts the ACQUIRE and RELEASE lines
  that \<^verbatim>\<open>of_sync\<close> writes, one after the other, and then has the same files open again. The lines of the
  lock managers that closing a file may put between them are not part of the statement. A list that
  repeats an inode which is not open is excluded: it gives two ACQUIRE lines, and the replica
  refuses the second one (\<open>repeated_inode_breaks_replay\<close>).
\<close>

theorem of_sync_replays:
  assumes "of_ok (ls_open ls)" "distinct inodes" "length inodes \<le> 2 ^ 30"
    and "of_ok (ls_open rep)" "of_rel (ls_open rep) = of_rel (ls_open ls)"
    and "of_sync mode ls s inodes = Some (ls', ev)"
  shows "\<exists>rep'. lock_mr_lines mode rep (open_lines ev) = (MFS_STATUS_OK, rep') \<and>
    of_ok (ls_open rep') \<and> of_rel (ls_open rep') = of_rel (ls_open ls')"
proof -
  let ?out = "filter (\<lambda>i. i \<notin> set inodes) (session_list (ls_open ls) s)"
  let ?in = "filter (\<lambda>i. (s, i) \<notin> of_rel (ls_open ls)) (sort inodes)"
  have r: "of_rel (ls_open ls') = {p \<in> of_rel (ls_open ls). fst p \<noteq> s} \<union> Pair s ` set inodes"
    "open_lines ev = map (RELEASE s) ?out @ map (ACQUIRE s) ?in @ []"
    using sync_spec [OF assms(1-3), of mode s] assms(6) by auto
  have out: "set ?out = {i. (s, i) \<in> of_rel (ls_open ls)} - set inodes"
    using set_session_list [of "ls_open ls" s] assms(1) by (auto simp: of_ok_def)
  obtain rep1 where r1: "lock_mr_lines mode rep (open_lines ev) = lock_mr_lines mode rep1 (map (ACQUIRE s) ?in @ [])"
    "of_ok (ls_open rep1)" "of_rel (ls_open rep1) = of_rel (ls_open ls) - Pair s ` set ?out"
    using replay_releases [OF assms(4), of ?out s mode "map (ACQUIRE s) ?in @ []"] out assms(5)
      distinct_session_list [OF assms(1), of s] unfolding r(2) by auto
  obtain rep' where "lock_mr_lines mode rep1 (map (ACQUIRE s) ?in @ []) = lock_mr_lines mode rep' []"
    "of_ok (ls_open rep')" "of_rel (ls_open rep') = of_rel (ls_open rep1) \<union> Pair s ` set ?in"
    using replay_acquires [OF r1(2), of ?in s mode "[]"] assms(2) unfolding r1(3) by auto
  then show ?thesis using r1 r(1) out by auto
qed

theorem of_sync_replays_witness:
  "\<exists>ls' ev rep'. of_sync MODE_CORRECT opened_by_5 5 [9, 4] = Some (ls', ev) \<and>
    lock_mr_lines MODE_CORRECT opened_by_5 (open_lines ev) = (MFS_STATUS_OK, rep') \<and>
    of_rel (ls_open rep') = of_rel (ls_open ls')"
proof -
  obtain ls' ev where r: "of_sync MODE_CORRECT opened_by_5 5 [9, 4] = Some (ls', ev)"
    using sync_spec [OF opened_by_5_ok, of "[9, 4]" MODE_CORRECT 5 thesis] by auto
  with of_sync_replays [OF opened_by_5_ok _ _ opened_by_5_ok refl r] show ?thesis by auto
qed

end
