(* ===== verification/Lock_Service.thy ===== *)
theory Lock_Service
  imports Open_Sync
begin

text \<open>
  The open-file table and the two lock managers together, as the client operations of
  \<^verbatim>\<open>mfsmaster/matoclserv.c\<close> and the removal of sessions of \<^verbatim>\<open>mfsmaster/sessions.c\<close> drive them: a step relation over the
  joint state and what holds in every reachable state. The packets of a client may hold any POSIX
  request; where a property needs a restriction on them it is an argument of the step relation.
\<close>

subsection \<open>Steps\<close>

definition lock_state_init :: lockstate where
  "lock_state_init = \<lparr>ls_open = of_init, ls_flock = flock_init, ls_posix = posix_lock_init\<rparr>"

definition lock_state_disconnected :: "lockstate \<Rightarrow> connptr \<Rightarrow> lockstate" where
  "lock_state_disconnected ls eptr =
     ls\<lparr>ls_posix := posix_lock_disconnected (ls_posix ls) eptr, ls_flock := flock_disconnected (ls_flock ls) eptr\<rparr>"

text \<open>
  The configured mode of the BSD locks may change between any two steps. The list of a
  synchronisation comes from a packet, so its length is far below the bound; it may hold an inode
  twice. The POSIX requests that arrive satisfy \<open>P\<close>: it is true of all of them where nothing else is said.
\<close>

inductive lock_step :: "(posix_request \<Rightarrow> bool) \<Rightarrow> lockstate \<Rightarrow> out_event list \<Rightarrow> lockstate \<Rightarrow> bool"
  for P where
  step_open: "of_openfile (ls_open ls) s i = (st, ev) \<Longrightarrow> lock_step P ls ev (ls\<lparr>ls_open := st\<rparr>)"
| step_sync: "length inodes \<le> 2 ^ 30 \<Longrightarrow> of_sync mode ls s inodes = Some (ls', ev) \<Longrightarrow> lock_step P ls ev ls'"
| step_session: "of_session_removed mode ls s = (ls', ev) \<Longrightarrow> lock_step P ls ev ls'"
| step_flock: "flock_run mode (of_checknode (ls_open ls)) (ls_flock ls) q = (status, tab, ev) \<Longrightarrow>
    lock_step P ls ev (ls\<lparr>ls_flock := tab\<rparr>)"
| step_posix: "P q \<Longrightarrow> r = posix_run (of_checknode (ls_open ls)) (ls_posix ls) q \<Longrightarrow>
    lock_step P ls (pr_events r) (ls\<lparr>ls_posix := pr_table r\<rparr>)"
| step_disconnect: "lock_step P ls [] (lock_state_disconnected ls eptr)"

inductive lock_reachable :: "(posix_request \<Rightarrow> bool) \<Rightarrow> lockstate \<Rightarrow> bool" for P where
  reach_init: "lock_reachable P lock_state_init"
| reach_step: "lock_reachable P ls \<Longrightarrow> lock_step P ls ev ls' \<Longrightarrow> lock_reachable P ls'"

abbreviation any_request :: "posix_request \<Rightarrow> bool" where
  "any_request \<equiv> \<lambda>_. True"

subsection \<open>The invariant\<close>

text \<open>The last clause, that POSIX locks belong to open files, is claimed only if \<open>known\<close>.\<close>

definition lock_inv :: "bool \<Rightarrow> lockstate \<Rightarrow> bool" where
  "lock_inv known ls \<longleftrightarrow> of_linked (ls_open ls) \<and> of_bitmasksize (ls_open ls) \<le> 2 ^ 25 + 10 \<and>
     ftable_ok (ls_flock ls) \<and> ptable_safe (ls_posix ls) \<and>
     fm.covered (of_rel (ls_open ls)) (ls_flock ls) \<and> (known \<longrightarrow> pm.covered (of_rel (ls_open ls)) (ls_posix ls))"

lemma rel_unlink_linked:
  assumes "of_linked st" "r \<in> of_nodes st"
  shows "of_rel st - {o_pair r} \<subseteq> of_rel (of_unlink st r)"
  by (auto simp: of_rel_def nodes_unlink [OF assms])

lemma inv_delnode:
  assumes inv: "lock_inv known ls" and r: "r \<in> of_nodes (ls_open ls)"
  shows "lock_inv known (fst (of_delnode mode ls r))"
proof -
  have l: "of_linked (ls_open ls)" and ok: "ftable_ok (ls_flock ls)" "ptable_safe (ls_posix ls)"
    and cov: "fm.covered (of_rel (ls_open ls)) (ls_flock ls)" "known \<Longrightarrow> pm.covered (of_rel (ls_open ls)) (ls_posix ls)"
    using inv by (simp_all add: lock_inv_def)
  note sub = rel_unlink_linked [OF l r]
  have "of_bitmasksize (of_unlink (ls_open ls) r) = of_bitmasksize (ls_open ls)"
    by (simp add: of_unlink_def Let_def)
  moreover have "fm.covered (of_rel (of_unlink (ls_open ls) r))
      (fst (flock_file_closed mode (ls_flock ls) (o_sessionid r) (o_inode r)))"
    by (rule fm.covered_mono [OF fm.covered_closed [OF ok(1) cov(1)] sub])
  moreover have "pm.covered (of_rel (of_unlink (ls_open ls) r))
      (fst (posix_lock_file_closed (ls_posix ls) (o_sessionid r) (o_inode r)))" if known
    by (rule pm.covered_mono [OF pm.covered_closed [OF ok(2) cov(2) [OF that]] sub])
  ultimately show ?thesis
    using inv linked_unlink [OF l r] fm.ok_closed [OF ok(1)] pm.ok_closed [OF ok(2)]
    by (simp add: lock_inv_def of_delnode_def Let_def split_def)
qed

lemma inv_nodes_delnode:
  assumes "lock_inv known ls" "set (r # rs) \<subseteq> of_nodes (ls_open ls)" "distinct (r # rs)"
  shows "set rs \<subseteq> of_nodes (ls_open (fst (of_delnode mode ls r)))"
  using assms nodes_unlink [of "ls_open ls" r] by (auto simp: lock_inv_def)

lemma inv_sync_close:
  assumes "sorted inodes" "length inodes \<le> 2 ^ 30"
    and "lock_inv known ls" "set rs \<subseteq> of_nodes (ls_open ls)" "distinct rs"
  shows "\<exists>ls' bits' ev. of_sync_close mode s inodes ls bits rs = Some (ls', bits', ev) \<and> lock_inv known ls'"
  using assms(3-)
proof (induction rs arbitrary: ls bits)
  case (Cons r rs)
  obtain p where p: "of_bisearch (o_inode r) inodes = Some p" using bisearch_total [OF assms(1,2)] .
  have rs: "set rs \<subseteq> of_nodes (ls_open ls)" "distinct rs" using Cons.prems by simp_all
  have "lock_inv known (fst (of_delnode mode ls r))" using inv_delnode Cons.prems by simp
  note del = Cons.IH [OF this inv_nodes_delnode [OF Cons.prems] rs(2), of bits]
    and keep = Cons.IH [OF Cons.prems(1) rs, of bits] Cons.IH [OF Cons.prems(1) rs, of "bitmask_set bits (nat p)"]
  show ?case
  proof (cases "o_sessionid r = s \<and> p < 0")
    case True
    from del obtain ls' bits' ev where
      "of_sync_close mode s inodes (fst (of_delnode mode ls r)) bits rs = Some (ls', bits', ev)" "lock_inv known ls'" by blast
    with True p show ?thesis by (simp add: Let_def split_def)
  next
    case False
    with keep p show ?thesis by (cases "o_sessionid r = s") simp_all
  qed
qed simp

lemma inv_newnode:
  assumes "lock_inv known ls"
  shows "lock_inv known (ls\<lparr>ls_open := of_newnode (ls_open ls) s i\<rparr>)"
proof -
  have "of_rel (ls_open ls) \<subseteq> of_rel (of_newnode (ls_open ls) s i)" by auto
  moreover have "of_bitmasksize (of_newnode (ls_open ls) s i) = of_bitmasksize (ls_open ls)"
    by (simp add: of_newnode_def Let_def)
  ultimately show ?thesis
    using assms linked_newnode fm.covered_mono pm.covered_mono by (simp add: lock_inv_def) blast
qed

lemma inv_sync_open:
  "lock_inv known ls \<Longrightarrow> lock_inv known (ls\<lparr>ls_open := fst (of_sync_open s bits (ls_open ls) k inodes)\<rparr>)"
proof (induction inodes arbitrary: ls k)
  case (Cons i inodes)
  then show ?case using Cons.IH [OF inv_newnode [OF Cons.prems], of s i "Suc k"] by (simp add: Let_def split_def)
qed simp

lemma delnode_no_abort: "lock_inv known ls \<Longrightarrow> no_abort (snd (of_delnode mode ls r))"
  using flock_file_closed_ok [of "ls_flock ls" mode] posix_lock_file_closed_safe [of "ls_posix ls"]
  by (simp add: of_delnode_def lock_inv_def Let_def split_def no_abort_def)

lemma sync_close_no_abort:
  assumes "lock_inv known ls" "set rs \<subseteq> of_nodes (ls_open ls)" "distinct rs"
    and "of_sync_close mode s inodes ls bits rs = Some (ls', bits', ev)"
  shows "no_abort ev"
  using assms
proof (induction rs arbitrary: ls bits ev)
  case (Cons r rs)
  have r: "r \<in> of_nodes (ls_open ls)" and rs: "set rs \<subseteq> of_nodes (ls_open ls)" "distinct rs" using Cons.prems by auto
  show ?case
  proof (cases "o_sessionid r = s \<and> (\<exists>p. of_bisearch (o_inode r) inodes = Some p \<and> p < 0)")
    case True
    with Cons.prems(4) obtain ev2 where
      "of_sync_close mode s inodes (fst (of_delnode mode ls r)) bits rs = Some (ls', bits', ev2)"
      "ev = snd (of_delnode mode ls r) @ Changelog (RELEASE s (o_inode r)) # ev2"
      by (auto simp: Let_def split_def split: option.splits)
    with Cons.IH [OF inv_delnode [OF Cons.prems(1) r] inv_nodes_delnode [OF Cons.prems(1-3)] rs(2)]
      delnode_no_abort [OF Cons.prems(1)] show ?thesis by simp
  next
    case False
    with Cons.prems(4) obtain bits1 where "of_sync_close mode s inodes ls bits1 rs = Some (ls', bits', ev)"
      by (auto split: if_splits option.splits)
    with Cons.IH [OF Cons.prems(1) rs] show ?thesis by blast
  qed
qed simp

lemma sync_open_no_abort: "no_abort (snd (of_sync_open s bits st k inodes))"
  by (induction inodes arbitrary: st k) (simp_all add: Let_def split_def)

lemma inv_bitmask:
  assumes "lock_inv known ls" "length inodes \<le> 2 ^ 30"
  shows "lock_inv known (ls\<lparr>ls_open := (ls_open ls)\<lparr>of_bitmasksize :=
    of_bitmask_alloc (of_bitmasksize (ls_open ls)) (word_of_nat (length inodes))\<rparr>\<rparr>)"
proof -
  have "unat (word_of_nat (length inodes) :: u32) = length inodes" using assms(2) by (simp add: unat_of_nat)
  then show ?thesis
    using assms bitmask_alloc(1) [of "of_bitmasksize (ls_open ls)" "word_of_nat (length inodes)"]
    by (simp add: lock_inv_def word_le_nat_alt)
qed

text \<open>The snapshot of the chain that both loops over a session's nodes start with.\<close>

lemma inv_chain:
  "lock_inv known ls \<Longrightarrow> set (of_sessionhash (ls_open ls) h) \<subseteq> of_nodes (ls_open ls) \<and> distinct (of_sessionhash (ls_open ls) h)"
  using session_chain_nodes by (simp add: lock_inv_def)

lemma inv_sync:
  assumes "lock_inv known ls" "length inodes \<le> 2 ^ 30"
  shows "\<exists>ls' ev. of_sync mode ls s inodes = Some (ls', ev) \<and> lock_inv known ls' \<and> no_abort ev"
proof -
  define b where "b = of_bitmask_alloc (of_bitmasksize (ls_open ls)) (word_of_nat (length inodes))"
  define ls0 where "ls0 = ls\<lparr>ls_open := (ls_open ls)\<lparr>of_bitmasksize := b\<rparr>\<rparr>"
  let ?rs = "of_sessionhash (ls_open ls0) (OF_SESSION_HASH s)" and ?bits = "replicate (unat b) 0"
  have inv: "lock_inv known ls0" using inv_bitmask [OF assms] by (simp add: ls0_def b_def)
  note rs = conjunct1 [OF inv_chain [OF inv]] conjunct2 [OF inv_chain [OF inv]]
  have "length (sort inodes) \<le> 2 ^ 30" using assms(2) by simp
  from inv_sync_close [OF sorted_sort this inv rs, of mode s ?bits] obtain ls1 bits1 ev1 where
    c: "of_sync_close mode s (sort inodes) ls0 ?bits ?rs = Some (ls1, bits1, ev1)" "lock_inv known ls1" by blast
  from inv_sync_open [OF c(2)] sync_close_no_abort [OF inv rs c(1)] sync_open_no_abort c(1) show ?thesis
    by (simp add: of_sync_def b_def ls0_def Let_def split_def)
qed

lemma del_session_spec:
  assumes "lock_inv known ls" "set rs \<subseteq> of_nodes (ls_open ls)" "distinct rs"
  shows "lock_inv known (fst (of_del_session mode s ls rs))"
    "of_nodes (ls_open (fst (of_del_session mode s ls rs))) =
       of_nodes (ls_open ls) - {r \<in> set rs. o_sessionid r = s}"
  using assms
proof (induction rs arbitrary: ls)
  case (Cons r rs)
  {
    case 1
    then show ?case
      using Cons.IH(1) [OF inv_delnode inv_nodes_delnode] Cons.IH(1) [of ls] by (simp add: Let_def split_def)
  next
    case 2
    then have r: "r \<in> of_nodes (ls_open ls)" "of_linked (ls_open ls)" "distinct rs"
      by (auto simp: lock_inv_def)
    from 2 Cons.IH(2) [OF inv_delnode [OF 2(1) r(1)] inv_nodes_delnode [OF 2] r(3)] Cons.IH(2) [of ls]
      nodes_unlink [OF r(2,1)] show ?case by (auto simp: Let_def split_def)
  }
qed simp_all

lemma filter_image: "{y \<in> f ` A. P y} = f ` {x \<in> A. P (f x)}"
  by blast

lemma del_session_no_abort:
  assumes "lock_inv known ls" "set rs \<subseteq> of_nodes (ls_open ls)" "distinct rs"
  shows "no_abort (snd (of_del_session mode s ls rs))"
  using assms
proof (induction rs arbitrary: ls)
  case (Cons r rs)
  have r: "r \<in> of_nodes (ls_open ls)" and rs: "set rs \<subseteq> of_nodes (ls_open ls)" "distinct rs" using Cons.prems by auto
  show ?case
    using Cons.IH [OF inv_delnode [OF Cons.prems(1) r] inv_nodes_delnode [OF Cons.prems] rs(2)]
      Cons.IH [OF Cons.prems(1) rs] delnode_no_abort [OF Cons.prems(1)] by (simp add: Let_def split_def)
qed simp

lemma rel_other_sessions:
  "of_nodes st' = {r \<in> of_nodes st. o_sessionid r \<noteq> s} \<Longrightarrow> of_rel st' = {p \<in> of_rel st. fst p \<noteq> s}"
  by (simp add: of_rel_def filter_image)

lemma inv_session_removed:
  assumes "lock_inv known ls"
  shows "lock_inv known (fst (of_session_removed mode ls s))" "no_abort (snd (of_session_removed mode ls s))"
    "of_rel (ls_open (fst (of_session_removed mode ls s))) = {p \<in> of_rel (ls_open ls). fst p \<noteq> s}"
proof -
  have l: "of_linked (ls_open ls)" using assms by (simp add: lock_inv_def)
  note spec = del_session_spec [OF assms session_chain_nodes [OF l]]
  show "lock_inv known (fst (of_session_removed mode ls s))" "no_abort (snd (of_session_removed mode ls s))"
    using spec(1) del_session_no_abort [OF assms session_chain_nodes [OF l]] by (simp_all add: of_session_removed_def)
  have "of_nodes (ls_open (fst (of_session_removed mode ls s))) = {r \<in> of_nodes (ls_open ls). o_sessionid r \<noteq> s}"
    unfolding of_session_removed_def spec(2) session_chain_mem [OF l] by blast
  then show "of_rel (ls_open (fst (of_session_removed mode ls s))) = {p \<in> of_rel (ls_open ls). fst p \<noteq> s}"
    by (rule rel_other_sessions)
qed

lemma inv_step:
  assumes "lock_inv known ls" "lock_step P ls ev ls'" and known: "known \<Longrightarrow> \<forall>q. P q \<longrightarrow> posix_known q"
  shows "lock_inv known ls' \<and> no_abort ev"
proof -
  have open_rel: "of_checknode (ls_open ls) s i \<longleftrightarrow> (s, i) \<in> of_rel (ls_open ls)" for s i
    using checknode_rel assms(1) by (simp add: lock_inv_def)
  from assms(2) show ?thesis
  proof cases
    case (step_open s i st)
    with assms(1) inv_newnode [OF assms(1), of s i] show ?thesis
      by (auto simp: of_openfile_def split: if_splits)
  next
    case (step_sync inodes mode s)
    with inv_sync [OF assms(1), of inodes mode s] show ?thesis by simp
  next
    case (step_session mode s)
    with inv_session_removed(1,2) [OF assms(1), of mode s] show ?thesis by simp
  next
    case (step_flock mode q status tab)
    have tab: "tab = fst (snd (flock_run mode (of_checknode (ls_open ls)) (ls_flock ls) q))" using step_flock(2) by simp
    have ok: "ftable_ok (ls_flock ls)" "fm.covered (of_rel (ls_open ls)) (ls_flock ls)"
      using assms(1) by (simp_all add: lock_inv_def)
    have "ftable_ok tab" unfolding tab by (rule fm.ok_cmd [OF ok(1)])
    moreover have "fm.covered (of_rel (ls_open ls)) tab"
      unfolding tab by (rule fm.covered_cmd [OF ok(1) TrueI ok(2)]) (simp add: open_rel)
    moreover have "no_abort ev" using flock_locks_cmd_ok [OF ok(1)] step_flock(2) by (auto simp: flock_run_def)
    ultimately show ?thesis using assms(1) by (simp add: step_flock(1) lock_inv_def)
  next
    case (step_posix q r)
    have ok: "ptable_safe (ls_posix ls)" "known \<Longrightarrow> pm.covered (of_rel (ls_open ls)) (ls_posix ls)"
      using assms(1) by (simp_all add: lock_inv_def)
    have "ptable_safe (pr_table r)" unfolding step_posix(4) by (rule pm.ok_cmd [OF ok(1)])
    moreover have "pm.covered (of_rel (ls_open ls)) (pr_table r)" if known
    proof -
      have "posix_known q" using known [OF that] step_posix(3) by blast
      then show ?thesis
        unfolding step_posix(4) by (rule pm.covered_cmd [OF ok(1) _ ok(2) [OF that]]) (simp add: open_rel)
    qed
    moreover have "no_abort (pr_events r)"
      using posix_lock_cmd_safe [OF ok(1)] step_posix(4) by (simp add: posix_run_def no_abort_def)
    ultimately show ?thesis using assms(1) by (simp add: step_posix(1,2) lock_inv_def)
  next
    case (step_disconnect eptr)
    with assms(1) fm.ok_disconnected pm.ok_disconnected fm.covered_disconnected pm.covered_disconnected
    show ?thesis by (simp add: lock_inv_def lock_state_disconnected_def)
  qed
qed

lemma inv_init: "lock_inv known lock_state_init"
proof -
  have "flock_users flock_init k = {}" "posix_users posix_lock_init k = {}" for k
    by (simp_all add: flock_users_def flock_init_def flock_inode_find_def posix_users_def posix_lock_init_def
        posix_lock_inode_find_def)
  then show ?thesis
    using of_ok_init ftable_ok_init ptable_safe_init
    by (simp add: lock_inv_def lock_state_init_def of_ok_def fm.covered_def pm.covered_def)
qed

lemma reachable_inv: "lock_reachable P ls \<Longrightarrow> lock_inv (\<forall>q. P q \<longrightarrow> posix_known q) ls"
  by (induction rule: lock_reachable.induct) (auto intro: inv_init dest: inv_step)

subsection \<open>A run\<close>

text \<open>Sessions 5 and 6 open file 1; session 5 gets a POSIX write lock on it, session 6 waits for one.\<close>

definition run_open :: "u32 \<Rightarrow> lockstate \<Rightarrow> lockstate" where
  "run_open s ls = ls\<lparr>ls_open := fst (of_openfile (ls_open ls) s 1)\<rparr>"

definition run_posix :: "u32 \<Rightarrow> lockstate \<Rightarrow> lockstate" where
  "run_posix s ls = ls\<lparr>ls_posix := pr_table (posix_run (of_checknode (ls_open ls)) (ls_posix ls)
     \<lparr>pq_conn = unat s, pq_session = s, pq_msgid = 3, pq_reqid = 4, pq_inode = 1, pq_owner = 9,
      pq_op = POSIX_LOCK_CMD_SET, pq_args = \<lparr>pa_type = POSIX_LOCK_WRLCK, pa_start = 0, pa_end = 10, pa_pid = 7\<rparr>\<rparr>)\<rparr>"

definition two_sessions :: lockstate where
  "two_sessions = run_posix 6 (run_posix 5 (run_open 6 (run_open 5 lock_state_init)))"

lemma two_sessions_reachable:
  assumes "\<And>q. posix_known q \<Longrightarrow> P q"
  shows "lock_reachable P two_sessions"
proof -
  have "lock_reachable P (run_open s ls)" if "lock_reachable P ls" for s ls
    unfolding run_open_def by (rule reach_step [OF that step_open [OF prod.collapse [symmetric]]])
  moreover have "lock_reachable P (run_posix s ls)" if "lock_reachable P ls" for s ls
    unfolding run_posix_def
    by (rule reach_step [OF that step_posix [OF assms refl]]) (simp add: posix_known_def)
  ultimately show ?thesis by (simp add: two_sessions_def reach_init)
qed

lemma two_sessions_find:
  "posix_lock_inode_find (ls_posix two_sessions) 1 =
     Some \<lparr>p_inode = 1,
       p_active = [\<lparr>a_owner = 9, a_sessionid = 5, a_pid = 7,
         a_ranges = [\<lparr>r_start = 0, r_end = 10, r_type = POSIX_LOCK_WRLCK\<rparr>]\<rparr>],
       p_waiting = [\<lparr>w_owner = 9, w_connptr = 6, w_sessionid = 6, w_pid = 7, w_msgid = 3, w_reqid = 4,
         w_start = 0, w_end = 10, w_type = POSIX_LOCK_WRLCK\<rparr>]\<rparr>"
  by (simp add: two_sessions_def run_posix_def run_open_def lock_state_init_def of_openfile_def of_checknode_def
      of_newnode_def of_init_def posix_run_def posix_eval)

lemma two_sessions_ptable_ok: "ptable_ok (ls_posix two_sessions)"
proof -
  have "ptable_ok (ls_posix (run_posix s ls))" if "ptable_ok (ls_posix ls)" for s ls
    using posix_lock_cmd_ok [OF that] by (simp add: run_posix_def posix_run_def plock_args_ok_def)
  then show ?thesis by (simp add: two_sessions_def run_open_def lock_state_init_def ptable_ok_init)
qed

lemma two_sessions_users: "6 \<in> posix_users (ls_posix two_sessions) 1"
  by (simp add: posix_users_def lock_users_def two_sessions_find)

text \<open>
  When session 5 closes the file, the lock of session 6 is granted and logged inside of
  \<^verbatim>\<open>of_delnode\<close>, before the RELEASE line that frees the lock of session 5 on a replica. A replica with
  the same active locks refuses the line.
\<close>

lemma grant_logged_before_release:
  "changelog_of (snd (of_delnode MODE_CORRECT two_sessions \<lparr>o_id = 0, o_sessionid = 5, o_inode = 1\<rparr>)) =
     [POSIXLOCK 1 6 9 (CHR ''W'') 0 10 7] \<and>
   fst (lock_mr_lines MODE_CORRECT (run_posix 5 (run_open 6 (run_open 5 lock_state_init)))
     [POSIXLOCK 1 6 9 (CHR ''W'') 0 10 7, RELEASE 5 1]) = MFS_ERROR_MISMATCH"
  by (simp add: two_sessions_def run_posix_def run_open_def lock_state_init_def of_openfile_def of_checknode_def
      of_newnode_def of_init_def posix_run_def of_delnode_def flock_file_closed_def posix_lock_file_closed_def
      posix_lock_mr_change_def posix_mr_type_def posix_cmd_char_def posix_eval flock_init_def flock_inode_find_def)

lemma two_sessions_known: "lock_reachable posix_known two_sessions" "lock_reachable any_request two_sessions"
  by (simp_all add: two_sessions_reachable)

text \<open>
  Session 5 sends the unknown command 4 for file 1, which it has not opened. It gets the lock, and the
  removal of the session leaves it there.
\<close>

definition unknown_request :: posix_request where
  "unknown_request = \<lparr>pq_conn = 1, pq_session = 5, pq_msgid = 3, pq_reqid = 4, pq_inode = 1, pq_owner = 9,
     pq_op = 4, pq_args = \<lparr>pa_type = POSIX_LOCK_WRLCK, pa_start = 0, pa_end = 10, pa_pid = 7\<rparr>\<rparr>"

definition unknown_run :: lockstate where
  "unknown_run = lock_state_init\<lparr>ls_posix :=
     pr_table (posix_run (of_checknode of_init) posix_lock_init unknown_request)\<rparr>"

theorem unknown_command_leaks:
  "lock_reachable any_request unknown_run"
  "posix_users (ls_posix (fst (of_session_removed MODE_CORRECT unknown_run 5))) 1 = {5}"
proof -
  have closed: "of_checknode of_init = (\<lambda>_ _. False)" by (simp add: of_checknode_def of_init_def fun_eq_iff)
  let ?r = "posix_run (of_checknode (ls_open lock_state_init)) (ls_posix lock_state_init) unknown_request"
  have "lock_step any_request lock_state_init (pr_events ?r) (lock_state_init\<lparr>ls_posix := pr_table ?r\<rparr>)"
    by (rule step_posix [OF TrueI refl])
  from reach_step [OF reach_init this] show "lock_reachable any_request unknown_run"
    by (simp add: unknown_run_def lock_state_init_def)
  show "posix_users (ls_posix (fst (of_session_removed MODE_CORRECT unknown_run 5))) 1 = {5}"
    using unknown_command_locks(2) closed
    by (simp add: unknown_run_def unknown_request_def lock_state_init_def of_session_removed_def posix_run_def)
      (simp add: of_init_def)
qed

subsection \<open>Properties\<close>

text \<open>
  C12. Locks belong to open files: in every state of the lock service that is reached while all POSIX
  requests have one of the four command codes, with any type and range, a session that holds or
  waits for a lock on a file, of either kind, has that file open. So closing files and removing
  sessions leaves no lock behind that nobody can release. The code does not check the command, and
  the restriction is needed (\<open>unknown_command_leaks\<close>).
\<close>

theorem locks_of_open_files:
  assumes "lock_reachable posix_known ls"
    and "s \<in> flock_users (ls_flock ls) i \<or> s \<in> posix_users (ls_posix ls) i"
  shows "of_checknode (ls_open ls) s i"
  using reachable_inv [OF assms(1)] assms(2) checknode_rel
  by (auto simp: lock_inv_def fm.covered_def pm.covered_def)

theorem locks_of_open_files_witness: "of_checknode (ls_open two_sessions) 6 1"
  using locks_of_open_files [OF two_sessions_known(1)] two_sessions_users by blast

text \<open>
  C13. Mutual exclusion: in every reachable state, whatever requests arrive, for every file, a BSD writer
  is the only holder, and no two owners hold POSIX locks on the same byte unless both are read
  locks. Nobody waits where nobody holds a lock.
\<close>

theorem lock_mutual_exclusion:
  assumes "lock_reachable any_request ls"
  shows "(\<forall>i il. flock_inode_find (ls_flock ls) i = Some il \<longrightarrow> f_active il \<noteq> [] \<and>
      (\<forall>l \<in> set (f_active il). l_ltype l = LTYPE_WRITER \<longrightarrow> f_active il = [l])) \<and>
    (\<forall>i il. posix_lock_inode_find (ls_posix ls) i = Some il \<longrightarrow> p_active il \<noteq> [] \<and>
      (\<forall>k k' x. k \<noteq> k' \<and> held (p_active il) k x = POSIX_LOCK_WRLCK \<longrightarrow>
         held (p_active il) k' x = POSIX_LOCK_UNLCK))"
proof -
  have ok: "ftable_ok (ls_flock ls)" "ptable_safe (ls_posix ls)"
    using reachable_inv [OF assms] by (simp_all add: lock_inv_def)
  have "f_active il \<noteq> [] \<and> (\<forall>l \<in> set (f_active il). l_ltype l = LTYPE_WRITER \<longrightarrow> f_active il = [l])"
    if "flock_inode_find (ls_flock ls) i = Some il" for i il
    using ftable_okD [OF ok(1) that]
    by (auto simp: fil_ok_def fil_struct_def factive_ok_def freaders_def length_Suc_conv)
  moreover have "p_active il \<noteq> [] \<and> (\<forall>k k' x. k \<noteq> k' \<and> held (p_active il) k x = POSIX_LOCK_WRLCK \<longrightarrow>
      held (p_active il) k' x = POSIX_LOCK_UNLCK)"
    if "posix_lock_inode_find (ls_posix ls) i = Some il" for i il
    using ptable_safeD [OF ok(2) that] compatible_write
    unfolding pil_safe_def pil_safe_struct_def by blast
  ultimately show ?thesis by blast
qed

theorem lock_mutual_exclusion_witness:
  "\<exists>il. posix_lock_inode_find (ls_posix two_sessions) 1 = Some il \<and> p_active il \<noteq> [] \<and>
    held (p_active il) (6, 9) 3 = POSIX_LOCK_UNLCK"
proof -
  obtain il where il: "posix_lock_inode_find (ls_posix two_sessions) 1 = Some il"
    "held (p_active il) (5, 9) 3 = POSIX_LOCK_WRLCK"
    by (simp add: two_sessions_find held_Cons akey_def in_range_def)
  have "(5, 9) \<noteq> (6 :: u32, 9 :: u64)" by simp
  with lock_mutual_exclusion [OF two_sessions_known(2)] il show ?thesis by blast
qed

text \<open>
  C14. No assertion of the lock service fails: whatever requests arrive, no step from a reachable state
  ends in one of the \<^verbatim>\<open>massert\<close> failures of the lock managers, and the list of a synchronisation is
  always processed to its end.
\<close>

theorem lock_service_never_aborts:
  assumes "lock_reachable any_request ls"
  shows "(\<forall>ev ls' msg. lock_step any_request ls ev ls' \<longrightarrow> Abort msg \<notin> set ev) \<and>
    (\<forall>mode s inodes. length inodes \<le> 2 ^ 30 \<longrightarrow> of_sync mode ls s inodes \<noteq> None)"
proof -
  have inv: "lock_inv False ls" using reachable_inv [OF assms] by (simp add: lock_inv_def)
  then show ?thesis
    using inv_step [OF inv] inv_sync [OF inv] by (fastforce simp: no_abort_def)
qed

theorem lock_service_never_aborts_witness: "of_sync MODE_CORRECT two_sessions 5 [1, 4] \<noteq> None"
  using lock_service_never_aborts [OF two_sessions_known(2)] by simp

text \<open>
  C15. Removing a session: after \<^verbatim>\<open>of_session_removed\<close> the session has no file open, holds no lock of
  either kind and waits for none; every other session keeps its open files. The state is any that is
  reached while all POSIX requests have one of the four command codes, with any type and range; for
  other codes a lock may stay (\<open>unknown_command_leaks\<close>).
\<close>

theorem session_removed_clean:
  assumes "lock_reachable posix_known ls" "of_session_removed mode ls s = (ls', ev)"
  shows "\<not> of_checknode (ls_open ls') s i \<and> s \<notin> flock_users (ls_flock ls') i \<and> s \<notin> posix_users (ls_posix ls') i \<and>
    (t \<noteq> s \<longrightarrow> of_checknode (ls_open ls') t i = of_checknode (ls_open ls) t i)"
proof -
  have inv: "lock_inv True ls" using reachable_inv [OF assms(1)] by simp
  have inv': "lock_inv True ls'" and rel: "of_rel (ls_open ls') = {p \<in> of_rel (ls_open ls). fst p \<noteq> s}"
    using inv_session_removed(1,3) [OF inv, of mode s] assms(2) by simp_all
  then have "s \<notin> flock_users (ls_flock ls') i" "s \<notin> posix_users (ls_posix ls') i"
    using fm.not_covered pm.not_covered by (auto simp: lock_inv_def)
  moreover have "of_checknode (ls_open ls) t i \<longleftrightarrow> (t, i) \<in> of_rel (ls_open ls)"
    "of_checknode (ls_open ls') t i \<longleftrightarrow> (t, i) \<in> of_rel (ls_open ls')" for t
    using checknode_rel inv inv' by (simp_all add: lock_inv_def)
  ultimately show ?thesis using rel by auto
qed

theorem session_removed_clean_witness:
  "6 \<notin> posix_users (ls_posix (fst (of_session_removed MODE_CORRECT two_sessions 6))) 1"
  using session_removed_clean [OF two_sessions_known(1) prod.collapse [symmetric], of MODE_CORRECT 6 1] by simp

end
