(* ===== verification/Datapack.thy ===== *)
theory Datapack
  imports MFS_Prelude
begin

text \<open>
  The packing of integers into packets and metadata files (\<^verbatim>\<open>mfscommon/datapack.h\<close>): the fast variant
  that copies the memory of a variable, swapped on a little-endian machine, and the portable variant
  that works byte by byte. A write is modelled by the bytes that it appends, a read by the value and the
  rest of the buffer, or \<^const>\<open>None\<close> where it would read behind the end of the buffer.
\<close>

unbundle bit_operations_syntax

type_synonym bytes = "u8 list"

subsection \<open>Memory of a variable\<close>

text \<open>The bytes of an \<open>n\<close>-byte variable in memory and the value that given bytes have.\<close>

primrec le_bytes :: "nat \<Rightarrow> 'a :: len word \<Rightarrow> bytes" where
  "le_bytes 0 v = []"
| "le_bytes (Suc n) v = ucast v # le_bytes n (drop_bit 8 v)"

primrec le_int :: "bytes \<Rightarrow> int" where
  "le_int [] = 0"
| "le_int (b # bs) = uint b + 256 * le_int bs"

definition mem_bytes :: "bool \<Rightarrow> nat \<Rightarrow> 'a :: len word \<Rightarrow> bytes" where
  "mem_bytes big n v = (if big then rev (le_bytes n v) else le_bytes n v)"

definition mem_value :: "bool \<Rightarrow> bytes \<Rightarrow> 'a :: len word" where
  "mem_value big bs = word_of_int (le_int (if big then rev bs else bs))"

definition BSWAP64 :: "u64 \<Rightarrow> u64" where
  "BSWAP64 x = (push_bit 56 x AND 0xFF00000000000000) OR (push_bit 40 x AND 0xFF000000000000) OR
     (push_bit 24 x AND 0xFF0000000000) OR (push_bit 8 x AND 0xFF00000000) OR (drop_bit 8 x AND 0xFF000000) OR
     (drop_bit 24 x AND 0xFF0000) OR (drop_bit 40 x AND 0xFF00) OR (drop_bit 56 x AND 0xFF)"

definition BSWAP32 :: "u32 \<Rightarrow> u32" where
  "BSWAP32 x = (push_bit 24 x AND 0xFF000000) OR (push_bit 8 x AND 0xFF0000) OR (drop_bit 8 x AND 0xFF00) OR
     (drop_bit 24 x AND 0xFF)"

definition BSWAP16 :: "u16 \<Rightarrow> u16" where
  "BSWAP16 x = (push_bit 8 x AND 0xFF00) OR (drop_bit 8 x AND 0xFF)"

subsection \<open>Writing\<close>

text \<open>The parameter says whether the machine is big-endian (\<^verbatim>\<open>WORDS_BIGENDIAN\<close>).\<close>

definition put64bit :: "bool \<Rightarrow> u64 \<Rightarrow> bytes" where
  "put64bit big val = mem_bytes big 8 (if big then val else BSWAP64 val)"

definition put56bit :: "bool \<Rightarrow> u64 \<Rightarrow> bytes" where
  "put56bit big val = drop 1 (mem_bytes big 8 (if big then val else BSWAP64 val))"

definition put48bit :: "bool \<Rightarrow> u64 \<Rightarrow> bytes" where
  "put48bit big val = drop 2 (mem_bytes big 8 (if big then val else BSWAP64 val))"

definition put40bit :: "bool \<Rightarrow> u64 \<Rightarrow> bytes" where
  "put40bit big val = drop 3 (mem_bytes big 8 (if big then val else BSWAP64 val))"

definition put32bit :: "bool \<Rightarrow> u32 \<Rightarrow> bytes" where
  "put32bit big val = mem_bytes big 4 (if big then val else BSWAP32 val)"

definition put24bit :: "bool \<Rightarrow> u32 \<Rightarrow> bytes" where
  "put24bit big val = drop 1 (mem_bytes big 4 (if big then val else BSWAP32 val))"

definition put16bit :: "bool \<Rightarrow> u16 \<Rightarrow> bytes" where
  "put16bit big val = mem_bytes big 2 (if big then val else BSWAP16 val)"

definition put8bit :: "u8 \<Rightarrow> bytes" where
  "put8bit val = [val AND 0xFF]"

subsection \<open>Reading\<close>

definition get64bit :: "bool \<Rightarrow> bytes \<Rightarrow> (u64 \<times> bytes) option" where
  "get64bit big bs = (if length bs < 8 then None else
     (let t64 = mem_value big (take 8 bs) in Some (if big then t64 else BSWAP64 t64, drop 8 bs)))"

definition get56bit :: "bool \<Rightarrow> bytes \<Rightarrow> (u64 \<times> bytes) option" where
  "get56bit big bs = (if length bs < 7 then None else
     (let t64 = mem_value big (replicate 1 0 @ take 7 bs) in Some (if big then t64 else BSWAP64 t64, drop 7 bs)))"

definition get48bit :: "bool \<Rightarrow> bytes \<Rightarrow> (u64 \<times> bytes) option" where
  "get48bit big bs = (if length bs < 6 then None else
     (let t64 = mem_value big (replicate 2 0 @ take 6 bs) in Some (if big then t64 else BSWAP64 t64, drop 6 bs)))"

definition get40bit :: "bool \<Rightarrow> bytes \<Rightarrow> (u64 \<times> bytes) option" where
  "get40bit big bs = (if length bs < 5 then None else
     (let t64 = mem_value big (replicate 3 0 @ take 5 bs) in Some (if big then t64 else BSWAP64 t64, drop 5 bs)))"

definition get32bit :: "bool \<Rightarrow> bytes \<Rightarrow> (u32 \<times> bytes) option" where
  "get32bit big bs = (if length bs < 4 then None else
     (let t32 = mem_value big (take 4 bs) in Some (if big then t32 else BSWAP32 t32, drop 4 bs)))"

definition get24bit :: "bool \<Rightarrow> bytes \<Rightarrow> (u32 \<times> bytes) option" where
  "get24bit big bs = (if length bs < 3 then None else
     (let t32 = mem_value big (replicate 1 0 @ take 3 bs) in Some (if big then t32 else BSWAP32 t32, drop 3 bs)))"

definition get16bit :: "bool \<Rightarrow> bytes \<Rightarrow> (u16 \<times> bytes) option" where
  "get16bit big bs = (if length bs < 2 then None else
     (let t16 = mem_value big (take 2 bs) in Some (if big then t16 else BSWAP16 t16, drop 2 bs)))"

fun get8bit :: "bytes \<Rightarrow> (u8 \<times> bytes) option" where
  "get8bit [] = None"
| "get8bit (b # bs) = Some (b, bs)"

subsection \<open>The portable variant\<close>

text \<open>A byte of a value; the sums of the reads are computed in 32 bits.\<close>

definition byte_at :: "nat \<Rightarrow> 'a :: len word \<Rightarrow> u8" where
  "byte_at k val = ucast (drop_bit k val AND 0xFF)"

definition put64bit_portable :: "u64 \<Rightarrow> bytes" where
  "put64bit_portable val = [byte_at 56 val, byte_at 48 val, byte_at 40 val, byte_at 32 val, byte_at 24 val,
     byte_at 16 val, byte_at 8 val, byte_at 0 val]"

definition put56bit_portable :: "u64 \<Rightarrow> bytes" where
  "put56bit_portable val = [byte_at 48 val, byte_at 40 val, byte_at 32 val, byte_at 24 val,
     byte_at 16 val, byte_at 8 val, byte_at 0 val]"

definition put48bit_portable :: "u64 \<Rightarrow> bytes" where
  "put48bit_portable val = [byte_at 40 val, byte_at 32 val, byte_at 24 val, byte_at 16 val, byte_at 8 val, byte_at 0 val]"

definition put40bit_portable :: "u64 \<Rightarrow> bytes" where
  "put40bit_portable val = [byte_at 32 val, byte_at 24 val, byte_at 16 val, byte_at 8 val, byte_at 0 val]"

definition put32bit_portable :: "u32 \<Rightarrow> bytes" where
  "put32bit_portable val = [byte_at 24 val, byte_at 16 val, byte_at 8 val, byte_at 0 val]"

definition put24bit_portable :: "u32 \<Rightarrow> bytes" where
  "put24bit_portable val = [byte_at 16 val, byte_at 8 val, byte_at 0 val]"

definition put16bit_portable :: "u16 \<Rightarrow> bytes" where
  "put16bit_portable val = [byte_at 8 val, byte_at 0 val]"

definition sum32 :: "u8 \<Rightarrow> u8 \<Rightarrow> u8 \<Rightarrow> u8 \<Rightarrow> u32" where
  "sum32 b3 b2 b1 b0 = ucast b3 + 256 * (ucast b2 + 256 * (ucast b1 + 256 * ucast b0))"

fun get64bit_portable :: "bytes \<Rightarrow> (u64 \<times> bytes) option" where
  "get64bit_portable (b0 # b1 # b2 # b3 # b4 # b5 # b6 # b7 # bs) =
     Some (push_bit 32 (ucast (sum32 b3 b2 b1 b0)) OR ucast (sum32 b7 b6 b5 b4), bs)"
| "get64bit_portable _ = None"

fun get56bit_portable :: "bytes \<Rightarrow> (u64 \<times> bytes) option" where
  "get56bit_portable (b0 # b1 # b2 # b3 # b4 # b5 # b6 # bs) =
     Some (push_bit 32 (ucast (ucast b2 + 256 * (ucast b1 + 256 * ucast b0) :: u32)) OR ucast (sum32 b6 b5 b4 b3), bs)"
| "get56bit_portable _ = None"

fun get48bit_portable :: "bytes \<Rightarrow> (u64 \<times> bytes) option" where
  "get48bit_portable (b0 # b1 # b2 # b3 # b4 # b5 # bs) =
     Some (push_bit 32 (ucast (ucast b1 + 256 * ucast b0 :: u32)) OR ucast (sum32 b5 b4 b3 b2), bs)"
| "get48bit_portable _ = None"

fun get40bit_portable :: "bytes \<Rightarrow> (u64 \<times> bytes) option" where
  "get40bit_portable (b0 # b1 # b2 # b3 # b4 # bs) =
     Some (push_bit 32 (ucast b0) OR ucast (sum32 b4 b3 b2 b1), bs)"
| "get40bit_portable _ = None"

fun get32bit_portable :: "bytes \<Rightarrow> (u32 \<times> bytes) option" where
  "get32bit_portable (b0 # b1 # b2 # b3 # bs) = Some (sum32 b3 b2 b1 b0, bs)"
| "get32bit_portable _ = None"

fun get24bit_portable :: "bytes \<Rightarrow> (u32 \<times> bytes) option" where
  "get24bit_portable (b0 # b1 # b2 # bs) = Some (ucast b2 + 256 * (ucast b1 + 256 * ucast b0), bs)"
| "get24bit_portable _ = None"

fun get16bit_portable :: "bytes \<Rightarrow> (u16 \<times> bytes) option" where
  "get16bit_portable (b0 # b1 # bs) = Some (ucast (ucast b1 + 256 * ucast b0 :: u32), bs)"
| "get16bit_portable _ = None"

subsection \<open>Memory and values\<close>

lemma length_le_bytes [simp]: "length (le_bytes n v) = n"
  by (induction n arbitrary: v) auto

lemma length_mem_bytes [simp]: "length (mem_bytes big n v) = n"
  by (simp add: mem_bytes_def)

lemma le_int_range: "0 \<le> le_int bs" "le_int bs < 256 ^ length bs"
proof (induction bs)
  case (Cons b bs)
  have "uint b \<ge> 0" "uint b < 256" using uint_lt2p [of b] by simp_all
  with Cons show "0 \<le> le_int (b # bs)" "le_int (b # bs) < 256 ^ length (b # bs)" by simp_all
qed simp_all

lemma uint_low_byte: "uint (ucast (v :: 'a :: len word) :: u8) = uint v mod 256"
  by (simp add: unsigned_ucast_eq take_bit_eq_mod)

lemma uint_high_bytes: "uint (drop_bit 8 (v :: 'a :: len word)) = uint v div 256"
  by (subst unsigned_drop_bit_eq) (simp add: drop_bit_eq_div take_bit_eq_mod)

lemma le_int_bytes: "le_int (le_bytes n v) = uint v mod 256 ^ n"
proof (induction n arbitrary: v)
  case (Suc n)
  show ?case
    using Suc [of "drop_bit 8 v"]
    by (simp add: uint_low_byte uint_high_bytes zmod_zmult2_eq)
qed simp

lemma le_bytes_int:
  assumes "length bs = n" "8 * n \<le> LENGTH('a :: len)"
  shows "le_bytes n (word_of_int (le_int bs) :: 'a word) = bs"
  using assms
proof (induction bs arbitrary: n)
  case (Cons b bs)
  then obtain m where n: "n = Suc m" "length bs = m" by auto
  let ?v = "word_of_int (le_int (b # bs)) :: 'a word"
  have "(256 :: int) ^ n \<le> 2 ^ LENGTH('a)"
    using Cons.prems(2) power_increasing [of "8 * n" "LENGTH('a)" "2 :: int"] by (simp add: power_mult)
  then have v: "uint ?v = le_int (b # bs)"
    using le_int_range [of "b # bs"] Cons.prems(1)
    by (auto simp: uint_word_of_int simp del: le_int.simps intro!: mod_pos_pos_trivial)
  have b: "0 \<le> uint b" "uint b < 256" using uint_lt2p [of b] by simp_all
  have "ucast ?v = b" using v b by (simp add: word_uint_eq_iff uint_low_byte)
  moreover have "uint (drop_bit 8 ?v) = le_int bs" using v b by (simp add: uint_high_bytes)
  then have "drop_bit 8 ?v = word_of_int (le_int bs)" by (metis word_of_int_uint)
  ultimately show ?case using Cons.IH [OF n(2)] Cons.prems(2) n(1) by (simp del: of_int_add)
qed simp

lemma mem_value_bytes:
  "8 * n = LENGTH('a :: len) \<Longrightarrow> mem_value big (mem_bytes big n (v :: 'a word)) = v"
proof -
  assume n: "8 * n = LENGTH('a)"
  then have "(256 :: int) ^ n = 2 ^ LENGTH('a)" using power_mult [of "2 :: int" 8 n] by simp
  then show ?thesis using uint_lt2p [of v] by (simp add: mem_value_def mem_bytes_def le_int_bytes)
qed

lemma mem_bytes_value:
  "length bs = n \<Longrightarrow> 8 * n \<le> LENGTH('a :: len) \<Longrightarrow> mem_bytes big n (mem_value big bs :: 'a word) = bs"
  by (simp add: mem_bytes_def mem_value_def le_bytes_int)

subsection \<open>Swapping\<close>

lemma byte_masks64:
  "0xFF00000000000000 = push_bit 56 (mask 8 :: u64)" "0xFF000000000000 = push_bit 48 (mask 8 :: u64)"
  "0xFF0000000000 = push_bit 40 (mask 8 :: u64)" "0xFF00000000 = push_bit 32 (mask 8 :: u64)"
  "0xFF000000 = push_bit 24 (mask 8 :: u64)" "0xFF0000 = push_bit 16 (mask 8 :: u64)"
  "0xFF00 = push_bit 8 (mask 8 :: u64)" "0xFF = (mask 8 :: u64)"
  by (simp_all add: mask_eq_exp_minus_1 push_bit_eq_mult)

lemma byte_masks32:
  "0xFF000000 = push_bit 24 (mask 8 :: u32)" "0xFF0000 = push_bit 16 (mask 8 :: u32)"
  "0xFF00 = push_bit 8 (mask 8 :: u32)" "0xFF = (mask 8 :: u32)"
  "0xFF00 = push_bit 8 (mask 8 :: u16)" "0xFF = (mask 8 :: u16)"
  by (simp_all add: mask_eq_exp_minus_1 push_bit_eq_mult)

lemma bit_BSWAP64:
  assumes "j < 8"
  shows "bit (BSWAP64 v) j \<longleftrightarrow> bit v (56 + j)" "bit (BSWAP64 v) (8 + j) \<longleftrightarrow> bit v (48 + j)"
    "bit (BSWAP64 v) (16 + j) \<longleftrightarrow> bit v (40 + j)" "bit (BSWAP64 v) (24 + j) \<longleftrightarrow> bit v (32 + j)"
    "bit (BSWAP64 v) (32 + j) \<longleftrightarrow> bit v (24 + j)" "bit (BSWAP64 v) (40 + j) \<longleftrightarrow> bit v (16 + j)"
    "bit (BSWAP64 v) (48 + j) \<longleftrightarrow> bit v (8 + j)" "bit (BSWAP64 v) (56 + j) \<longleftrightarrow> bit v j"
  using assms by (simp_all add: BSWAP64_def byte_masks64 bit_simps)

lemma bit_BSWAP32:
  assumes "j < 8"
  shows "bit (BSWAP32 v) j \<longleftrightarrow> bit v (24 + j)" "bit (BSWAP32 v) (8 + j) \<longleftrightarrow> bit v (16 + j)"
    "bit (BSWAP32 v) (16 + j) \<longleftrightarrow> bit v (8 + j)" "bit (BSWAP32 v) (24 + j) \<longleftrightarrow> bit v j"
  using assms by (simp_all add: BSWAP32_def byte_masks32 bit_simps)

lemma bit_BSWAP16:
  assumes "j < 8"
  shows "bit (BSWAP16 v) j \<longleftrightarrow> bit v (8 + j)" "bit (BSWAP16 v) (8 + j) \<longleftrightarrow> bit v j"
  using assms by (simp_all add: BSWAP16_def byte_masks32 bit_simps)

lemma low_byte_eqI:
  assumes "\<And>j. j < 8 \<Longrightarrow> bit v (k + j) \<longleftrightarrow> bit w (l + j)"
  shows "ucast (drop_bit k v) = (ucast (drop_bit l w) :: u8)"
  by (rule bit_word_eqI) (simp add: bit_simps assms)

lemma le_bytes_8: "le_bytes 8 v = [ucast (drop_bit 0 v), ucast (drop_bit 8 v), ucast (drop_bit 16 v), ucast (drop_bit 24 v),
    ucast (drop_bit 32 v), ucast (drop_bit 40 v), ucast (drop_bit 48 v), ucast (drop_bit 56 v)]"
  by (simp add: numeral_eq_Suc drop_bit_drop_bit del: drop_bit_Suc)

lemma le_bytes_4: "le_bytes 4 v = [ucast (drop_bit 0 v), ucast (drop_bit 8 v), ucast (drop_bit 16 v), ucast (drop_bit 24 v)]"
  by (simp add: numeral_eq_Suc drop_bit_drop_bit del: drop_bit_Suc)

lemma le_bytes_2: "le_bytes 2 v = [ucast (drop_bit 0 v), ucast (drop_bit 8 v)]"
  by (simp add: numeral_eq_Suc drop_bit_drop_bit del: drop_bit_Suc)

lemmas le_bytes_list = le_bytes_8 le_bytes_4 le_bytes_2

lemma le_bytes_swap:
  "le_bytes 8 (BSWAP64 v) = rev (le_bytes 8 v)" "le_bytes 4 (BSWAP32 u) = rev (le_bytes 4 u)"
  "le_bytes 2 (BSWAP16 t) = rev (le_bytes 2 t)"
  unfolding le_bytes_list rev.simps append.simps list.inject
  by (intro conjI low_byte_eqI TrueI; simp add: bit_BSWAP64 bit_BSWAP32 bit_BSWAP16)+

text \<open>On every machine a variable is sent in network byte order.\<close>

lemma mem_bytes_swap:
  "mem_bytes big 8 (if big then v else BSWAP64 v) = rev (le_bytes 8 v)"
  "mem_bytes big 4 (if big then u else BSWAP32 u) = rev (le_bytes 4 u)"
  "mem_bytes big 2 (if big then t else BSWAP16 t) = rev (le_bytes 2 t)"
  by (simp_all add: mem_bytes_def le_bytes_swap)

lemma swap_swap: "BSWAP64 (BSWAP64 v) = v" "BSWAP32 (BSWAP32 u) = u" "BSWAP16 (BSWAP16 t) = t"
proof -
  have "le_int (le_bytes 8 (BSWAP64 (BSWAP64 v))) = le_int (le_bytes 8 v)" by (simp add: le_bytes_swap)
  moreover have "uint w mod 256 ^ 8 = uint w" for w :: u64 using uint_lt2p [of w] by simp
  ultimately show "BSWAP64 (BSWAP64 v) = v" by (simp only: le_int_bytes word_uint_eq_iff)
  have "le_int (le_bytes 4 (BSWAP32 (BSWAP32 u))) = le_int (le_bytes 4 u)" by (simp add: le_bytes_swap)
  moreover have "uint w mod 256 ^ 4 = uint w" for w :: u32 using uint_lt2p [of w] by simp
  ultimately show "BSWAP32 (BSWAP32 u) = u" by (simp only: le_int_bytes word_uint_eq_iff)
  have "le_int (le_bytes 2 (BSWAP16 (BSWAP16 t))) = le_int (le_bytes 2 t)" by (simp add: le_bytes_swap)
  moreover have "uint w mod 256 ^ 2 = uint w" for w :: u16 using uint_lt2p [of w] by simp
  ultimately show "BSWAP16 (BSWAP16 t) = t" by (simp only: le_int_bytes word_uint_eq_iff)
qed

lemma mem_value_big:
  "rev (le_bytes n v) = bs \<Longrightarrow> 8 * n = LENGTH('a :: len) \<Longrightarrow> (v :: 'a word) = mem_value True bs"
  using mem_value_bytes [of n True v] by (simp add: mem_bytes_def)

lemma le_bytes_little:
  "length bs = n \<Longrightarrow> 8 * n \<le> LENGTH('a :: len) \<Longrightarrow> le_bytes n (mem_value False bs :: 'a word) = bs"
  using mem_bytes_value [of bs n False] by (simp add: mem_bytes_def)

text \<open>The value that a read of a whole variable gives.\<close>

lemma mem_value_swap:
  "length bs = 8 \<Longrightarrow> (if big then mem_value big bs else BSWAP64 (mem_value big bs)) = mem_value True bs"
  "length bs = 4 \<Longrightarrow> (if big then mem_value big bs else BSWAP32 (mem_value big bs)) = mem_value True bs"
  "length bs = 2 \<Longrightarrow> (if big then mem_value big bs else BSWAP16 (mem_value big bs)) = mem_value True bs"
proof -
  show "length bs = 8 \<Longrightarrow> (if big then mem_value big bs else BSWAP64 (mem_value big bs)) = mem_value True bs"
    using mem_value_big [of 8 "BSWAP64 (mem_value False bs)" bs] le_bytes_little [where 'a = 64, of bs 8] by (auto simp: le_bytes_swap)
  show "length bs = 4 \<Longrightarrow> (if big then mem_value big bs else BSWAP32 (mem_value big bs)) = mem_value True bs"
    using mem_value_big [of 4 "BSWAP32 (mem_value False bs)" bs] le_bytes_little [where 'a = 32, of bs 4] by (auto simp: le_bytes_swap)
  show "length bs = 2 \<Longrightarrow> (if big then mem_value big bs else BSWAP16 (mem_value big bs)) = mem_value True bs"
    using mem_value_big [of 2 "BSWAP16 (mem_value False bs)" bs] le_bytes_little [where 'a = 16, of bs 2] by (auto simp: le_bytes_swap)
qed

subsection \<open>The fast variant against the portable one\<close>

lemma byte_at_ucast: "byte_at k v = ucast (drop_bit k v)"
proof -
  have "drop_bit k v AND 0xFF = take_bit 8 (drop_bit k v)" by (simp add: take_bit_eq_mask mask_eq_exp_minus_1)
  then show ?thesis
    unfolding byte_at_def by (simp only:) (rule bit_word_eqI, auto simp: bit_simps dest: bit_imp_le_length)
qed

lemmas put_defs = put64bit_def put56bit_def put48bit_def put40bit_def put32bit_def put24bit_def put16bit_def
  put64bit_portable_def put56bit_portable_def put48bit_portable_def put40bit_portable_def put32bit_portable_def
  put24bit_portable_def put16bit_portable_def

lemma put_portable:
  "put64bit big v = put64bit_portable v" "put56bit big v = put56bit_portable v" "put48bit big v = put48bit_portable v"
  "put40bit big v = put40bit_portable v" "put32bit big u = put32bit_portable u" "put24bit big u = put24bit_portable u"
  "put16bit big t = put16bit_portable t"
  by (simp_all add: put_defs mem_bytes_swap le_bytes_list byte_at_ucast)

lemma or_shifted: "push_bit 32 (ucast (x :: u32)) OR ucast (y :: u32) = (word_of_int (uint x * 2 ^ 32 + uint y) :: u64)"
proof -
  have "word_of_int (concat_bit 32 (uint y) (uint x)) = (push_bit 32 (ucast x) OR ucast y :: u64)"
    by (rule bit_word_eqI) (auto simp: bit_simps bit_concat_bit_iff dest: bit_imp_le_length)
  moreover have "concat_bit 32 (uint y) (uint x) = uint x * 2 ^ 32 + uint y"
    using uint_lt2p [of y] by (simp add: concat_bit_eq push_bit_eq_mult take_bit_int_eq_self)
  ultimately show ?thesis by simp
qed

lemma uint_sum32: "uint (sum32 a b c d) = le_int [a, b, c, d]"
proof -
  have "sum32 a b c d = word_of_int (le_int [a, b, c, d])" by (simp add: sum32_def)
  moreover have "le_int [a, b, c, d] < 2 ^ 32" "0 \<le> le_int [a, b, c, d]"
    using le_int_range [of "[a, b, c, d]"] by (simp_all del: le_int.simps)
  ultimately show ?thesis by (simp add: uint_word_of_int del: le_int.simps)
qed

lemma sum32_short:
  "ucast b + 256 * (ucast c + 256 * ucast d) = sum32 b c d 0" "ucast c + 256 * ucast d = sum32 c d 0 0"
  "(ucast d :: u64) = ucast (sum32 d 0 0 0)"
proof -
  have "(ucast d :: u64) = ucast (ucast d :: u32)" by (rule bit_word_eqI) (auto simp: bit_simps dest: bit_imp_le_length)
  then show "(ucast d :: u64) = ucast (sum32 d 0 0 0)" by (simp add: sum32_def)
qed (simp_all add: sum32_def)

lemma le_int_append: "le_int (xs @ ys) = le_int xs + 256 ^ length xs * le_int ys"
  by (induction xs) (simp_all add: algebra_simps)

lemma mem_value_word:
  "length bs = 4 \<Longrightarrow> length cs = 4 \<Longrightarrow>
   mem_value True (cs @ bs) = (word_of_int (le_int (rev cs) * 2 ^ 32 + le_int (rev bs)) :: u64)"
proof -
  assume len: "length bs = 4" "length cs = 4"
  then show ?thesis by (simp add: mem_value_def algebra_simps le_int_append)
qed

lemma get64_portable: "get64bit big bs = get64bit_portable bs"
proof (cases "length bs < 8")
  case True
  then show ?thesis by (cases bs rule: get64bit_portable.cases) (simp_all add: get64bit_def)
next
  case False
  then obtain b0 b1 b2 b3 b4 b5 b6 b7 cs where "bs = b0 # b1 # b2 # b3 # b4 # b5 # b6 # b7 # cs"
    by (cases bs rule: get64bit_portable.cases) simp_all
  with mem_value_swap(1) [of "[b0, b1, b2, b3, b4, b5, b6, b7]" big]
    mem_value_word [of "[b4, b5, b6, b7]" "[b0, b1, b2, b3]"]
  show ?thesis by (simp add: get64bit_def or_shifted uint_sum32 del: le_int.simps)
qed

lemma replicate_small: "replicate 1 x = [x]" "replicate 2 x = [x, x]" "replicate 3 x = [x, x, x]"
  by (simp_all add: numeral_eq_Suc)

lemma get56_portable: "get56bit big bs = get56bit_portable bs"
proof (cases "length bs < 7")
  case True
  then show ?thesis by (cases bs rule: get56bit_portable.cases) (simp_all add: get56bit_def)
next
  case False
  then obtain b0 b1 b2 b3 b4 b5 b6 cs where bs: "bs = b0 # b1 # b2 # b3 # b4 # b5 # b6 # cs"
    by (cases bs rule: get56bit_portable.cases) simp_all
  from mem_value_swap(1) [of "[0, b0, b1, b2, b3, b4, b5, b6]" big]
    mem_value_word [of "[b3, b4, b5, b6]" "[0, b0, b1, b2]"]
  show ?thesis
    unfolding bs get56bit_portable.simps sum32_short(1)
    by (simp add: get56bit_def replicate_small or_shifted uint_sum32 del: le_int.simps)
qed

lemma get48_portable: "get48bit big bs = get48bit_portable bs"
proof (cases "length bs < 6")
  case True
  then show ?thesis by (cases bs rule: get48bit_portable.cases) (simp_all add: get48bit_def)
next
  case False
  then obtain b0 b1 b2 b3 b4 b5 cs where "bs = b0 # b1 # b2 # b3 # b4 # b5 # cs"
    by (cases bs rule: get48bit_portable.cases) simp_all
  with mem_value_swap(1) [of "[0, 0, b0, b1, b2, b3, b4, b5]" big]
    mem_value_word [of "[b2, b3, b4, b5]" "[0, 0, b0, b1]"]
  show ?thesis
    by (simp add: get48bit_def replicate_small sum32_short(2) or_shifted uint_sum32 del: le_int.simps)
qed

lemma get40_portable: "get40bit big bs = get40bit_portable bs"
proof (cases "length bs < 5")
  case True
  then show ?thesis by (cases bs rule: get40bit_portable.cases) (simp_all add: get40bit_def)
next
  case False
  then obtain b0 b1 b2 b3 b4 cs where "bs = b0 # b1 # b2 # b3 # b4 # cs"
    by (cases bs rule: get40bit_portable.cases) simp_all
  with mem_value_swap(1) [of "[0, 0, 0, b0, b1, b2, b3, b4]" big]
    mem_value_word [of "[b1, b2, b3, b4]" "[0, 0, 0, b0]"]
  show ?thesis
    by (simp add: get40bit_def replicate_small sum32_short(3) or_shifted uint_sum32 del: le_int.simps)
qed

lemma mem_value_sum32: "mem_value True [d, c, b, a] = sum32 a b c d"
  by (simp add: mem_value_def sum32_def)

lemma get32_portable: "get32bit big bs = get32bit_portable bs"
proof (cases "length bs < 4")
  case True
  then show ?thesis by (cases bs rule: get32bit_portable.cases) (simp_all add: get32bit_def)
next
  case False
  then obtain b0 b1 b2 b3 cs where "bs = b0 # b1 # b2 # b3 # cs"
    by (cases bs rule: get32bit_portable.cases) simp_all
  with mem_value_swap(2) [of "[b0, b1, b2, b3]" big] show ?thesis
    by (simp add: get32bit_def Let_def mem_value_sum32)
qed

lemma get24_portable: "get24bit big bs = get24bit_portable bs"
proof (cases "length bs < 3")
  case True
  then show ?thesis by (cases bs rule: get24bit_portable.cases) (simp_all add: get24bit_def)
next
  case False
  then obtain b0 b1 b2 cs where bs: "bs = b0 # b1 # b2 # cs"
    by (cases bs rule: get24bit_portable.cases) simp_all
  from mem_value_swap(2) [of "[0, b0, b1, b2]" big] show ?thesis
    unfolding bs get24bit_portable.simps sum32_short(1)
    by (simp add: get24bit_def replicate_small Let_def mem_value_sum32)
qed

lemma mem_value_16: "mem_value True [d, c] = (ucast (ucast c + 256 * ucast d :: u32) :: u16)"
proof -
  have "(ucast (sum32 c d 0 0) :: u16) = word_of_int (uint (sum32 c d 0 0))" by (rule ucast_eq)
  then show ?thesis unfolding sum32_short(2) uint_sum32 by (simp add: mem_value_def)
qed

lemma get16_portable: "get16bit big bs = get16bit_portable bs"
proof (cases "length bs < 2")
  case True
  then show ?thesis by (cases bs rule: get16bit_portable.cases) (simp_all add: get16bit_def)
next
  case False
  then obtain b0 b1 cs where "bs = b0 # b1 # cs"
    by (cases bs rule: get16bit_portable.cases) simp_all
  with mem_value_swap(3) [of "[b0, b1]" big] show ?thesis
    by (simp add: get16bit_def Let_def mem_value_16)
qed

subsection \<open>Round trips\<close>

lemma le_bytes_take: "k \<le> n \<Longrightarrow> take k (le_bytes n v) = le_bytes k v"
proof (induction n arbitrary: k v)
  case (Suc n)
  then show ?case by (cases k) simp_all
qed simp

text \<open>The value that is read from the low \<open>k\<close> bytes with zeros in place of the others.\<close>

lemma mem_value_low:
  assumes "k \<le> n"
  shows "mem_value True (replicate (n - k) 0 @ drop (n - k) (rev (le_bytes n (v :: 'a :: len word)))) = take_bit (8 * k) v"
proof -
  have z: "le_int (xs @ replicate m 0) = le_int xs" for xs m
  proof -
    have "le_int (replicate m 0) = 0" by (induction m) simp_all
    then show ?thesis by (simp add: le_int_append)
  qed
  have "rev (replicate (n - k) 0 @ drop (n - k) (rev (le_bytes n v))) = le_bytes k v @ replicate (n - k) 0"
    using assms by (simp add: rev_drop le_bytes_take)
  then have "mem_value True (replicate (n - k) 0 @ drop (n - k) (rev (le_bytes n v))) = (word_of_int (uint v mod 256 ^ k) :: 'a word)"
    by (simp add: mem_value_def z le_int_bytes)
  also have "uint v mod 256 ^ k = take_bit (8 * k) (uint v)" by (simp add: take_bit_eq_mod power_mult)
  also have "word_of_int (take_bit (8 * k) (uint v)) = take_bit (8 * k) v"
    by (rule bit_word_eqI) (auto simp: bit_simps)
  finally show ?thesis .
qed

lemma length_put [simp]:
  "length (put64bit big v) = 8" "length (put56bit big v) = 7" "length (put48bit big v) = 6" "length (put40bit big v) = 5"
  "length (put32bit big u) = 4" "length (put24bit big u) = 3" "length (put16bit big t) = 2" "length (put8bit b) = 1"
  by (simp_all add: put_defs put8bit_def)

lemma get_put [simp]:
  "get64bit big (put64bit big v @ bs) = Some (v, bs)" "get32bit big (put32bit big u @ bs) = Some (u, bs)"
  "get16bit big (put16bit big t @ bs) = Some (t, bs)"
  by (simp_all add: get64bit_def get32bit_def get16bit_def)
    (simp_all add: put_defs mem_value_bytes swap_swap)

lemma mask_8: "(0xFF :: u8) = mask 8"
  by (simp add: mask_eq_exp_minus_1)

lemma get_put_8 [simp]: "get8bit (put8bit b @ bs) = Some (b, bs)"
proof -
  have "b AND 0xFF = b" by (rule bit_word_eqI) (auto simp: bit_simps mask_8 dest: bit_imp_le_length)
  then show ?thesis by (simp add: put8bit_def)
qed

lemma get_put_short [simp]:
  "get56bit big (put56bit big v @ bs) = Some (take_bit 56 v, bs)"
  "get48bit big (put48bit big v @ bs) = Some (take_bit 48 v, bs)"
  "get40bit big (put40bit big v @ bs) = Some (take_bit 40 v, bs)"
  "get24bit big (put24bit big u @ bs) = Some (take_bit 24 u, bs)"
proof -
  have "put56bit big v = drop 1 (rev (le_bytes 8 v))" by (simp add: put56bit_def mem_bytes_swap)
  then show "get56bit big (put56bit big v @ bs) = Some (take_bit 56 v, bs)"
    using mem_value_swap(1) [of "replicate 1 0 @ drop 1 (rev (le_bytes 8 v))" big] mem_value_low [of 7 8 v]
    by (cases big) (simp_all add: get56bit_def Let_def)
  have "put48bit big v = drop 2 (rev (le_bytes 8 v))" by (simp add: put48bit_def mem_bytes_swap)
  then show "get48bit big (put48bit big v @ bs) = Some (take_bit 48 v, bs)"
    using mem_value_swap(1) [of "replicate 2 0 @ drop 2 (rev (le_bytes 8 v))" big] mem_value_low [of 6 8 v]
    by (cases big) (simp_all add: get48bit_def Let_def)
  have "put40bit big v = drop 3 (rev (le_bytes 8 v))" by (simp add: put40bit_def mem_bytes_swap)
  then show "get40bit big (put40bit big v @ bs) = Some (take_bit 40 v, bs)"
    using mem_value_swap(1) [of "replicate 3 0 @ drop 3 (rev (le_bytes 8 v))" big] mem_value_low [of 5 8 v]
    by (cases big) (simp_all add: get40bit_def Let_def)
  have "put24bit big u = drop 1 (rev (le_bytes 4 u))" by (simp add: put24bit_def mem_bytes_swap)
  then show "get24bit big (put24bit big u @ bs) = Some (take_bit 24 u, bs)"
    using mem_value_swap(2) [of "replicate 1 0 @ drop 1 (rev (le_bytes 4 u))" big] mem_value_low [of 3 4 u]
    by (cases big) (simp_all add: get24bit_def Let_def)
qed

subsection \<open>Properties\<close>

text \<open>
  C16. The fast packing is the portable one: on a machine of either byte order, the memory copies with
  swapped variables of \<^verbatim>\<open>datapack.h\<close> write the same bytes and read the same values as the byte-wise
  formulas, for every width, and a read behind the end of the buffer is one in both variants.
\<close>

theorem datapack_portable:
  "put64bit big v = put64bit_portable v \<and> put56bit big v = put56bit_portable v \<and>
   put48bit big v = put48bit_portable v \<and> put40bit big v = put40bit_portable v \<and>
   put32bit big u = put32bit_portable u \<and> put24bit big u = put24bit_portable u \<and>
   put16bit big t = put16bit_portable t \<and>
   get64bit big bs = get64bit_portable bs \<and> get56bit big bs = get56bit_portable bs \<and>
   get48bit big bs = get48bit_portable bs \<and> get40bit big bs = get40bit_portable bs \<and>
   get32bit big bs = get32bit_portable bs \<and> get24bit big bs = get24bit_portable bs \<and>
   get16bit big bs = get16bit_portable bs"
  by (simp add: put_portable get64_portable get56_portable get48_portable get40_portable get32_portable
      get24_portable get16_portable)

text \<open>
  C17. Packing and unpacking: what one machine writes, a machine of any byte order reads back, the rest of
  the buffer untouched; the odd widths keep exactly the low 56, 48, 40 and 24 bits.
\<close>

theorem datapack_roundtrip:
  "get64bit big' (put64bit big v @ bs) = Some (v, bs) \<and> get56bit big' (put56bit big v @ bs) = Some (take_bit 56 v, bs) \<and>
   get48bit big' (put48bit big v @ bs) = Some (take_bit 48 v, bs) \<and> get40bit big' (put40bit big v @ bs) = Some (take_bit 40 v, bs) \<and>
   get32bit big' (put32bit big u @ bs) = Some (u, bs) \<and> get24bit big' (put24bit big u @ bs) = Some (take_bit 24 u, bs) \<and>
   get16bit big' (put16bit big t @ bs) = Some (t, bs) \<and> get8bit (put8bit b @ bs) = Some (b, bs)"
proof -
  have "put64bit big v = put64bit big' v" "put56bit big v = put56bit big' v" "put48bit big v = put48bit big' v"
    "put40bit big v = put40bit big' v" "put32bit big u = put32bit big' u" "put24bit big u = put24bit big' u"
    "put16bit big t = put16bit big' t" by (simp_all only: put_portable)
  then show ?thesis by (simp only: get_put get_put_short get_put_8 simp_thms)
qed

end
