(* ===== verification/Lock_Protocol.thy ===== *)
theory Lock_Protocol
  imports Lock_Service Datapack "HOL-Library.Monad_Syntax"
begin

text \<open>
  The packets of the lock service: what the client writes and reads (\<^verbatim>\<open>fs_flock\<close> and \<^verbatim>\<open>fs_posixlock\<close> in
  \<^verbatim>\<open>mfsclient/mastercomm.c\<close>) and the handlers of the master (\<^verbatim>\<open>matoclserv_fuse_flock\<close>,
  \<^verbatim>\<open>matoclserv_fuse_posix_lock\<close> and \<^verbatim>\<open>matoclserv_fuse_sustained_inodes\<close> in
  \<^verbatim>\<open>mfsmaster/matoclserv.c\<close>). Client and master may have different byte orders.
\<close>

subsection \<open>Packets\<close>

definition CLTOMA_FUSE_FLOCK :: u32 where "CLTOMA_FUSE_FLOCK = 492"
definition MATOCL_FUSE_FLOCK :: u32 where "MATOCL_FUSE_FLOCK = 493"
definition CLTOMA_FUSE_POSIX_LOCK :: u32 where "CLTOMA_FUSE_POSIX_LOCK = 494"
definition MATOCL_FUSE_POSIX_LOCK :: u32 where "MATOCL_FUSE_POSIX_LOCK = 495"

text \<open>
  A packet of the master in the output queue of a connection: type, size and data. As in the code the
  caller says how long the data will be before it writes them.
\<close>

datatype packet = Packet (pk_conn: connptr) (pk_bytes: bytes)

definition matoclserv_create_packet :: "bool \<Rightarrow> connptr \<Rightarrow> u32 \<Rightarrow> u32 \<Rightarrow> bytes \<Rightarrow> packet" where
  "matoclserv_create_packet big eptr type leng data =
     Packet eptr (put32bit big type @ put32bit big leng @ data)"

definition matoclserv_fuse_flock_wake_up :: "bool \<Rightarrow> connptr \<Rightarrow> u32 \<Rightarrow> u8 \<Rightarrow> packet" where
  "matoclserv_fuse_flock_wake_up big eptr msgid status =
     matoclserv_create_packet big eptr MATOCL_FUSE_FLOCK 5 (put32bit big msgid @ put8bit status)"

definition matoclserv_fuse_posix_lock_wake_up :: "bool \<Rightarrow> connptr \<Rightarrow> u32 \<Rightarrow> u8 \<Rightarrow> packet" where
  "matoclserv_fuse_posix_lock_wake_up big eptr msgid status =
     matoclserv_create_packet big eptr MATOCL_FUSE_POSIX_LOCK 5 (put32bit big msgid @ put8bit status)"

text \<open>The packets that the events of an operation put into output queues.\<close>

fun wake_up_packets :: "bool \<Rightarrow> out_event list \<Rightarrow> packet list" where
  "wake_up_packets big [] = []"
| "wake_up_packets big (Flock_wake_up c m st # ev) = matoclserv_fuse_flock_wake_up big c m st # wake_up_packets big ev"
| "wake_up_packets big (Posix_wake_up c m st # ev) = matoclserv_fuse_posix_lock_wake_up big c m st # wake_up_packets big ev"
| "wake_up_packets big (_ # ev) = wake_up_packets big ev"

subsection \<open>The handlers of the master\<close>

text \<open>The state and the events after a handler and the packets it sends; \<^const>\<open>None\<close> when the connection is killed.\<close>

definition matoclserv_fuse_flock ::
  "bool \<Rightarrow> u8 \<Rightarrow> lockstate \<Rightarrow> connptr \<Rightarrow> u32 \<Rightarrow> bytes \<Rightarrow> (lockstate \<times> out_event list \<times> packet list) option" where
  "matoclserv_fuse_flock big mode ls eptr sessionid data =
     (if length data \<noteq> 21 then None else do {
        (msgid, data) \<leftarrow> get32bit big data;
        (inode, data) \<leftarrow> get32bit big data;
        (reqid, data) \<leftarrow> get32bit big data;
        (owner, data) \<leftarrow> get64bit big data;
        (cmd, data) \<leftarrow> get8bit data;
        let (status, tab, ev) = flock_locks_cmd mode (of_checknode (ls_open ls)) (ls_flock ls) eptr sessionid msgid reqid
              inode owner cmd;
            ls' = ls\<lparr>ls_flock := tab\<rparr>;
            wake = wake_up_packets big ev
        in if status = MFS_ERROR_WAITING then Some (ls', ev, wake)
           else Some (ls', ev, wake @ [matoclserv_create_packet big eptr MATOCL_FUSE_FLOCK 5
                  (put32bit big msgid @ put8bit status)])
      })"

definition matoclserv_fuse_posix_lock ::
  "bool \<Rightarrow> lockstate \<Rightarrow> connptr \<Rightarrow> u32 \<Rightarrow> bytes \<Rightarrow> (lockstate \<times> out_event list \<times> packet list) option" where
  "matoclserv_fuse_posix_lock big ls eptr sessionid data =
     (if length data \<noteq> 42 then None else do {
        (msgid, data) \<leftarrow> get32bit big data;
        (inode, data) \<leftarrow> get32bit big data;
        (reqid, data) \<leftarrow> get32bit big data;
        (owner, data) \<leftarrow> get64bit big data;
        (pid, data) \<leftarrow> get32bit big data;
        (cmd, data) \<leftarrow> get8bit data;
        (type, data) \<leftarrow> get8bit data;
        (start, data) \<leftarrow> get64bit big data;
        (end, data) \<leftarrow> get64bit big data;
        let r = posix_lock_cmd (of_checknode (ls_open ls)) (ls_posix ls) eptr sessionid msgid reqid inode owner cmd
              \<lparr>pa_type = type, pa_start = start, pa_end = end, pa_pid = pid\<rparr>;
            ls' = ls\<lparr>ls_posix := pr_table r\<rparr>;
            wake = wake_up_packets big (pr_events r)
        in if pr_status r = MFS_ERROR_WAITING then Some (ls', pr_events r, wake)
           else if cmd = POSIX_LOCK_CMD_GET \<and> pr_status r = MFS_STATUS_OK then
             Some (ls', pr_events r, wake @ [matoclserv_create_packet big eptr MATOCL_FUSE_POSIX_LOCK 25
               (put32bit big msgid @ put32bit big (pa_pid (pr_args r)) @ put8bit (pa_type (pr_args r)) @
                put64bit big (pa_start (pr_args r)) @ put64bit big (pa_end (pr_args r)))])
           else Some (ls', pr_events r, wake @ [matoclserv_create_packet big eptr MATOCL_FUSE_POSIX_LOCK 5
               (put32bit big msgid @ put8bit (pr_status r))])
      })"



subsection \<open>The client\<close>

text \<open>
  A request in the output buffer of a thread: command, size, the thread's packet number and the data,
  whose length the caller gives in advance. The answer is what the receiving thread hands over, without the packet number.
\<close>

definition fs_createpacket :: "bool \<Rightarrow> u32 \<Rightarrow> u32 \<Rightarrow> u32 \<Rightarrow> bytes \<Rightarrow> bytes" where
  "fs_createpacket big packetid cmd leng data =
     put32bit big cmd @ put32bit big (leng + 4) @ put32bit big packetid @ data"

definition fs_flock_request :: "bool \<Rightarrow> u32 \<Rightarrow> u32 \<Rightarrow> u32 \<Rightarrow> u64 \<Rightarrow> u8 \<Rightarrow> bytes" where
  "fs_flock_request big packetid inode reqid owner cmd =
     fs_createpacket big packetid CLTOMA_FUSE_FLOCK 17
       (put32bit big inode @ put32bit big reqid @ put64bit big owner @ put8bit cmd)"

definition MFS_ERROR_IO :: u8 where [simp]: "MFS_ERROR_IO = 22"

fun fs_flock_answer :: "bytes option \<Rightarrow> u8" where
  "fs_flock_answer (Some [status]) = status"
| "fs_flock_answer _ = MFS_ERROR_IO"

definition fs_posixlock_request ::
  "bool \<Rightarrow> u32 \<Rightarrow> u32 \<Rightarrow> u32 \<Rightarrow> u64 \<Rightarrow> u8 \<Rightarrow> u8 \<Rightarrow> u64 \<Rightarrow> u64 \<Rightarrow> u32 \<Rightarrow> bytes" where
  "fs_posixlock_request big packetid inode reqid owner cmd type start end pid =
     fs_createpacket big packetid CLTOMA_FUSE_POSIX_LOCK 38
       (put32bit big inode @ put32bit big reqid @ put64bit big owner @ put32bit big pid @ put8bit cmd @ put8bit type @
        put64bit big start @ put64bit big end)"

text \<open>The status and what \<^verbatim>\<open>fs_posixlock\<close> leaves in its result arguments when all four are given.\<close>

definition fs_posixlock_answer :: "bool \<Rightarrow> bytes option \<Rightarrow> u8 \<times> plock_args" where
  "fs_posixlock_answer big ans =
     (let none = \<lparr>pa_type = POSIX_LOCK_UNLCK, pa_start = 0, pa_end = 0, pa_pid = 0\<rparr> in
      case ans of
        None \<Rightarrow> (MFS_ERROR_IO, none)
      | Some data \<Rightarrow>
          if length data = 1 then (hd data, none)
          else if length data = 21 then
            (case do {
               (pid, data) \<leftarrow> get32bit big data;
               (type, data) \<leftarrow> get8bit data;
               (start, data) \<leftarrow> get64bit big data;
               (end, data) \<leftarrow> get64bit big data;
               Some \<lparr>pa_type = type, pa_start = start, pa_end = end, pa_pid = pid\<rparr>
             } of Some args \<Rightarrow> (MFS_STATUS_OK, args) | None \<Rightarrow> (MFS_ERROR_IO, none))
          else (MFS_ERROR_IO, none))"

subsection \<open>Byte orders\<close>

text \<open>What a machine writes does not depend on its byte order.\<close>

lemma put_any_order: "put64bit big v = put64bit True v" "put32bit big u = put32bit True u"
  by (simp_all only: put_portable)

lemma get_put_any [simp]:
  "get64bit big (put64bit True v @ bs) = Some (v, bs)" "get32bit big (put32bit True u @ bs) = Some (u, bs)"
  using get_put [of big] put_any_order [of big] by metis+

lemma get_put_end [simp]:
  "get64bit big (put64bit True v) = Some (v, [])" "get32bit big (put32bit True u) = Some (u, [])"
  "get8bit (put8bit b) = Some (b, [])"
  using get_put_any(1) [of big v "[]"] get_put_any(2) [of big u "[]"] get_put_8 [of b "[]"] by simp_all

lemma put8bit_byte: "put8bit b = [b]"
  using get_put_end(3) [of b] by (simp add: put8bit_def)

text \<open>
  A packet as its receiver reads it: type, message number and data, provided that the size in the
  header is the size of what follows.
\<close>

definition packet_read :: "bool \<Rightarrow> packet \<Rightarrow> (u32 \<times> u32 \<times> bytes) option" where
  "packet_read big p = do {
     (type, data) \<leftarrow> get32bit big (pk_bytes p);
     (leng, data) \<leftarrow> get32bit big data;
     if unat leng = length data then do {
       (msgid, data) \<leftarrow> get32bit big data;
       Some (type, msgid, data)
     } else None
   }"

lemma packet_read_create [simp]:
  "unat leng = 4 + length data \<Longrightarrow>
   packet_read big (matoclserv_create_packet big' eptr type leng (put32bit True msgid @ data)) = Some (type, msgid, data)"
  unfolding packet_read_def matoclserv_create_packet_def put_any_order [of big'] by simp




subsection \<open>Properties\<close>

text \<open>
  C18. A BSD lock request end to end: for a client and a master of any byte orders, the request of
  \<^verbatim>\<open>fs_flock\<close> carries its type and size, the master's handler runs exactly the command that was asked for,
  on behalf of this connection and session, and then answers this connection unless the lock has to be
  waited for, with a packet of the right type, size and message number; the client decodes the
  status of the command from the answer.
\<close>

theorem flock_request_served:
  "\<exists>data. get32bit big' (fs_flock_request big msgid inode reqid owner cmd) =
       Some (CLTOMA_FUSE_FLOCK, put32bit big' (word_of_nat (length data)) @ data) \<and>
     (let (status, tab, ev) = flock_locks_cmd mode (of_checknode (ls_open ls)) (ls_flock ls) eptr ses msgid reqid inode owner cmd
      in if status = MFS_ERROR_WAITING
         then matoclserv_fuse_flock big' mode ls eptr ses data = Some (ls\<lparr>ls_flock := tab\<rparr>, ev, wake_up_packets big' ev)
         else \<exists>p. matoclserv_fuse_flock big' mode ls eptr ses data = Some (ls\<lparr>ls_flock := tab\<rparr>, ev, wake_up_packets big' ev @ [p]) \<and>
           pk_conn p = eptr \<and> (\<exists>ans. packet_read big p = Some (MATOCL_FUSE_FLOCK, msgid, ans) \<and>
             fs_flock_answer (Some ans) = status))"
proof -
  define data where "data = put32bit True msgid @ put32bit True inode @ put32bit True reqid @ put64bit True owner @ put8bit cmd"
  have len: "length data = 21" by (simp add: data_def)
  have "get32bit big' (fs_flock_request big msgid inode reqid owner cmd) =
      Some (CLTOMA_FUSE_FLOCK, put32bit big' (word_of_nat (length data)) @ data)"
    unfolding fs_flock_request_def fs_createpacket_def put_any_order [of big] put_any_order [of big'] len
    by (simp add: data_def)
  moreover obtain status tab ev where r: "flock_locks_cmd mode (of_checknode (ls_open ls)) (ls_flock ls) eptr ses
      msgid reqid inode owner cmd = (status, tab, ev)" by (metis prod_cases3)
  have "matoclserv_fuse_flock big' mode ls eptr ses data =
      Some (ls\<lparr>ls_flock := tab\<rparr>, ev, wake_up_packets big' ev @ (if status = MFS_ERROR_WAITING then [] else
        [matoclserv_create_packet big' eptr MATOCL_FUSE_FLOCK 5 (put32bit True msgid @ put8bit status)]))"
    unfolding matoclserv_fuse_flock_def put_any_order [of big'] using len r by (simp add: data_def)
  ultimately show ?thesis
    using r by (intro exI [of _ data]) (simp add: put8bit_byte, simp add: matoclserv_create_packet_def)
qed

text \<open>
  C19. A POSIX lock request end to end: as for BSD locks; and for a query the client decodes the lock that
  stands in the way (type, range and process number), or that there is none, as the lock manager found it.
\<close>

theorem posix_request_served:
  "\<exists>data. get32bit big' (fs_posixlock_request big msgid inode reqid owner cmd type start end pid) =
       Some (CLTOMA_FUSE_POSIX_LOCK, put32bit big' (word_of_nat (length data)) @ data) \<and>
     (let r = posix_lock_cmd (of_checknode (ls_open ls)) (ls_posix ls) eptr ses msgid reqid inode owner cmd
            \<lparr>pa_type = type, pa_start = start, pa_end = end, pa_pid = pid\<rparr>;
          ls' = ls\<lparr>ls_posix := pr_table r\<rparr>; wake = wake_up_packets big' (pr_events r)
      in if pr_status r = MFS_ERROR_WAITING
         then matoclserv_fuse_posix_lock big' ls eptr ses data = Some (ls', pr_events r, wake)
         else \<exists>p. matoclserv_fuse_posix_lock big' ls eptr ses data = Some (ls', pr_events r, wake @ [p]) \<and> pk_conn p = eptr \<and>
           (\<exists>ans. packet_read big p = Some (MATOCL_FUSE_POSIX_LOCK, msgid, ans) \<and>
             (if cmd = POSIX_LOCK_CMD_GET \<and> pr_status r = MFS_STATUS_OK
              then fs_posixlock_answer big (Some ans) = (MFS_STATUS_OK, pr_args r)
              else fst (fs_posixlock_answer big (Some ans)) = pr_status r)))"
proof -
  define data where "data = put32bit True msgid @ put32bit True inode @ put32bit True reqid @ put64bit True owner @
    put32bit True pid @ put8bit cmd @ put8bit type @ put64bit True start @ put64bit True end"
  have len: "length data = 42" by (simp add: data_def)
  have "get32bit big' (fs_posixlock_request big msgid inode reqid owner cmd type start end pid) =
      Some (CLTOMA_FUSE_POSIX_LOCK, put32bit big' (word_of_nat (length data)) @ data)"
    unfolding fs_posixlock_request_def fs_createpacket_def put_any_order [of big] put_any_order [of big'] len
    by (simp add: data_def)
  moreover define r where "r = posix_lock_cmd (of_checknode (ls_open ls)) (ls_posix ls) eptr ses msgid reqid inode owner
    cmd \<lparr>pa_type = type, pa_start = start, pa_end = end, pa_pid = pid\<rparr>"
  define reply where "reply = (if cmd = POSIX_LOCK_CMD_GET \<and> pr_status r = MFS_STATUS_OK
    then put32bit True (pa_pid (pr_args r)) @ put8bit (pa_type (pr_args r)) @
      put64bit True (pa_start (pr_args r)) @ put64bit True (pa_end (pr_args r)) else put8bit (pr_status r))"
  define p where "p = matoclserv_create_packet big' eptr MATOCL_FUSE_POSIX_LOCK
    (if cmd = POSIX_LOCK_CMD_GET \<and> pr_status r = MFS_STATUS_OK then 25 else 5) (put32bit True msgid @ reply)"
  have "matoclserv_fuse_posix_lock big' ls eptr ses data = Some (ls\<lparr>ls_posix := pr_table r\<rparr>, pr_events r,
      wake_up_packets big' (pr_events r) @ (if pr_status r = MFS_ERROR_WAITING then [] else [p]))"
    unfolding matoclserv_fuse_posix_lock_def put_any_order [of big'] using len
    by (simp add: data_def reply_def p_def flip: r_def) (auto simp: r_def Let_def)
  moreover have "packet_read big p = Some (MATOCL_FUSE_POSIX_LOCK, msgid, reply)"
    unfolding p_def by (rule packet_read_create) (simp add: reply_def put8bit_byte)
  moreover have "pk_conn p = eptr" by (simp add: p_def matoclserv_create_packet_def)
  moreover have "if cmd = POSIX_LOCK_CMD_GET \<and> pr_status r = MFS_STATUS_OK
      then fs_posixlock_answer big (Some reply) = (MFS_STATUS_OK, pr_args r)
      else fst (fs_posixlock_answer big (Some reply)) = pr_status r"
    by (simp add: fs_posixlock_answer_def reply_def put8bit_byte)
  ultimately show ?thesis
    unfolding Let_def r_def [symmetric]
    by (intro exI [of _ data]) simp
qed



end
