(* ===== verification/Lock_Storage.thy ===== *)
theory Lock_Storage
  imports Lock_Protocol
begin

text \<open>
  The sections of the metadata file for open files and locks, and the lists of them for the tools
  (\<^verbatim>\<open>posix_lock_store\<close>, \<^verbatim>\<open>posix_lock_load\<close>, \<^verbatim>\<open>posix_lock_list\<close> and their counterparts in
  \<^verbatim>\<open>mfsmaster/flocklocks.c\<close> and \<^verbatim>\<open>mfsmaster/openfiles.c\<close>). The buffered file
  of \<^verbatim>\<open>mfsmaster/bio.c\<close> is an argument: the write function of an output file, and the bytes that are left of an
  input file.
\<close>

subsection \<open>Output files\<close>

text \<open>The writes of one record after the other, up to a short one.\<close>

fun store_records :: "('b \<Rightarrow> bytes \<Rightarrow> int \<times> 'b) \<Rightarrow> bytes list \<Rightarrow> 'b \<Rightarrow> u8 \<times> 'b" where
  "store_records bio_write [] fd = (0, fd)"
| "store_records bio_write (r # rs) fd =
     (let (n, fd1) = bio_write fd r
      in if n \<noteq> int (length r) then (0xFF, fd1) else store_records bio_write rs fd1)"

definition store_section :: "('b \<Rightarrow> bytes \<Rightarrow> int \<times> 'b) \<Rightarrow> bytes list \<Rightarrow> 'b option \<Rightarrow> u8 \<times> 'b option" where
  "store_section bio_write rs fd =
     (case fd of
        None \<Rightarrow> (0x10, None)
      | Some b \<Rightarrow> (let (st, b1) = store_records bio_write rs b in (st, Some b1)))"

subsection \<open>Input files\<close>

text \<open>
  The loop that all loaders have: read a record of a fixed size, stop at a short read, decode it and handle it;
  handling gives the value to return or the next state.
\<close>

function load_loop ::
  "nat \<Rightarrow> (bytes \<Rightarrow> 'e option) \<Rightarrow> ('s \<Rightarrow> 'e \<Rightarrow> (int \<times> 's) + 's) \<Rightarrow> 's \<Rightarrow> bytes \<Rightarrow> int \<times> 's" where
  "load_loop recsize decode handle st fd =
     (if recsize = 0 \<or> length fd < recsize then (- 1, st)
      else case decode (take recsize fd) of
        None \<Rightarrow> (- 1, st)
      | Some e \<Rightarrow>
          (case handle st e of
             Inl res \<Rightarrow> res
           | Inr st' \<Rightarrow> load_loop recsize decode handle st' (drop recsize fd)))"
  by pat_completeness auto
termination
  by (relation "measure (\<lambda>(_, _, _, _, fd). length fd)") auto

subsection \<open>POSIX locks\<close>

definition POSIX_LOCK_REC_SIZE :: nat where [simp]: "POSIX_LOCK_REC_SIZE = 37"

definition posix_records :: "ptable \<Rightarrow> pinodelocks list" where
  "posix_records tab = concat (map tab [0..<POSIX_LOCK_INODE_HASHSIZE])"

text \<open>A lock range as it is stored.\<close>

datatype posix_entry =
  PEntry (pe_inode: u32) (pe_owner: u64) (pe_session: u32) (pe_pid: u32) (pe_start: u64) (pe_end: u64) (pe_type: u8)

definition alock_entries :: "u32 \<Rightarrow> alock \<Rightarrow> posix_entry list" where
  "alock_entries inode al =
     map (\<lambda>r. PEntry inode (a_owner al) (a_sessionid al) (a_pid al) (r_start r) (r_end r) (r_type r)) (a_ranges al)"

definition posix_entries :: "pinodelocks \<Rightarrow> posix_entry list" where
  "posix_entries il = concat (map (alock_entries (p_inode il)) (p_active il))"

definition posix_store_entry :: "bool \<Rightarrow> posix_entry \<Rightarrow> bytes" where
  "posix_store_entry big e =
     put32bit big (pe_inode e) @ put64bit big (pe_owner e) @ put32bit big (pe_session e) @ put32bit big (pe_pid e) @
     put64bit big (pe_start e) @ put64bit big (pe_end e) @ put8bit (pe_type e)"

definition posix_lock_store ::
  "bool \<Rightarrow> ('b \<Rightarrow> bytes \<Rightarrow> int \<times> 'b) \<Rightarrow> ptable \<Rightarrow> 'b option \<Rightarrow> u8 \<times> 'b option" where
  "posix_lock_store big bio_write tab fd =
     store_section bio_write
       (map (posix_store_entry big) (concat (map posix_entries (posix_records tab))) @
        [replicate POSIX_LOCK_REC_SIZE 0]) fd"

text \<open>
  The variables of \<^verbatim>\<open>posix_lock_load\<close>. The tail pointer \<^verbatim>\<open>altail\<close> is a position in the list of the current
  inode: writing through it cuts the list there. The ranges are appended to the last lock.
\<close>

record pload =
  ld_fino :: bool
  ld_fses :: bool
  ld_inode :: u32
  ld_session :: u32
  ld_owner :: u64
  ld_type :: u8
  ld_end :: u64
  ld_altail :: nat
  ld_tab :: ptable

definition pload_init :: "ptable \<Rightarrow> pload" where
  "pload_init tab = \<lparr>ld_fino = True, ld_fses = True, ld_inode = 0, ld_session = 0, ld_owner = 0, ld_type = 0,
     ld_end = 0, ld_altail = 0, ld_tab = tab\<rparr>"

definition pload_update :: "(alock list \<Rightarrow> alock list) \<Rightarrow> pload \<Rightarrow> pload" where
  "pload_update f st =
     (case posix_lock_inode_find (ld_tab st) (ld_inode st) of
        None \<Rightarrow> st
      | Some il \<Rightarrow> st\<lparr>ld_tab := posix_lock_inode_put (ld_tab st) (il\<lparr>p_active := f (p_active il)\<rparr>)\<rparr>)"

definition pload_new_inode :: "pload \<Rightarrow> u32 \<Rightarrow> pload" where
  "pload_new_inode st inode =
     (if inode \<noteq> ld_inode st \<or> ld_fino st then
        st\<lparr>ld_inode := inode, ld_session := 0, ld_owner := 0, ld_fses := True,
           ld_tab := (case posix_lock_inode_find (ld_tab st) inode of
                        None \<Rightarrow> posix_lock_inode_new (ld_tab st) inode | Some il \<Rightarrow> ld_tab st),
           ld_altail := 0, ld_fino := False\<rparr>
      else st)"

definition pload_new_lock :: "pload \<Rightarrow> u64 \<Rightarrow> u32 \<Rightarrow> u32 \<Rightarrow> pload" where
  "pload_new_lock st owner sessionid pid =
     (if sessionid \<noteq> ld_session st \<or> owner \<noteq> ld_owner st \<or> ld_fses st then
        (pload_update (\<lambda>as. take (ld_altail st) as @
             [\<lparr>a_owner = owner, a_sessionid = sessionid, a_pid = pid, a_ranges = []\<rparr>]) st)
          \<lparr>ld_session := sessionid, ld_owner := owner, ld_end := 0, ld_type := POSIX_LOCK_UNLCK,
           ld_altail := Suc (ld_altail st), ld_fses := False\<rparr>
      else st)"

text \<open>One turn of the loop: the value that is returned, or the next state.\<close>

definition posix_load_entry :: "(u32 \<Rightarrow> u32 \<Rightarrow> bool) \<Rightarrow> bool \<Rightarrow> pload \<Rightarrow> posix_entry \<Rightarrow> (int \<times> pload) + pload" where
  "posix_load_entry chk ignoreflag st e =
     (let inode = pe_inode e; owner = pe_owner e; sessionid = pe_session e in
      if inode = 0 \<and> owner = 0 \<and> sessionid = 0 then Inl (0, st)
      else if (inode \<noteq> ld_inode st \<or> sessionid \<noteq> ld_session st \<or> ld_fino st \<or> ld_fses st)
              \<and> \<not> chk sessionid inode
      then (if ignoreflag then Inr st else Inl (- 1, st))
      else
        (let st2 = pload_new_lock (pload_new_inode st inode) owner sessionid (pe_pid e) in
         if ld_type st2 \<noteq> POSIX_LOCK_UNLCK \<and>
            (pe_start e < ld_end st2 \<or> (pe_type e = ld_type st2 \<and> pe_start e = ld_end st2))
         then (if ignoreflag then Inr st2 else Inl (- 1, st2))
         else Inr ((pload_update (\<lambda>as. butlast as @ [(last as)\<lparr>a_ranges := a_ranges (last as) @
                       [\<lparr>r_start = pe_start e, r_end = pe_end e, r_type = pe_type e\<rparr>]\<rparr>]) st2)
                     \<lparr>ld_end := pe_end e, ld_type := pe_type e\<rparr>)))"

definition posix_read_entry :: "bool \<Rightarrow> bytes \<Rightarrow> posix_entry option" where
  "posix_read_entry big data = do {
     (inode, data) \<leftarrow> get32bit big data;
     (owner, data) \<leftarrow> get64bit big data;
     (sessionid, data) \<leftarrow> get32bit big data;
     (pid, data) \<leftarrow> get32bit big data;
     (start, data) \<leftarrow> get64bit big data;
     (end, data) \<leftarrow> get64bit big data;
     (type, data) \<leftarrow> get8bit data;
     Some (PEntry inode owner sessionid pid start end type)
   }"

definition posix_lock_load ::
  "bool \<Rightarrow> (u32 \<Rightarrow> u32 \<Rightarrow> bool) \<Rightarrow> ptable \<Rightarrow> bytes \<Rightarrow> u8 \<Rightarrow> bool \<Rightarrow> int \<times> ptable" where
  "posix_lock_load big chk tab fd mver ignoreflag =
     (if mver \<noteq> 0x10 then (- 1, tab)
      else map_prod id ld_tab (load_loop POSIX_LOCK_REC_SIZE (posix_read_entry big) (posix_load_entry chk ignoreflag)
             (pload_init tab) fd))"

subsection \<open>BSD locks\<close>

definition FLOCK_REC_SIZE :: nat where [simp]: "FLOCK_REC_SIZE = 17"

definition flock_records :: "ftable \<Rightarrow> finodelocks list" where
  "flock_records tab = concat (map tab [0..<FLOCK_INODE_HASHSIZE])"

datatype flock_entry = FEntry (fe_inode: u32) (fe_owner: u64) (fe_session: u32) (fe_ltype: u8)

definition flock_entries :: "finodelocks \<Rightarrow> flock_entry list" where
  "flock_entries il = map (\<lambda>l. FEntry (f_inode il) (l_owner l) (l_sessionid l) (l_ltype l)) (f_active il)"

definition flock_store_entry :: "bool \<Rightarrow> flock_entry \<Rightarrow> bytes" where
  "flock_store_entry big e =
     put32bit big (fe_inode e) @ put64bit big (fe_owner e) @ put32bit big (fe_session e) @ put8bit (fe_ltype e)"

definition flock_store ::
  "bool \<Rightarrow> ('b \<Rightarrow> bytes \<Rightarrow> int \<times> 'b) \<Rightarrow> ftable \<Rightarrow> 'b option \<Rightarrow> u8 \<times> 'b option" where
  "flock_store big bio_write tab fd =
     store_section bio_write
       (map (flock_store_entry big) (concat (map flock_entries (flock_records tab))) @ [replicate FLOCK_REC_SIZE 0]) fd"

text \<open>The field \<^verbatim>\<open>connptr\<close> of a loaded lock is not initialised; \<open>junk\<close> is what it holds.\<close>

definition flock_load_entry ::
  "(u32 \<Rightarrow> u32 \<Rightarrow> bool) \<Rightarrow> bool \<Rightarrow> connptr option \<Rightarrow> ftable \<Rightarrow> flock_entry \<Rightarrow> (int \<times> ftable) + ftable" where
  "flock_load_entry chk ignoreflag junk tab e =
     (if fe_inode e = 0 \<and> fe_owner e = 0 \<and> fe_session e = 0 then Inl (0, tab)
      else if \<not> chk (fe_session e) (fe_inode e) then (if ignoreflag then Inr tab else Inl (- 1, tab))
      else
        (let (tab1, il) = flock_inode_get tab (fe_inode e) in
         if f_active il \<noteq> [] \<and> (l_ltype (hd (f_active il)) = LTYPE_WRITER \<or> fe_ltype e = LTYPE_WRITER)
         then (if ignoreflag then Inr tab1 else Inl (- 1, tab1))
         else Inr (flock_inode_put tab1 (flock_do_lock_inode_attach il
                \<lparr>l_owner = fe_owner e, l_connptr = junk, l_sessionid = fe_session e, l_state = STATE_ACTIVE,
                 l_ltype = fe_ltype e, l_instances = []\<rparr>))))"

definition flock_read_entry :: "bool \<Rightarrow> bytes \<Rightarrow> flock_entry option" where
  "flock_read_entry big data = do {
     (inode, data) \<leftarrow> get32bit big data;
     (owner, data) \<leftarrow> get64bit big data;
     (sessionid, data) \<leftarrow> get32bit big data;
     (ltype, data) \<leftarrow> get8bit data;
     Some (FEntry inode owner sessionid ltype)
   }"

definition flock_load ::
  "bool \<Rightarrow> (u32 \<Rightarrow> u32 \<Rightarrow> bool) \<Rightarrow> connptr option \<Rightarrow> ftable \<Rightarrow> bytes \<Rightarrow> u8 \<Rightarrow> bool \<Rightarrow> int \<times> ftable" where
  "flock_load big chk junk tab fd mver ignoreflag =
     (if mver \<noteq> 0x10 then (- 1, tab)
      else load_loop FLOCK_REC_SIZE (flock_read_entry big) (flock_load_entry chk ignoreflag junk) tab fd)"

subsection \<open>Open files\<close>

definition OF_REC_SIZE :: nat where [simp]: "OF_REC_SIZE = 8"

definition of_records :: "ofstate \<Rightarrow> ofrelation list" where
  "of_records st = concat (map (of_sessionhash st) [0..<OF_SESSION_HASHSIZE])"

definition of_store_entry :: "bool \<Rightarrow> u32 \<times> u32 \<Rightarrow> bytes" where
  "of_store_entry big e = put32bit big (fst e) @ put32bit big (snd e)"

definition of_store :: "bool \<Rightarrow> ('b \<Rightarrow> bytes \<Rightarrow> int \<times> 'b) \<Rightarrow> ofstate \<Rightarrow> 'b option \<Rightarrow> u8 \<times> 'b option" where
  "of_store big bio_write st fd =
     store_section bio_write (map (of_store_entry big) (map o_pair (of_records st)) @ [replicate OF_REC_SIZE 0]) fd"

definition of_load_entry :: "(u32 \<Rightarrow> bool) \<Rightarrow> ofstate \<Rightarrow> u32 \<times> u32 \<Rightarrow> (int \<times> ofstate) + ofstate" where
  "of_load_entry sessions_find_session st e =
     (let (sessionid, inode) = e in
      if sessionid > 0 \<and> inode > 0 then
        Inr (if sessions_find_session sessionid then of_newnode st sessionid inode else st)
      else if sessionid = 0 \<and> inode = 0 then Inl (0, st)
      else Inl (- 1, st))"

definition of_read_entry :: "bool \<Rightarrow> bytes \<Rightarrow> (u32 \<times> u32) option" where
  "of_read_entry big data = do {
     (sessionid, data) \<leftarrow> get32bit big data;
     (inode, data) \<leftarrow> get32bit big data;
     Some (sessionid, inode)
   }"

definition of_load :: "bool \<Rightarrow> (u32 \<Rightarrow> bool) \<Rightarrow> ofstate \<Rightarrow> bytes \<Rightarrow> u8 \<Rightarrow> int \<times> ofstate" where
  "of_load big sessions_find_session st fd mver =
     (if mver \<noteq> 0x10 then (- 1, st)
      else load_loop OF_REC_SIZE (of_read_entry big) (of_load_entry sessions_find_session) st fd)"

subsection \<open>Lists for the tools\<close>

text \<open>
  The list functions are called twice: without a buffer for the size, which is summed up in 32 bits,
  and with one for the data.
\<close>

definition list_size :: "u32 \<Rightarrow> 'a list \<Rightarrow> u32" where
  "list_size n xs = fold (\<lambda>_ ret. ret + n) xs 0"

definition MFS_LOCK_TYPE_UNKNOWN :: u8 where [simp]: "MFS_LOCK_TYPE_UNKNOWN = 0"
definition MFS_LOCK_TYPE_SHARED :: u8 where [simp]: "MFS_LOCK_TYPE_SHARED = 1"
definition MFS_LOCK_TYPE_EXCLUSIVE :: u8 where [simp]: "MFS_LOCK_TYPE_EXCLUSIVE = 2"

definition posix_list_type :: "u8 \<Rightarrow> u8" where
  "posix_list_type type =
     (if type = POSIX_LOCK_RDLCK then MFS_LOCK_TYPE_SHARED
      else if type = POSIX_LOCK_WRLCK then MFS_LOCK_TYPE_EXCLUSIVE else MFS_LOCK_TYPE_UNKNOWN)"

definition posix_list_entry :: "bool \<Rightarrow> posix_entry \<Rightarrow> bytes" where
  "posix_list_entry big e =
     put32bit big (pe_session e) @ put64bit big (pe_owner e) @ put32bit big (pe_pid e) @
     put64bit big (pe_start e) @ put64bit big (pe_end e) @ put8bit (posix_list_type (pe_type e))"

definition posix_lock_list :: "bool \<Rightarrow> ptable \<Rightarrow> u32 \<Rightarrow> bool \<Rightarrow> u32 \<times> bytes" where
  "posix_lock_list big tab inode buff =
     (if inode = 0 then
        (let es = concat (map posix_entries (posix_records tab))
         in if \<not> buff then (list_size 37 es, [])
            else (0, concat (map (\<lambda>e. put32bit big (pe_inode e) @ posix_list_entry big e) es)))
      else
        (let es = (case posix_lock_inode_find tab inode of None \<Rightarrow> [] | Some il \<Rightarrow> posix_entries il)
         in if \<not> buff then (list_size 33 es, []) else (0, concat (map (posix_list_entry big) es))))"

definition flock_list_type :: "u8 \<Rightarrow> u8" where
  "flock_list_type ltype =
     (if ltype = LTYPE_READER then MFS_LOCK_TYPE_SHARED
      else if ltype = LTYPE_WRITER then MFS_LOCK_TYPE_EXCLUSIVE else MFS_LOCK_TYPE_UNKNOWN)"

definition flock_list_entry :: "bool \<Rightarrow> flock_entry \<Rightarrow> bytes" where
  "flock_list_entry big e =
     put32bit big (fe_session e) @ put64bit big (fe_owner e) @ replicate 20 0 @ put8bit (flock_list_type (fe_ltype e))"

definition flock_list :: "bool \<Rightarrow> ftable \<Rightarrow> u32 \<Rightarrow> bool \<Rightarrow> u32 \<times> bytes" where
  "flock_list big tab inode buff =
     (if inode = 0 then
        (let es = concat (map flock_entries (flock_records tab))
         in if \<not> buff then (list_size 37 es, [])
            else (0, concat (map (\<lambda>e. put32bit big (fe_inode e) @ flock_list_entry big e) es)))
      else
        (let es = (case flock_inode_find tab inode of None \<Rightarrow> [] | Some il \<Rightarrow> flock_entries il)
         in if \<not> buff then (list_size 33 es, []) else (0, concat (map (flock_list_entry big) es))))"

definition of_lsof :: "bool \<Rightarrow> ofstate \<Rightarrow> u32 \<Rightarrow> bool \<Rightarrow> u32 \<times> bytes" where
  "of_lsof big st sessionid buff =
     (if sessionid = 0 then
        (let rs = of_records st
         in if \<not> buff then (list_size 8 rs, [])
            else (0, concat (map (\<lambda>r. put32bit big (o_sessionid r) @ put32bit big (o_inode r)) rs)))
      else
        (let rs = filter (\<lambda>r. o_sessionid r = sessionid) (of_sessionhash st (OF_SESSION_HASH sessionid))
         in if \<not> buff then (list_size 4 rs, []) else (0, concat (map (\<lambda>r. put32bit big (o_inode r)) rs))))"

definition of_sessions_info_for_inode :: "bool \<Rightarrow> ofstate \<Rightarrow> u32 \<Rightarrow> bool \<Rightarrow> u32 \<times> bytes" where
  "of_sessions_info_for_inode big st inode dbuff =
     (let ss = of_sessions_for_inode st inode; sescount = list_size 1 ss
      in (4 + 4 * sescount, if dbuff then put32bit big sescount @ concat (map (put32bit big) ss) else []))"

text \<open>
  The handlers of the two lists: the size that the packet is created with and what is then written into it, with
  the position of each part.
\<close>

definition matoclserv_list_acquired_locks :: "bool \<Rightarrow> lockstate \<Rightarrow> bytes \<Rightarrow> (u32 \<times> (nat \<times> bytes) list) option" where
  "matoclserv_list_acquired_locks big ls data =
     (if length data \<noteq> 4 \<and> length data \<noteq> 8 then None else do {
        (msgid, data1) \<leftarrow> (if length data = 8 then get32bit big data else Some (0, data));
        (inode, data2) \<leftarrow> get32bit big data1;
        let psize = fst (posix_lock_list big (ls_posix ls) inode False);
            fsize = fst (flock_list big (ls_flock ls) inode False);
            body = (\<lambda>ptr. [(ptr, snd (posix_lock_list big (ls_posix ls) inode True)),
                          (ptr + unat psize, snd (flock_list big (ls_flock ls) inode True))])
        in if length data = 8 then Some (4 + psize + fsize, (0, put32bit big msgid) # body 4)
           else Some (psize + fsize, body 0)
      })"

definition matoclserv_list_open_files :: "bool \<Rightarrow> lockstate \<Rightarrow> bytes \<Rightarrow> (u32 \<times> (nat \<times> bytes) list) option" where
  "matoclserv_list_open_files big ls data =
     (if length data \<noteq> 4 \<and> length data \<noteq> 8 then None else do {
        (msgid, data1) \<leftarrow> (if length data = 8 then get32bit big data else Some (0, data));
        (sessionid, data2) \<leftarrow> get32bit big data1;
        let size = fst (of_lsof big (ls_open ls) sessionid False);
            body = (\<lambda>ptr. [(ptr, snd (of_lsof big (ls_open ls) sessionid True))])
        in if length data = 8 then Some (4 + size, (0, put32bit big msgid) # body 4) else Some (size, body 0)
      })"

end
