(* ===== verification/Flock_Storage.thy ===== *)
theory Flock_Storage
  imports Lock_Storage
begin

text \<open>
  The metadata section of the BSD locks: what was stored is loaded back, except for the requests that
  wait. The first part is shared by all sections.
\<close>

subsection \<open>Writing and reading a section\<close>

text \<open>A file that takes every byte.\<close>

definition file_write :: "bytes \<Rightarrow> bytes \<Rightarrow> int \<times> bytes" where
  "file_write fd r = (int (length r), fd @ r)"

lemma store_records_file: "store_records file_write rs fd = (0, fd @ concat rs)"
  by (induction rs arbitrary: fd) (simp_all add: file_write_def)

fun handle_all :: "('s \<Rightarrow> 'e \<Rightarrow> (int \<times> 's) + 's) \<Rightarrow> 's \<Rightarrow> 'e list \<Rightarrow> (int \<times> 's) + 's" where
  "handle_all handle st [] = Inr st"
| "handle_all handle st (e # es) =
     (case handle st e of Inl r \<Rightarrow> Inl r | Inr st' \<Rightarrow> handle_all handle st' es)"

lemma handle_all_append:
  "handle_all h st (xs @ ys) = (case handle_all h st xs of Inl r \<Rightarrow> Inl r | Inr st' \<Rightarrow> handle_all h st' ys)"
  by (induction xs arbitrary: st) (auto split: sum.splits)

declare load_loop.simps [simp del]

lemma load_loop_entries:
  assumes "0 < n" "\<And>e. length (enc e) = n" "\<And>e. dec (enc e) = Some e"
  shows "load_loop n dec h st (concat (map enc es) @ rest) =
    (case handle_all h st es of Inl r \<Rightarrow> r | Inr st' \<Rightarrow> load_loop n dec h st' rest)"
proof (induction es arbitrary: st)
  case (Cons e es)
  then show ?case
    using assms by (subst load_loop.simps) (auto split: sum.splits)
qed simp

subsection \<open>All records of a table\<close>

lemma find_append: "List.find P (xs @ ys) = (case List.find P xs of None \<Rightarrow> List.find P ys | Some x \<Rightarrow> Some x)"
  by (induction xs) auto

lemma chains_concat:
  assumes "chains_ok key hash tab"
  shows "distinct (map key (concat (map tab [0..<n])))"
    "hash k < n \<Longrightarrow> List.find (\<lambda>v. key v = k) (concat (map tab [0..<n])) = List.find (\<lambda>v. key v = k) (tab (hash k))"
proof -
  have key: "v \<in> set (tab h) \<Longrightarrow> hash (key v) = h" for v h using assms by (simp add: chains_ok_def)
  show "distinct (map key (concat (map tab [0..<n])))"
  proof (induction n)
    case (Suc n)
    have "distinct (map key (tab n))" using assms by (simp add: chains_ok_def)
    moreover have "key v \<noteq> key w" if "v \<in> set (tab h)" "h < n" "w \<in> set (tab n)" for v w h
      using key that by (metis less_irrefl)
    ultimately show ?case using Suc by (auto simp: image_iff)
  qed simp
  have none: "List.find (\<lambda>v. key v = k) (concat (map tab [0..<m])) = None" if "m \<le> hash k" for m
    using key that by (auto simp: find_None_iff)
  have other: "h \<noteq> hash k \<Longrightarrow> List.find (\<lambda>v. key v = k) (tab h) = None" for h
    using key by (auto simp: find_None_iff)
  show "hash k < n \<Longrightarrow> List.find (\<lambda>v. key v = k) (concat (map tab [0..<n])) = List.find (\<lambda>v. key v = k) (tab (hash k))"
  proof (induction n)
    case (Suc n)
    then show ?case
      using none [of n] other [of n] by (cases "hash k = n") (auto simp: find_append split: option.splits)
  qed simp
qed

lemma find_by_key: "distinct (map key xs) \<Longrightarrow> v \<in> set xs \<Longrightarrow> List.find (\<lambda>x. key x = key v) xs = Some v"
  by (induction xs) auto

lemma flock_records_find:
  assumes "ftable_ok tab"
  shows "distinct (map f_inode (flock_records tab))"
    "List.find (\<lambda>il. f_inode il = k) (flock_records tab) = flock_inode_find tab k"
proof -
  have c: "chains_ok f_inode FLOCK_INODE_HASH tab" using assms by (simp add: ftable_ok_def ftable_chains_def)
  show "distinct (map f_inode (flock_records tab))"
    unfolding flock_records_def by (rule chains_concat(1) [OF c])
  have "FLOCK_INODE_HASH k < FLOCK_INODE_HASHSIZE" by (simp add: FLOCK_INODE_HASH_def FLOCK_INODE_HASHSIZE_def)
  then show "List.find (\<lambda>il. f_inode il = k) (flock_records tab) = flock_inode_find tab k"
    unfolding flock_records_def flock_inode_find_def by (rule chains_concat(2) [OF c])
qed

lemma posix_records_find:
  assumes "ptable_ok tab"
  shows "distinct (map p_inode (posix_records tab))"
    "List.find (\<lambda>il. p_inode il = k) (posix_records tab) = posix_lock_inode_find tab k"
proof -
  have c: "chains_ok p_inode POSIX_LOCK_INODE_HASH tab" using assms by (simp add: ptable_ok_def ptable_chains_def)
  show "distinct (map p_inode (posix_records tab))"
    unfolding posix_records_def by (rule chains_concat(1) [OF c])
  have "POSIX_LOCK_INODE_HASH k < POSIX_LOCK_INODE_HASHSIZE"
    by (simp add: POSIX_LOCK_INODE_HASH_def POSIX_LOCK_INODE_HASHSIZE_def)
  then show "List.find (\<lambda>il. p_inode il = k) (posix_records tab) = posix_lock_inode_find tab k"
    unfolding posix_records_def posix_lock_inode_find_def by (rule chains_concat(2) [OF c])
qed

subsection \<open>BSD locks\<close>

definition loaded_lock :: "connptr option \<Rightarrow> flock \<Rightarrow> flock" where
  "loaded_lock junk l = \<lparr>l_owner = l_owner l, l_connptr = junk, l_sessionid = l_sessionid l, l_state = STATE_ACTIVE,
     l_ltype = l_ltype l, l_instances = []\<rparr>"

lemma loaded_lock_ltype [simp]: "l_ltype (loaded_lock junk l) = l_ltype l"
  by (simp add: loaded_lock_def)

definition loaded_flocks :: "connptr option \<Rightarrow> finodelocks \<Rightarrow> finodelocks" where
  "loaded_flocks junk il = \<lparr>f_inode = f_inode il, f_active = rev (map (loaded_lock junk) (f_active il)), f_waiting = []\<rparr>"

definition flock_storable :: "(u32 \<Rightarrow> u32 \<Rightarrow> bool) \<Rightarrow> u32 \<Rightarrow> flock \<Rightarrow> bool" where
  "flock_storable chk inode l \<longleftrightarrow> chk (l_sessionid l) inode \<and> \<not> (inode = 0 \<and> l_owner l = 0 \<and> l_sessionid l = 0)"

text \<open>The locks of one inode, of which \<open>done\<close> have been loaded.\<close>

lemma flock_load_locks:
  assumes "\<And>l. l \<in> set ls \<Longrightarrow> flock_storable chk inode l"
    and "freaders (rev (map (loaded_lock junk) done) @ ls) \<or> done = [] \<and> length ls = 1"
    and "flock_inode_find tab inode = (if done = [] then None
      else Some \<lparr>f_inode = inode, f_active = rev (map (loaded_lock junk) done), f_waiting = []\<rparr>)"
    and "ls \<noteq> []"
  shows "\<exists>tab'. handle_all (flock_load_entry chk ign junk) tab
        (map (\<lambda>l. FEntry inode (l_owner l) (l_sessionid l) (l_ltype l)) ls) = Inr tab' \<and>
    (\<forall>k. flock_inode_find tab' k = (if k = inode
       then Some \<lparr>f_inode = inode, f_active = rev (map (loaded_lock junk) (done @ ls)), f_waiting = []\<rparr>
       else flock_inode_find tab k))"
  using assms
proof (induction ls arbitrary: tab "done")
  case (Cons l ls)
  obtain tab1 il where g: "flock_inode_get tab inode = (tab1, il)" by fastforce
  have il: "il = \<lparr>f_inode = inode, f_active = rev (map (loaded_lock junk) done), f_waiting = []\<rparr>"
    and t1: "flock_inode_find tab1 k = (if k = inode then Some il else flock_inode_find tab k)" for k
    using g Cons.prems(3)
    by (auto simp: flock_inode_get_def flock_inode_empty_def fd.find_new split: if_splits)
  let ?il = "il\<lparr>f_active := loaded_lock junk l # f_active il\<rparr>"
  let ?tab = "flock_inode_put tab1 ?il"
  have find: "flock_inode_find ?tab k = (if k = inode then Some ?il else flock_inode_find tab k)" for k
    using fd.find_put [of tab1 ?il k] t1 il by simp
  have "\<not> (f_active il \<noteq> [] \<and> (l_ltype (hd (f_active il)) = LTYPE_WRITER \<or> l_ltype l = LTYPE_WRITER))"
    using Cons.prems(2) il by (cases "done" rule: rev_cases) (auto simp: freaders_def loaded_lock_def)
  then have step: "flock_load_entry chk ign junk tab (FEntry inode (l_owner l) (l_sessionid l) (l_ltype l)) = Inr ?tab"
    using Cons.prems(1) [of l] g by (auto simp: flock_load_entry_def flock_storable_def
        flock_do_lock_inode_attach_def loaded_lock_def)
  show ?case
  proof (cases "ls = []")
    case True
    with step find il show ?thesis by simp
  next
    case False
    have r: "freaders (rev (map (loaded_lock junk) (done @ [l])) @ ls)"
    proof -
      have "length (l # ls) \<noteq> 1" using False by simp
      with Cons.prems(2) have "freaders (rev (map (loaded_lock junk) done) @ l # ls)" by blast
      then show ?thesis by (auto simp: freaders_def)
    qed
    have f: "flock_inode_find ?tab inode = (if done @ [l] = [] then None
        else Some \<lparr>f_inode = inode, f_active = rev (map (loaded_lock junk) (done @ [l])), f_waiting = []\<rparr>)"
      using find [of inode] il by simp
    have st: "flock_storable chk inode x" if "x \<in> set ls" for x using Cons.prems(1) [of x] that by simp
    from Cons.IH [OF st disjI1 [OF r] f False] obtain tab' where
      h: "handle_all (flock_load_entry chk ign junk) ?tab (map (\<lambda>l. FEntry inode (l_owner l) (l_sessionid l) (l_ltype l)) ls) = Inr tab'"
      and k: "\<forall>k. flock_inode_find tab' k = (if k = inode
       then Some \<lparr>f_inode = inode, f_active = rev (map (loaded_lock junk) ((done @ [l]) @ ls)), f_waiting = []\<rparr>
       else flock_inode_find ?tab k)" by blast
    show ?thesis
      by (rule exI [of _ tab'], rule conjI, simp add: step h) (simp add: k find)
  qed
qed simp

lemma flock_load_records:
  assumes "distinct (map f_inode ils)"
    and "\<And>il l. il \<in> set ils \<Longrightarrow> l \<in> set (f_active il) \<Longrightarrow> flock_storable chk (f_inode il) l"
    and "\<And>il. il \<in> set ils \<Longrightarrow> fil_ok il \<and> flock_inode_find tab (f_inode il) = None"
  shows "\<exists>tab'. handle_all (flock_load_entry chk ign junk) tab (concat (map flock_entries ils)) = Inr tab' \<and>
    (\<forall>k. flock_inode_find tab' k = (case List.find (\<lambda>il. f_inode il = k) ils of
       Some il \<Rightarrow> Some (loaded_flocks junk il) | None \<Rightarrow> flock_inode_find tab k))"
  using assms
proof (induction ils arbitrary: tab)
  case (Cons il ils)
  have il: "fil_ok il" "flock_inode_find tab (f_inode il) = None" "\<And>l. l \<in> set (f_active il) \<Longrightarrow> flock_storable chk (f_inode il) l"
    using Cons.prems(2,3) [of il] by simp_all
  then have act: "f_active il \<noteq> []" "freaders (rev (map (loaded_lock junk) []) @ f_active il) \<or> [] = [] \<and> length (f_active il) = 1"
    by (auto simp: fil_ok_def fil_struct_def factive_ok_def)
  have find0: "flock_inode_find tab (f_inode il) = (if [] = [] then None
    else Some \<lparr>f_inode = f_inode il, f_active = rev (map (loaded_lock junk) []), f_waiting = []\<rparr>)" using il(2) by simp
  from flock_load_locks [OF il(3) act(2) find0 act(1), of ign] obtain tab1 where
    t1: "handle_all (flock_load_entry chk ign junk) tab (flock_entries il) = Inr tab1"
      "\<And>k. flock_inode_find tab1 k = (if k = f_inode il then Some (loaded_flocks junk il) else flock_inode_find tab k)"
    by (auto simp: flock_entries_def loaded_flocks_def)
  have rest: "fil_ok x \<and> flock_inode_find tab1 (f_inode x) = None" if "x \<in> set ils" for x
    using Cons.prems(1) Cons.prems(3) [of x] that t1(2) by (auto simp: image_iff)
  have d: "distinct (map f_inode ils)" "f_inode il \<notin> f_inode ` set ils" using Cons.prems(1) by simp_all
  obtain tab' where t2: "handle_all (flock_load_entry chk ign junk) tab1 (concat (map flock_entries ils)) = Inr tab'"
    "\<And>k. flock_inode_find tab' k = (case List.find (\<lambda>il. f_inode il = k) ils of
       Some il \<Rightarrow> Some (loaded_flocks junk il) | None \<Rightarrow> flock_inode_find tab1 k)"
    using Cons.IH [OF d(1) _ rest] Cons.prems(2) by (metis list.set_intros(2))
  have "List.find (\<lambda>x. f_inode x = f_inode il) ils = None" using d(2) by (simp add: find_map_None)
  then show ?case
    using t1(1) t2(1) by (intro exI [of _ tab']) (auto simp: handle_all_append t1(2) t2(2) split: option.splits)
qed simp

lemma put_zero: "put32bit big 0 = replicate 4 0" "put64bit big 0 = replicate 8 0" "put8bit 0 = replicate 1 0"
  by (simp_all add: put_portable put32bit_portable_def put64bit_portable_def byte_at_def put8bit_byte numeral_eq_Suc)

lemma flock_entry_code:
  "length (flock_store_entry big e) = FLOCK_REC_SIZE" "flock_read_entry big' (flock_store_entry big e) = Some e"
  by (simp_all add: flock_store_entry_def flock_read_entry_def put_any_order [of big])

lemma flock_entry_end: "replicate FLOCK_REC_SIZE 0 = flock_store_entry big (FEntry 0 0 0 0)"
  unfolding flock_store_entry_def flock_entry.sel put_zero replicate_add [symmetric] by simp

lemma concat_store: "concat (map enc es @ [x]) = concat (map enc es) @ x"
  by simp

text \<open>Loading a whole section that ends with a record of zeros.\<close>

lemma load_section:
  assumes "0 < n" "\<And>e. length (enc e) = n" "\<And>e. dec (enc e) = Some e" "\<And>st. h st e0 = Inl (0, st)"
    and "handle_all h st es = Inr st'"
  shows "load_loop n dec h st (concat (map enc es @ [enc e0])) = (0, st')"
proof -
  have "concat (map enc es @ [enc e0]) = concat (map enc (es @ [e0])) @ []" by simp
  then show ?thesis
    using load_loop_entries [OF assms(1-3), of h st "es @ [e0]" "[]"] assms(4,5)
    by (simp add: handle_all_append)
qed

subsection \<open>Properties\<close>

text \<open>
  C22. The section of the BSD locks: when every lock belongs to an open file (and none has inode, owner and
  session zero), writing the section succeeds and loading it, on a machine of any byte order, gives a
  table with the same active locks for every inode, owners and types, with the list turned around. The waiting
  requests are gone.
\<close>

theorem flock_store_load:
  assumes "ftable_ok tab"
    and "\<And>i il l. flock_inode_find tab i = Some il \<Longrightarrow> l \<in> set (f_active il) \<Longrightarrow>
      chk (l_sessionid l) i \<and> \<not> (i = 0 \<and> l_owner l = 0 \<and> l_sessionid l = 0)"
  shows "\<exists>fd tab'. flock_store big file_write tab (Some []) = (0, Some fd) \<and>
    flock_load big' chk junk flock_init fd 0x10 ignoreflag = (0, tab') \<and>
    (\<forall>i. flock_inode_find tab' i = map_option (loaded_flocks junk) (flock_inode_find tab i))"
proof -
  let ?ils = "flock_records tab"
  note recs = flock_records_find [OF assms(1)]
  have mem: "flock_inode_find tab (f_inode il) = Some il" if "il \<in> set ?ils" for il
    using find_by_key [OF recs(1) that] recs(2) by simp
  have init: "flock_inode_find flock_init k = None" for k by (simp add: flock_init_def flock_inode_find_def)
  have "fil_ok il \<and> flock_inode_find flock_init (f_inode il) = None" if "il \<in> set ?ils" for il
    using mem [OF that] assms(1) init by (auto simp: ftable_ok_def fd.all_recs_def)
  moreover have "flock_storable chk (f_inode il) l" if "il \<in> set ?ils" "l \<in> set (f_active il)" for il l
    using assms(2) [OF mem [OF that(1)] that(2)] by (simp add: flock_storable_def)
  ultimately obtain tab' where
    h: "handle_all (flock_load_entry chk ignoreflag junk) flock_init (concat (map flock_entries ?ils)) = Inr tab'"
    and k: "\<forall>k. flock_inode_find tab' k = (case flock_inode_find tab k of Some il \<Rightarrow> Some (loaded_flocks junk il) | None \<Rightarrow> None)"
    using flock_load_records [OF recs(1), of chk flock_init ignoreflag junk] unfolding recs(2) init by blast
  have find: "\<forall>i. flock_inode_find tab' i = map_option (loaded_flocks junk) (flock_inode_find tab i)"
    unfolding map_option_case using k by blast
  let ?fd = "concat (map (flock_store_entry big) (concat (map flock_entries ?ils)) @ [flock_store_entry big (FEntry 0 0 0 0)])"
  have "load_loop FLOCK_REC_SIZE (flock_read_entry big') (flock_load_entry chk ignoreflag junk) flock_init ?fd = (0, tab')"
    by (rule load_section [OF _ flock_entry_code(1) flock_entry_code(2) _ h]) (simp_all add: flock_load_entry_def)
  then have "flock_load big' chk junk flock_init ?fd 0x10 ignoreflag = (0, tab')" by (simp add: flock_load_def)
  moreover have "flock_store big file_write tab (Some []) = (0, Some ?fd)"
    by (simp add: flock_store_def store_section_def store_records_file flock_entry_end [of big] del: FLOCK_REC_SIZE_def)
  ultimately show ?thesis using find by blast
qed

theorem flock_store_load_witness:
  "\<exists>fd tab'. flock_store False file_write writer_9 (Some []) = (0, Some fd) \<and>
    flock_load True (\<lambda>_ _. True) None flock_init fd 0x10 False = (0, tab') \<and>
    flock_inode_find tab' 1 = map_option (loaded_flocks None) (flock_inode_find writer_9 1)"
proof -
  have "\<not> (i = 0 \<and> l_owner l = 0 \<and> l_sessionid l = 0)"
    if "flock_inode_find writer_9 i = Some il" "l \<in> set (f_active il)" for i il l
    using that writer_9_find_other [of i] writer_9_find by (cases "i = 1") auto
  with flock_store_load [OF example_tables_ok(1), of "\<lambda>_ _. True" False True None False] show ?thesis by blast
qed

end
