(* ===== verification/Posix_Storage.thy ===== *)
theory Posix_Storage
  imports Flock_Storage
begin

text \<open>
  The metadata section of the POSIX locks: what was stored is loaded back, except for the requests
  that wait.
\<close>

subsection \<open>POSIX locks\<close>

definition posix_storable :: "(u32 \<Rightarrow> u32 \<Rightarrow> bool) \<Rightarrow> u32 \<Rightarrow> alock \<Rightarrow> bool" where
  "posix_storable chk inode al \<longleftrightarrow> chk (a_sessionid al) inode \<and> \<not> (inode = 0 \<and> a_owner al = 0 \<and> a_sessionid al = 0)"

text \<open>The loader is at a lock of an inode: the last of the locks of the inode, with some of its ranges.\<close>

definition pload_at :: "pload \<Rightarrow> u32 \<Rightarrow> alock list \<Rightarrow> alock \<Rightarrow> bool" where
  "pload_at st inode als al \<longleftrightarrow> \<not> ld_fino st \<and> \<not> ld_fses st \<and> ld_inode st = inode \<and> ld_session st = a_sessionid al \<and>
     ld_owner st = a_owner al \<and> ld_altail st = Suc (length als) \<and>
     posix_lock_inode_find (ld_tab st) inode = Some \<lparr>p_inode = inode, p_active = als @ [al], p_waiting = []\<rparr> \<and>
     (if a_ranges al = [] then ld_type st = POSIX_LOCK_UNLCK
      else ld_type st = r_type (last (a_ranges al)) \<and> ld_end st = r_end (last (a_ranges al)))"

abbreviation tab_same :: "u32 \<Rightarrow> ptable \<Rightarrow> ptable \<Rightarrow> bool" where
  "tab_same inode tab tab' \<equiv> \<forall>k. k \<noteq> inode \<longrightarrow> posix_lock_inode_find tab' k = posix_lock_inode_find tab k"

lemma pload_update_spec:
  assumes "posix_lock_inode_find (ld_tab st) (ld_inode st) = Some \<lparr>p_inode = ld_inode st, p_active = as, p_waiting = []\<rparr>"
  shows "posix_lock_inode_find (ld_tab (pload_update f st)) k =
      (if k = ld_inode st then Some \<lparr>p_inode = ld_inode st, p_active = f as, p_waiting = []\<rparr>
       else posix_lock_inode_find (ld_tab st) k)"
    "pload_update f st = st\<lparr>ld_tab := ld_tab (pload_update f st)\<rparr>"
  using assms pd.find_put [of "ld_tab st" "\<lparr>p_inode = ld_inode st, p_active = f as, p_waiting = []\<rparr>" k]
  by (simp_all add: pload_update_def)

lemma ranges_ok_snoc:
  "ranges_ok (xs @ [r]) \<longleftrightarrow> ranges_ok xs \<and> range_ok r \<and> (xs \<noteq> [] \<longrightarrow> range_sep (last xs) r)"
proof (induction xs)
  case (Cons x xs)
  then show ?case by (cases xs) auto
qed simp

lemma ranges_ok_append: "ranges_ok (xs @ ys) \<Longrightarrow> ranges_ok xs"
proof (induction xs)
  case (Cons x xs)
  then show ?case by (cases xs) auto
qed simp

abbreviation add_range :: "posix_entry \<Rightarrow> alock list \<Rightarrow> alock list" where
  "add_range e as \<equiv> butlast as @ [(last as)\<lparr>a_ranges := a_ranges (last as) @
     [\<lparr>r_start = pe_start e, r_end = pe_end e, r_type = pe_type e\<rparr>]\<rparr>]"

lemma pload_range:
  assumes at: "pload_at st inode als al" and chk: "posix_storable chk inode al"
    and ok: "ranges_ok (a_ranges al @ [r])"
  shows "\<exists>st'. posix_load_entry chk ign st
        (PEntry inode (a_owner al) (a_sessionid al) pid (r_start r) (r_end r) (r_type r)) = Inr st' \<and>
      pload_at st' inode als (al\<lparr>a_ranges := a_ranges al @ [r]\<rparr>) \<and> tab_same inode (ld_tab st) (ld_tab st')"
proof -
  let ?e = "PEntry inode (a_owner al) (a_sessionid al) pid (r_start r) (r_end r) (r_type r)"
  let ?u = "pload_update (add_range ?e) st"
  have st: "pload_new_lock (pload_new_inode st inode) (a_owner al) (a_sessionid al) pid = st"
    using at by (simp add: pload_at_def pload_new_lock_def pload_new_inode_def)
  have order: "\<not> (ld_type st \<noteq> POSIX_LOCK_UNLCK \<and>
      (r_start r < ld_end st \<or> (r_type r = ld_type st \<and> r_start r = ld_end st)))"
  proof (cases "a_ranges al = []")
    case True
    with at show ?thesis by (simp add: pload_at_def)
  next
    case False
    then have "ld_type st = r_type (last (a_ranges al))" "ld_end st = r_end (last (a_ranges al))"
      using at by (simp_all add: pload_at_def)
    moreover have "range_sep (last (a_ranges al)) r" using ok False by (simp add: ranges_ok_snoc)
    ultimately show ?thesis unfolding range_sep_def by (metis order_less_asym order_less_irrefl)
  qed
  have e: "posix_load_entry chk ign st ?e = Inr (?u\<lparr>ld_end := r_end r, ld_type := r_type r\<rparr>)"
    using chk order st by (simp add: posix_load_entry_def posix_storable_def Let_def) blast
  have in0: "ld_inode st = inode" and find: "posix_lock_inode_find (ld_tab st) (ld_inode st) =
      Some \<lparr>p_inode = ld_inode st, p_active = als @ [al], p_waiting = []\<rparr>" using at by (simp_all add: pload_at_def)
  note up = pload_update_spec [OF find, of "add_range ?e"]
  have u: "ld_fino ?u = ld_fino st" "ld_fses ?u = ld_fses st" "ld_inode ?u = inode" "ld_session ?u = ld_session st"
    "ld_owner ?u = ld_owner st" "ld_altail ?u = ld_altail st"
    using find in0 by (simp_all add: pload_update_def)
  have r: "\<lparr>r_start = r_start r, r_end = r_end r, r_type = r_type r\<rparr> = r" by simp
  have "pload_at (?u\<lparr>ld_end := r_end r, ld_type := r_type r\<rparr>) inode als (al\<lparr>a_ranges := a_ranges al @ [r]\<rparr>)"
    using at u up(1) [of inode] in0 by (simp add: pload_at_def r)
  moreover have "tab_same inode (ld_tab st) (ld_tab (?u\<lparr>ld_end := r_end r, ld_type := r_type r\<rparr>))"
    using in0 up(1) by simp
  ultimately show ?thesis using e by blast
qed

lemma pload_ranges:
  assumes "pload_at st inode als al" "posix_storable chk inode al" "ranges_ok (a_ranges al @ rs)"
  shows "\<exists>st'. handle_all (posix_load_entry chk ign) st
        (map (\<lambda>r. PEntry inode (a_owner al) (a_sessionid al) pid (r_start r) (r_end r) (r_type r)) rs) = Inr st' \<and>
      pload_at st' inode als (al\<lparr>a_ranges := a_ranges al @ rs\<rparr>) \<and> tab_same inode (ld_tab st) (ld_tab st')"
  using assms
proof (induction rs arbitrary: st al)
  case (Cons r rs)
  have "ranges_ok ((a_ranges al @ [r]) @ rs)" using Cons.prems(3) by simp
  then have "ranges_ok (a_ranges al @ [r])" using ranges_ok_append by blast
  from pload_range [OF Cons.prems(1,2) this, of ign pid] obtain st1 where
    st1: "posix_load_entry chk ign st (PEntry inode (a_owner al) (a_sessionid al) pid (r_start r) (r_end r) (r_type r)) = Inr st1"
      "pload_at st1 inode als (al\<lparr>a_ranges := a_ranges al @ [r]\<rparr>)" "tab_same inode (ld_tab st) (ld_tab st1)" by blast
  have "posix_storable chk inode (al\<lparr>a_ranges := a_ranges al @ [r]\<rparr>)" using Cons.prems(2) by (simp add: posix_storable_def)
  from Cons.IH [OF st1(2) this] Cons.prems(3) obtain st' where
    "handle_all (posix_load_entry chk ign) st1
        (map (\<lambda>r. PEntry inode (a_owner al) (a_sessionid al) pid (r_start r) (r_end r) (r_type r)) rs) = Inr st'"
    "pload_at st' inode als (al\<lparr>a_ranges := a_ranges al @ r # rs\<rparr>)" "tab_same inode (ld_tab st1) (ld_tab st')"
    by auto
  with st1 show ?case by (intro exI [of _ st']) simp
qed simp

text \<open>The loader may begin a lock: of a new inode, or another owner's of the current one.\<close>

definition pload_before :: "pload \<Rightarrow> u32 \<Rightarrow> alock list \<Rightarrow> alock \<Rightarrow> bool" where
  "pload_before st inode als al \<longleftrightarrow>
     (als = [] \<and> (ld_fino st \<or> ld_inode st \<noteq> inode) \<and> posix_lock_inode_find (ld_tab st) inode = None) \<or>
     (\<exists>als' al'. als = als' @ [al'] \<and> pload_at st inode als' al' \<and> akey al' \<noteq> akey al)"

lemma pload_begin:
  assumes "pload_before st inode als al"
  defines "st' \<equiv> pload_new_lock (pload_new_inode st inode) (a_owner al) (a_sessionid al) (a_pid al)"
  shows "pload_at st' inode als (al\<lparr>a_ranges := []\<rparr>) \<and> tab_same inode (ld_tab st) (ld_tab st')"
proof -
  let ?st1 = "pload_new_inode st inode"
  let ?f = "\<lambda>as. take (ld_altail ?st1) as @ [al\<lparr>a_ranges := []\<rparr>]"
  have al: "\<lparr>a_owner = a_owner al, a_sessionid = a_sessionid al, a_pid = a_pid al, a_ranges = []\<rparr> = al\<lparr>a_ranges := []\<rparr>"
    by simp
  have st1: "ld_inode ?st1 = inode" "\<not> ld_fino ?st1" "ld_altail ?st1 = length als" "tab_same inode (ld_tab st) (ld_tab ?st1)"
    "posix_lock_inode_find (ld_tab ?st1) inode = Some \<lparr>p_inode = inode, p_active = als, p_waiting = []\<rparr>"
    "a_sessionid al \<noteq> ld_session ?st1 \<or> a_owner al \<noteq> ld_owner ?st1 \<or> ld_fses ?st1"
    using assms(1) by (auto simp: pload_before_def pload_at_def pload_new_inode_def pd.find_new
        posix_lock_inode_empty_def akey_def)
  have find: "posix_lock_inode_find (ld_tab ?st1) (ld_inode ?st1) =
      Some \<lparr>p_inode = ld_inode ?st1, p_active = als, p_waiting = []\<rparr>" using st1 by simp
  note up = pload_update_spec [OF find, of ?f]
  have st': "st' = (pload_update ?f ?st1)\<lparr>ld_session := a_sessionid al, ld_owner := a_owner al, ld_end := 0,
      ld_type := POSIX_LOCK_UNLCK, ld_altail := Suc (ld_altail ?st1), ld_fses := False\<rparr>"
    using st1(6) unfolding st'_def pload_new_lock_def al by simp
  have "ld_inode (pload_update ?f ?st1) = inode" "\<not> ld_fino (pload_update ?f ?st1)"
    using find st1 by (simp_all add: pload_update_def)
  then have "pload_at st' inode als (al\<lparr>a_ranges := []\<rparr>)"
    using st1 up(1) [of inode] by (simp add: st' pload_at_def)
  moreover have "tab_same inode (ld_tab st) (ld_tab st')" using st1(1,4) by (simp add: st' up(1))
  ultimately show ?thesis by blast
qed

lemma pload_first:
  assumes "pload_before st inode als al" "posix_storable chk inode al"
  defines "st' \<equiv> pload_new_lock (pload_new_inode st inode) (a_owner al) (a_sessionid al) (a_pid al)"
  shows "posix_load_entry chk ign st (PEntry inode (a_owner al) (a_sessionid al) (a_pid al) b e t) =
    posix_load_entry chk ign st' (PEntry inode (a_owner al) (a_sessionid al) (a_pid al) b e t)"
proof -
  have "pload_at st' inode als (al\<lparr>a_ranges := []\<rparr>)" using pload_begin [OF assms(1)] by (simp add: st'_def)
  then have "pload_new_lock (pload_new_inode st' inode) (a_owner al) (a_sessionid al) (a_pid al) = st'"
    by (simp add: pload_at_def pload_new_lock_def pload_new_inode_def)
  then show ?thesis
    using assms(2) by (simp add: posix_load_entry_def posix_storable_def Let_def flip: st'_def) blast
qed

lemma pload_lock:
  assumes "pload_before st inode als al" "posix_storable chk inode al" "ranges_ok (a_ranges al)" "a_ranges al \<noteq> []"
  shows "\<exists>st'. handle_all (posix_load_entry chk ign) st (alock_entries inode al) = Inr st' \<and>
    pload_at st' inode als al \<and> tab_same inode (ld_tab st) (ld_tab st')"
proof -
  define st1 where "st1 = pload_new_lock (pload_new_inode st inode) (a_owner al) (a_sessionid al) (a_pid al)"
  have st1: "pload_at st1 inode als (al\<lparr>a_ranges := []\<rparr>)" "tab_same inode (ld_tab st) (ld_tab st1)"
    using pload_begin [OF assms(1)] by (simp_all add: st1_def)
  have "posix_storable chk inode (al\<lparr>a_ranges := []\<rparr>)" using assms(2) by (simp add: posix_storable_def)
  from pload_ranges [OF st1(1) this, of "a_ranges al" ign "a_pid al"] assms(3) obtain st' where
    st': "handle_all (posix_load_entry chk ign) st1 (alock_entries inode al) = Inr st'"
      "pload_at st' inode als al" "tab_same inode (ld_tab st1) (ld_tab st')"
    by (auto simp: alock_entries_def)
  obtain r rs where rs: "a_ranges al = r # rs" using assms(4) by (cases "a_ranges al") auto
  have "handle_all (posix_load_entry chk ign) st (alock_entries inode al) =
      handle_all (posix_load_entry chk ign) st1 (alock_entries inode al)"
    using pload_first [OF assms(1,2), of ign] by (simp add: alock_entries_def rs st1_def)
  with st' st1(2) show ?thesis by (intro exI [of _ st']) simp
qed

text \<open>The locks of one inode, of which \<open>als\<close> have been loaded.\<close>

lemma pload_locks:
  assumes "pload_before st inode als al" "distinct (map akey (als @ al # rest))"
    and "\<And>x. x \<in> set (al # rest) \<Longrightarrow> posix_storable chk inode x \<and> ranges_ok (a_ranges x) \<and> a_ranges x \<noteq> []"
  shows "\<exists>st'. handle_all (posix_load_entry chk ign) st (concat (map (alock_entries inode) (al # rest))) = Inr st' \<and>
    (\<exists>als' al'. pload_at st' inode als' al' \<and> als' @ [al'] = als @ al # rest) \<and> tab_same inode (ld_tab st) (ld_tab st')"
  using assms
proof (induction rest arbitrary: st als al)
  case Nil
  from pload_lock [OF Nil.prems(1), of chk ign] Nil.prems(3) [of al] show ?case by auto
next
  case (Cons al2 rest)
  obtain st1 where st1: "handle_all (posix_load_entry chk ign) st (alock_entries inode al) = Inr st1"
    "pload_at st1 inode als al" "tab_same inode (ld_tab st) (ld_tab st1)"
    using pload_lock [OF Cons.prems(1), of chk ign] Cons.prems(3) [of al] by auto
  have "pload_before st1 inode (als @ [al]) al2"
    using st1(2) Cons.prems(2) by (auto simp: pload_before_def)
  moreover have "distinct (map akey ((als @ [al]) @ al2 # rest))" using Cons.prems(2) by simp
  moreover have "posix_storable chk inode x \<and> ranges_ok (a_ranges x) \<and> a_ranges x \<noteq> []" if "x \<in> set (al2 # rest)" for x
    using Cons.prems(3) [of x] that by simp
  ultimately obtain st' where
    "handle_all (posix_load_entry chk ign) st1 (concat (map (alock_entries inode) (al2 # rest))) = Inr st'"
    "\<exists>als' al'. pload_at st' inode als' al' \<and> als' @ [al'] = (als @ [al]) @ al2 # rest" "tab_same inode (ld_tab st1) (ld_tab st')"
    using Cons.IH [of st1 "als @ [al]" al2] by blast
  with st1 show ?case by (intro exI [of _ st']) (simp add: handle_all_append)
qed

text \<open>Between two inodes: the current one is not among those to come.\<close>

definition pload_free :: "pload \<Rightarrow> pinodelocks list \<Rightarrow> bool" where
  "pload_free st ils \<longleftrightarrow> (\<forall>il \<in> set ils. (ld_fino st \<or> ld_inode st \<noteq> p_inode il) \<and>
     posix_lock_inode_find (ld_tab st) (p_inode il) = None)"

lemma pload_records:
  assumes "distinct (map p_inode ils)" "pload_free st ils"
    and "\<And>il. il \<in> set ils \<Longrightarrow> pil_ok il"
    and "\<And>il al. il \<in> set ils \<Longrightarrow> al \<in> set (p_active il) \<Longrightarrow> posix_storable chk (p_inode il) al"
  shows "\<exists>st'. handle_all (posix_load_entry chk ign) st (concat (map posix_entries ils)) = Inr st' \<and>
    (\<forall>k. posix_lock_inode_find (ld_tab st') k = (case List.find (\<lambda>il. p_inode il = k) ils of
       Some il \<Rightarrow> Some (il\<lparr>p_waiting := []\<rparr>) | None \<Rightarrow> posix_lock_inode_find (ld_tab st) k))"
  using assms
proof (induction ils arbitrary: st)
  case (Cons il ils)
  have ok: "active_ok (p_active il)" "p_active il \<noteq> []"
    using Cons.prems(3) [of il] by (simp_all add: pil_ok_def pil_struct_def)
  then obtain al rest where as: "p_active il = al # rest" by (cases "p_active il") auto
  have before: "pload_before st (p_inode il) [] al" using Cons.prems(2) by (simp add: pload_free_def pload_before_def)
  have each: "posix_storable chk (p_inode il) x \<and> ranges_ok (a_ranges x) \<and> a_ranges x \<noteq> []" if "x \<in> set (al # rest)" for x
    using Cons.prems(4) [of il x] ok(1) that as by (auto simp: active_ok_def)
  have "distinct (map akey ([] @ al # rest))" using ok(1) as by (simp add: active_ok_def)
  from pload_locks [OF before this each, of ign] obtain st1 als' al' where
    h1: "handle_all (posix_load_entry chk ign) st (posix_entries il) = Inr st1"
    and at: "pload_at st1 (p_inode il) als' al'" "als' @ [al'] = p_active il"
    and same: "tab_same (p_inode il) (ld_tab st) (ld_tab st1)"
    by (auto simp: posix_entries_def as)
  have find1: "posix_lock_inode_find (ld_tab st1) k =
      (if k = p_inode il then Some (il\<lparr>p_waiting := []\<rparr>) else posix_lock_inode_find (ld_tab st) k)" for k
    using at same by (simp add: pload_at_def)
  have d: "distinct (map p_inode ils)" "p_inode il \<notin> p_inode ` set ils" using Cons.prems(1) by simp_all
  have "ld_inode st1 = p_inode il" using at(1) by (simp add: pload_at_def)
  moreover have "p_inode x \<noteq> p_inode il" if "x \<in> set ils" for x using d(2) that by (metis image_eqI)
  ultimately have "pload_free st1 ils" using Cons.prems(2) by (simp add: pload_free_def find1) metis
  from Cons.IH [OF d(1) this] Cons.prems(3,4) obtain st' where
    h2: "handle_all (posix_load_entry chk ign) st1 (concat (map posix_entries ils)) = Inr st'"
    and find2: "\<And>k. posix_lock_inode_find (ld_tab st') k = (case List.find (\<lambda>il. p_inode il = k) ils of
       Some il \<Rightarrow> Some (il\<lparr>p_waiting := []\<rparr>) | None \<Rightarrow> posix_lock_inode_find (ld_tab st1) k)"
    by (metis list.set_intros(2))
  have "List.find (\<lambda>x. p_inode x = p_inode il) ils = None" using d(2) by (simp add: find_map_None)
  then show ?case
    using h1 h2 by (intro exI [of _ st']) (auto simp: handle_all_append find1 find2 split: option.splits)
qed simp

lemma posix_entry_code:
  "length (posix_store_entry big e) = POSIX_LOCK_REC_SIZE" "posix_read_entry big' (posix_store_entry big e) = Some e"
  by (simp_all add: posix_store_entry_def posix_read_entry_def put_any_order [of big])

lemma posix_entry_end: "replicate POSIX_LOCK_REC_SIZE 0 = posix_store_entry big (PEntry 0 0 0 0 0 0 0)"
  unfolding posix_store_entry_def posix_entry.sel put_zero replicate_add [symmetric] by simp

subsection \<open>Properties\<close>

text \<open>
  C21. The section of the POSIX locks: when every lock belongs to an open file (and none has inode, owner and
  session zero), writing the section succeeds and loading it, on a machine of any byte order and with or
  without ignoring errors, gives a table with exactly the same active locks for every inode: owners,
  process numbers and ranges in the same order. The waiting requests are gone, as their connections are.
\<close>

theorem posix_store_load:
  assumes "ptable_ok tab"
    and "\<And>i il al. posix_lock_inode_find tab i = Some il \<Longrightarrow> al \<in> set (p_active il) \<Longrightarrow>
      chk (a_sessionid al) i \<and> \<not> (i = 0 \<and> a_owner al = 0 \<and> a_sessionid al = 0)"
  shows "\<exists>fd tab'. posix_lock_store big file_write tab (Some []) = (0, Some fd) \<and>
    posix_lock_load big' chk posix_lock_init fd 0x10 ignoreflag = (0, tab') \<and>
    (\<forall>i. posix_lock_inode_find tab' i = map_option (\<lambda>il. il\<lparr>p_waiting := []\<rparr>) (posix_lock_inode_find tab i))"
proof -
  let ?ils = "posix_records tab"
  note recs = posix_records_find [OF assms(1)]
  have mem: "posix_lock_inode_find tab (p_inode il) = Some il" if "il \<in> set ?ils" for il
    using find_by_key [OF recs(1) that] recs(2) by simp
  have init: "posix_lock_inode_find (ld_tab (pload_init posix_lock_init)) k = None" for k
    by (simp add: pload_init_def posix_lock_init_def posix_lock_inode_find_def)
  then have "pload_free (pload_init posix_lock_init) ?ils" by (simp add: pload_free_def pload_init_def)
  moreover have "pil_ok il" if "il \<in> set ?ils" for il using mem [OF that] assms(1) by (auto simp: ptable_ok_def)
  moreover have "posix_storable chk (p_inode il) al" if "il \<in> set ?ils" "al \<in> set (p_active il)" for il al
    using assms(2) [OF mem [OF that(1)] that(2)] by (simp add: posix_storable_def)
  ultimately obtain st' where
    h: "handle_all (posix_load_entry chk ignoreflag) (pload_init posix_lock_init) (concat (map posix_entries ?ils)) = Inr st'"
    and k: "\<forall>k. posix_lock_inode_find (ld_tab st') k = (case posix_lock_inode_find tab k of
      Some il \<Rightarrow> Some (il\<lparr>p_waiting := []\<rparr>) | None \<Rightarrow> None)"
    using pload_records [OF recs(1), of "pload_init posix_lock_init" chk ignoreflag] unfolding recs(2) init by blast
  have find: "\<forall>k. posix_lock_inode_find (ld_tab st') k = map_option (\<lambda>il. il\<lparr>p_waiting := []\<rparr>) (posix_lock_inode_find tab k)"
    unfolding map_option_case using k by blast
  let ?fd = "concat (map (posix_store_entry big) (concat (map posix_entries ?ils)) @ [posix_store_entry big (PEntry 0 0 0 0 0 0 0)])"
  have "load_loop POSIX_LOCK_REC_SIZE (posix_read_entry big') (posix_load_entry chk ignoreflag)
      (pload_init posix_lock_init) ?fd = (0, st')"
    by (rule load_section [OF _ posix_entry_code(1) posix_entry_code(2) _ h]) (simp_all add: posix_load_entry_def)
  then have "posix_lock_load big' chk posix_lock_init ?fd 0x10 ignoreflag = (0, ld_tab st')"
    by (simp add: posix_lock_load_def)
  moreover have "posix_lock_store big file_write tab (Some []) = (0, Some ?fd)"
    by (simp add: posix_lock_store_def store_section_def store_records_file posix_entry_end [of big] del: POSIX_LOCK_REC_SIZE_def)
  ultimately show ?thesis using find by blast
qed

lemma posix_hash_0: "POSIX_LOCK_INODE_HASH 0 = 0"
  by (simp add: POSIX_LOCK_INODE_HASH_def)

theorem posix_store_load_witness:
  "\<exists>fd tab'. posix_lock_store False file_write (ls_posix two_sessions) (Some []) = (0, Some fd) \<and>
    posix_lock_load True (\<lambda>_ _. True) posix_lock_init fd 0x10 False = (0, tab') \<and>
    posix_lock_inode_find tab' 1 = Some \<lparr>p_inode = 1, p_active = [\<lparr>a_owner = 9, a_sessionid = 5, a_pid = 7,
      a_ranges = [\<lparr>r_start = 0, r_end = 10, r_type = POSIX_LOCK_WRLCK\<rparr>]\<rparr>], p_waiting = []\<rparr>"
proof -
  have nz: "\<not> (i = 0 \<and> a_owner al = 0 \<and> a_sessionid al = 0)"
    if "posix_lock_inode_find (ls_posix two_sessions) i = Some il" "al \<in> set (p_active il)" for i il al
  proof
    assume z: "i = 0 \<and> a_owner al = 0 \<and> a_sessionid al = 0"
    have "posix_lock_inode_find (ls_posix two_sessions) 0 = None"
      by (simp add: two_sessions_def run_posix_def run_open_def lock_state_init_def of_openfile_def of_checknode_def
          of_newnode_def of_init_def posix_run_def posix_eval posix_hash_0)
    with z that show False by simp
  qed
  from posix_store_load [OF two_sessions_ptable_ok, of "\<lambda>_ _. True" False True False] nz two_sessions_find show ?thesis by fastforce
qed

end
