(* ===== verification/Open_Storage.thy ===== *)
theory Open_Storage
  imports Posix_Storage
begin

text \<open>
  The metadata section of the open files, and the lists of locks and open files for the tools: the
  packet is created with exactly the size of what is then written into it.
\<close>

subsection \<open>The section of the open files\<close>

lemma of_records_set: "of_linked st \<Longrightarrow> set (of_records st) = of_nodes st" "of_linked st \<Longrightarrow> distinct (of_records st)"
proof -
  assume l: "of_linked st"
  have h: "OF_SESSION_HASH s < OF_SESSION_HASHSIZE" for s by (simp add: OF_SESSION_HASH_def OF_SESSION_HASHSIZE_def)
  show "set (of_records st) = of_nodes st"
    using session_chain_mem [OF l] h by (auto simp: of_records_def)
  have "distinct (concat (map (of_sessionhash st) [0..<n]))" for n
  proof (induction n)
    case (Suc n)
    then show ?case using session_chain_mem [OF l] session_chain_nodes(2) [OF l] by auto
  qed simp
  then show "distinct (of_records st)" by (simp add: of_records_def)
qed

lemma of_load_entries:
  assumes "of_ok st" "distinct es" "\<And>e. e \<in> set es \<Longrightarrow> e \<notin> of_rel st \<and> fst e > 0 \<and> snd e > 0 \<and> known (fst e)"
  shows "\<exists>st'. handle_all (of_load_entry known) st es = Inr st' \<and> of_ok st' \<and> of_rel st' = of_rel st \<union> set es"
  using assms
proof (induction es arbitrary: st)
  case (Cons e es)
  obtain s i where e: "e = (s, i)" by fastforce
  have new: "(s, i) \<notin> of_rel st" "s > 0" "i > 0" "known s" using Cons.prems(3) [of e] e by simp_all
  have "e' \<notin> of_rel (of_newnode st s i) \<and> fst e' > 0 \<and> snd e' > 0 \<and> known (fst e')" if "e' \<in> set es" for e'
    using Cons.prems(2) Cons.prems(3) [of e'] that e by auto
  with Cons.IH [OF ok_newnode [OF Cons.prems(1) new(1)]] Cons.prems(2) new e show ?case
    by (auto simp: of_load_entry_def)
qed simp

lemma of_entry_code:
  "length (of_store_entry big e) = OF_REC_SIZE" "of_read_entry big' (of_store_entry big e) = Some e"
  by (simp_all add: of_store_entry_def of_read_entry_def put_any_order [of big])

lemma of_entry_end: "replicate OF_REC_SIZE 0 = of_store_entry big (0, 0)"
  unfolding of_store_entry_def fst_conv snd_conv put_zero replicate_add [symmetric] by simp

subsection \<open>Lists\<close>

lemma list_size_eq: "list_size n xs = word_of_nat (length xs) * n"
proof -
  have "fold (\<lambda>_ ret. ret + n) xs a = a + word_of_nat (length xs) * n" for a
    by (induction xs arbitrary: a) (simp_all add: algebra_simps)
  then show ?thesis by (simp add: list_size_def)
qed

lemma list_size_nat:
  assumes "length xs * unat n < 2 ^ 32"
  shows "unat (list_size n xs) = length xs * unat n"
proof -
  have eq: "list_size n xs = word_of_nat (length xs * unat n)" by (simp add: list_size_eq)
  have "unat (list_size n xs) = length xs * unat n mod 2 ^ LENGTH(32)" unfolding eq by (rule unat_of_nat)
  then show ?thesis using assms by simp
qed

text \<open>The parts that are written follow each other and end at the size of the packet.\<close>

fun parts_fill :: "nat \<Rightarrow> nat \<Rightarrow> (nat \<times> bytes) list \<Rightarrow> bool" where
  "parts_fill pos len [] \<longleftrightarrow> pos = len"
| "parts_fill pos len ((p, bs) # parts) \<longleftrightarrow> p = pos \<and> parts_fill (pos + length bs) len parts"

text \<open>How many records the lists have.\<close>

definition posix_listed :: "ptable \<Rightarrow> u32 \<Rightarrow> posix_entry list" where
  "posix_listed tab inode = (if inode = 0 then concat (map posix_entries (posix_records tab))
     else case posix_lock_inode_find tab inode of None \<Rightarrow> [] | Some il \<Rightarrow> posix_entries il)"

definition flock_listed :: "ftable \<Rightarrow> u32 \<Rightarrow> flock_entry list" where
  "flock_listed tab inode = (if inode = 0 then concat (map flock_entries (flock_records tab))
     else case flock_inode_find tab inode of None \<Rightarrow> [] | Some il \<Rightarrow> flock_entries il)"

lemma length_concat_const: "(\<And>x. length (f x) = n) \<Longrightarrow> length (concat (map f xs)) = length xs * n"
  by (induction xs) simp_all

lemma posix_list_size:
  assumes "length (posix_listed tab inode) * 37 < 2 ^ 32"
  shows "unat (fst (posix_lock_list big tab inode False)) = length (snd (posix_lock_list big tab inode True))"
proof -
  have "length (posix_list_entry big e) = 33" for e by (simp add: posix_list_entry_def)
  then show ?thesis
    using assms list_size_nat [of "posix_listed tab inode" 37] list_size_nat [of "posix_listed tab inode" 33]
    by (auto simp: posix_lock_list_def posix_listed_def Let_def length_concat_const)
qed

lemma flock_list_size:
  assumes "length (flock_listed tab inode) * 37 < 2 ^ 32"
  shows "unat (fst (flock_list big tab inode False)) = length (snd (flock_list big tab inode True))"
proof -
  have "length (flock_list_entry big e) = 33" for e by (simp add: flock_list_entry_def)
  then show ?thesis
    using assms list_size_nat [of "flock_listed tab inode" 37] list_size_nat [of "flock_listed tab inode" 33]
    by (auto simp: flock_list_def flock_listed_def Let_def length_concat_const)
qed

lemma lsof_size:
  assumes "length (of_records st) * 8 < 2 ^ 32" "length (of_sessionhash st (OF_SESSION_HASH s)) * 4 < 2 ^ 32"
  shows "unat (fst (of_lsof big st s False)) = length (snd (of_lsof big st s True))"
proof -
  let ?rs = "filter (\<lambda>r. o_sessionid r = s) (of_sessionhash st (OF_SESSION_HASH s))"
  have "length ?rs \<le> length (of_sessionhash st (OF_SESSION_HASH s))" by (rule length_filter_le)
  with assms(2) have "length ?rs * 4 < 2 ^ 32" by linarith
  then show ?thesis
    using assms list_size_nat [of "of_records st" 8] list_size_nat [of ?rs 4]
    by (simp add: of_lsof_def Let_def length_concat_const)
qed

subsection \<open>Properties\<close>

text \<open>
  C23. The section of the open files: when all sessions are known and session and inode numbers are not
  zero, writing the section succeeds and loading it, on a machine of any byte order, gives a table in
  which exactly the same sessions have the same files open.
\<close>

theorem of_store_load:
  assumes "of_ok st" and "\<And>s i. of_checknode st s i \<Longrightarrow> s > 0 \<and> i > 0 \<and> known s"
  shows "\<exists>fd st'. of_store big file_write st (Some []) = (0, Some fd) \<and>
    of_load big' known of_init fd 0x10 = (0, st') \<and> of_ok st' \<and>
    (\<forall>s i. of_checknode st' s i = of_checknode st s i)"
proof -
  have l: "of_linked st" and inj: "inj_on o_pair (of_nodes st)" using assms(1) by (simp_all add: of_ok_def)
  let ?es = "map o_pair (of_records st)"
  have set: "set ?es = of_rel st" by (simp add: of_records_set(1) [OF l] of_rel_def)
  have "distinct ?es" using of_records_set [OF l] inj by (simp add: distinct_map)
  moreover have "e \<notin> of_rel of_init \<and> fst e > 0 \<and> snd e > 0 \<and> known (fst e)" if "e \<in> set ?es" for e
    using assms(2) [of "fst e" "snd e"] that unfolding set by (simp add: of_ok_init(2) checknode_rel [OF l])
  ultimately obtain st' where
    h: "handle_all (of_load_entry known) of_init ?es = Inr st'" "of_ok st'" "of_rel st' = of_rel st"
    using of_load_entries [OF of_ok_init(1), of ?es known] set by (auto simp: of_ok_init(2))
  let ?fd = "concat (map (of_store_entry big) ?es @ [of_store_entry big (0, 0)])"
  have "load_loop OF_REC_SIZE (of_read_entry big') (of_load_entry known) of_init ?fd = (0, st')"
    by (rule load_section [OF _ of_entry_code(1) of_entry_code(2) _ h(1)]) (simp_all add: of_load_entry_def)
  then have "of_load big' known of_init ?fd 0x10 = (0, st')" by (simp add: of_load_def)
  moreover have "of_store big file_write st (Some []) = (0, Some ?fd)"
    by (simp add: of_store_def store_section_def store_records_file of_entry_end [of big] del: OF_REC_SIZE_def)
  moreover have "of_checknode st' s i = of_checknode st s i" for s i
    using h(2,3) l by (simp add: checknode_rel of_ok_def)
  ultimately show ?thesis using h(2) by blast
qed

theorem of_store_load_witness:
  "\<exists>fd st'. of_store False file_write (ls_open opened_by_5) (Some []) = (0, Some fd) \<and>
    of_load True (\<lambda>s. s = 5) of_init fd 0x10 = (0, st') \<and> of_checknode st' 5 9"
proof -
  have iff: "of_checknode (ls_open opened_by_5) s i \<longleftrightarrow> s = 5 \<and> (i = 7 \<or> i = 9)" for s i
    using opened_by_5_ok by (auto simp: checknode_rel of_ok_def opened_by_5_def of_ok_init(2))
  then have "s > 0 \<and> i > 0 \<and> s = 5" if "of_checknode (ls_open opened_by_5) s i" for s i using that by auto
  from of_store_load [OF opened_by_5_ok this, of False True] iff show ?thesis by blast
qed

text \<open>
  C24. The list of acquired locks fits its packet: unless there are about a hundred million locks, the parts
  that \<^verbatim>\<open>matoclserv_list_acquired_locks\<close> writes (message number, POSIX locks, BSD locks) follow each other and
  end exactly at the size that the packet was created with, so nothing is written outside of it and
  nothing in it is left unwritten.
\<close>

theorem list_acquired_locks_fits:
  assumes "\<And>inode. length (posix_listed (ls_posix ls) inode) * 37 + length (flock_listed (ls_flock ls) inode) * 37 + 4 < 2 ^ 32"
    and "matoclserv_list_acquired_locks big ls data = Some (psize, parts)"
  shows "parts_fill 0 (unat psize) parts"
proof -
  obtain msgid data1 where d1: "(if length data = 8 then get32bit big data else Some (0, data)) = Some (msgid, data1)"
    using assms(2) by (auto simp: matoclserv_list_acquired_locks_def split: bind_splits if_splits)
  obtain inode data2 where d2: "get32bit big data1 = Some (inode, data2)"
    using assms(2) d1 by (auto simp: matoclserv_list_acquired_locks_def split: bind_splits if_splits)
  let ?p = "fst (posix_lock_list big (ls_posix ls) inode False)" and ?f = "fst (flock_list big (ls_flock ls) inode False)"
  have p: "unat ?p = length (snd (posix_lock_list big (ls_posix ls) inode True))"
    and f: "unat ?f = length (snd (flock_list big (ls_flock ls) inode True))"
    using assms(1) [of inode] by (simp_all add: posix_list_size flock_list_size)
  have pb: "unat ?p \<le> length (posix_listed (ls_posix ls) inode) * 37" and fb: "unat ?f \<le> length (flock_listed (ls_flock ls) inode) * 37"
    unfolding p f
    by (auto simp: posix_lock_list_def posix_listed_def posix_list_entry_def flock_list_def flock_listed_def
        flock_list_entry_def Let_def length_concat_const)
  have sum: "unat ?p + unat ?f + 4 < 2 ^ 32" using pb fb assms(1) [of inode] by linarith
  have s1: "unat (?p + ?f) = unat ?p + unat ?f" using sum by (simp add: unat_add_lem [THEN iffD1])
  have s2: "unat (4 + ?p + ?f) = 4 + (unat ?p + unat ?f)"
    using sum by (simp add: unat_add_lem [THEN iffD1] add.assoc s1)
  show ?thesis
    using assms(2) d1 d2 p f s1 s2
    by (auto simp: matoclserv_list_acquired_locks_def Let_def split: if_splits)
qed

theorem list_acquired_locks_fits_witness:
  "\<exists>psize parts. matoclserv_list_acquired_locks False lock_state_init (put32bit True 3 @ put32bit True 1) = Some (psize, parts) \<and>
    parts_fill 0 (unat psize) parts \<and> psize = 4"
proof -
  have empty: "posix_listed (ls_posix lock_state_init) i = []" "flock_listed (ls_flock lock_state_init) i = []" for i
    by (simp_all add: posix_listed_def flock_listed_def posix_records_def flock_records_def lock_state_init_def
        posix_lock_init_def flock_init_def posix_lock_inode_find_def flock_inode_find_def concat_eq_Nil_conv)
  have "fst (posix_lock_list False (ls_posix lock_state_init) 1 False) = 0" "fst (flock_list False (ls_flock lock_state_init) 1 False) = 0"
    by (simp_all add: posix_lock_list_def flock_list_def lock_state_init_def posix_lock_init_def flock_init_def
        posix_lock_inode_find_def flock_inode_find_def list_size_def)
  then obtain parts where r: "matoclserv_list_acquired_locks False lock_state_init (put32bit True 3 @ put32bit True 1) = Some (4, parts)"
    by (simp add: matoclserv_list_acquired_locks_def Let_def)
  have "parts_fill 0 (unat (4 :: u32)) parts" by (rule list_acquired_locks_fits [OF _ r]) (simp add: empty)
  with r show ?thesis by blast
qed

end
