(* ===== verification/C_Text.thy ===== *)
theory C_Text
  imports MFS_Prelude
begin

text \<open>
  Text as the C library handles it: a \<^verbatim>\<open>char *\<close> that is only read forwards is the list of the
  characters before the terminating NUL, \<^verbatim>\<open>printf\<close> conversions of unsigned numbers are lists of
  digits, and \<^verbatim>\<open>strtoul\<close> returns the number with the rest of the text. The type
  \<^verbatim>\<open>unsigned long\<close> has 64 bits.
\<close>

subsection \<open>Characters\<close>

abbreviation code :: "char \<Rightarrow> nat" where
  "code c \<equiv> of_char c"

abbreviation NUL :: char where
  "NUL \<equiv> CHR 0x00"

text \<open>\<^verbatim>\<open>*ptr\<close>.\<close>

fun at :: "string \<Rightarrow> char" where
  "at [] = NUL"
| "at (c # s) = c"

definition isspace :: "char \<Rightarrow> bool" where
  "isspace c \<longleftrightarrow> code c = 32 \<or> (9 \<le> code c \<and> code c \<le> 13)"

definition digit_val :: "char \<Rightarrow> nat option" where
  "digit_val c =
     (if 48 \<le> code c \<and> code c \<le> 57 then Some (code c - 48)
      else if 65 \<le> code c \<and> code c \<le> 70 then Some (code c - 55)
      else if 97 \<le> code c \<and> code c \<le> 102 then Some (code c - 87)
      else None)"

definition digit_in :: "nat \<Rightarrow> char \<Rightarrow> bool" where
  "digit_in base c = (case digit_val c of Some d \<Rightarrow> d < base | None \<Rightarrow> False)"

definition digit_char :: "nat \<Rightarrow> char" where
  "digit_char d = char_of (if d < 10 then 48 + d else 55 + d)"

subsection \<open>Reading numbers\<close>

fun num_val :: "nat \<Rightarrow> nat \<Rightarrow> string \<Rightarrow> nat \<times> string" where
  "num_val base acc [] = (acc, [])"
| "num_val base acc (c # s) =
     (case digit_val c of
        Some d \<Rightarrow> (if d < base then num_val base (acc * base + d) s else (acc, c # s))
      | None \<Rightarrow> (acc, c # s))"

fun skip_sign :: "string \<Rightarrow> bool \<times> string" where
  "skip_sign [] = (False, [])"
| "skip_sign (c # s) = (if c = CHR ''-'' then (True, s) else if c = CHR ''+'' then (False, s) else (False, c # s))"

definition skip_0x :: "nat \<Rightarrow> string \<Rightarrow> string" where
  "skip_0x base s =
     (if base = 16 \<and> at s = CHR ''0'' \<and> at (tl s) \<in> {CHR ''x'', CHR ''X''} \<and> digit_in 16 (at (tl (tl s)))
      then tl (tl s) else s)"

text \<open>
  The result of \<^verbatim>\<open>strtoul(s,&e,base)\<close> and the rest \<^verbatim>\<open>e\<close> (the text itself where no number stands); too big
  numbers give \<^verbatim>\<open>ULONG_MAX\<close>, a minus sign negates in the unsigned type.
\<close>

definition strtoul :: "nat \<Rightarrow> string \<Rightarrow> u64 \<times> string" where
  "strtoul base s =
     (let (neg, t) = skip_sign (dropWhile isspace s);
          t = skip_0x base t;
          (v, r) = num_val base 0 t
      in if r = t then (0, s)
         else (if v \<ge> 2 ^ 64 then - 1 else if neg then - of_nat v else of_nat v, r))"

text \<open>\<^verbatim>\<open>strtoll\<close> gives a signed 64-bit number and stops at its limits.\<close>

definition strtoll :: "nat \<Rightarrow> string \<Rightarrow> int \<times> string" where
  "strtoll base s =
     (let (neg, t) = skip_sign (dropWhile isspace s);
          t = skip_0x base t;
          (v, r) = num_val base 0 t
      in if r = t then (0, s)
         else (if neg then max (- (2 ^ 63)) (- int v) else min (2 ^ 63 - 1) (int v), r))"

subsection \<open>Printing numbers\<close>

function num :: "nat \<Rightarrow> nat \<Rightarrow> string" where
  "num base n = (if n < base \<or> base < 2 then [digit_char n] else num base (n div base) @ [digit_char (n mod base)])"
  by auto
termination by (relation "measure snd") auto

declare num.simps [simp del]

text \<open>\<^verbatim>\<open>%u\<close>, and \<^verbatim>\<open>%03o\<close>, \<^verbatim>\<open>%04X\<close> and so on.\<close>

definition dec :: "'a :: len word \<Rightarrow> string" where
  "dec x = num 10 (unat x)"

definition padded :: "nat \<Rightarrow> nat \<Rightarrow> 'a :: len word \<Rightarrow> string" where
  "padded base w x = (let s = num base (unat x) in replicate (w - length s) (CHR ''0'') @ s)"

subsection \<open>Reading what was printed\<close>

lemma code_char_of: "n < 256 \<Longrightarrow> code (char_of n) = n"
  by simp

lemma digit_val_char [simp]: "d < 16 \<Longrightarrow> digit_val (digit_char d) = Some d"
  by (simp add: digit_val_def digit_char_def)

lemma num_val_end: "\<not> digit_in base (at r) \<Longrightarrow> num_val base acc r = (acc, r)"
  by (cases r) (auto simp: digit_in_def split: option.splits)

lemma num_val_snoc:
  "\<lbrakk>d < base; base \<le> 16\<rbrakk> \<Longrightarrow> num_val base acc (digit_char d # r) = num_val base (acc * base + d) r"
  by simp

lemma num_val_num_app:
  assumes base: "2 \<le> base" "base \<le> 16"
  shows "num_val base acc (num base n @ r) = num_val base (acc * base ^ length (num base n) + n) r"
proof (induction n arbitrary: acc r rule: less_induct)
  case (less n)
  show ?case
  proof (cases "n < base")
    case True
    then have "num base n = [digit_char n]" by (simp add: num.simps)
    with True base show ?thesis by (simp del: num_val.simps add: num_val_snoc)
  next
    case False
    with base have eq: "num base n = num base (n div base) @ [digit_char (n mod base)]"
      by (subst num.simps) simp
    have lt: "n div base < n" using False base by simp
    have "num_val base acc (num base n @ r) =
        num_val base ((acc * base ^ length (num base (n div base)) + n div base) * base + n mod base) r"
      using base by (simp del: num_val.simps add: eq less [OF lt] num_val_snoc)
    also have "(acc * base ^ length (num base (n div base)) + n div base) * base + n mod base =
        acc * base ^ length (num base n) + n"
      by (simp add: eq algebra_simps)
    finally show ?thesis .
  qed
qed

lemma num_nonempty [simp]: "num base n \<noteq> []"
  by (subst num.simps) simp

definition digits :: "nat \<Rightarrow> string \<Rightarrow> bool" where
  "digits base s \<longleftrightarrow> (\<forall>c\<in>set s. \<exists>d<base. c = digit_char d)"

lemma num_digits: "\<lbrakk>2 \<le> base; base \<le> 16\<rbrakk> \<Longrightarrow> digits base (num base n)"
proof (induction n rule: less_induct)
  case (less n)
  show ?case
  proof (cases "n < base")
    case True
    then have "num base n = [digit_char n]" by (simp add: num.simps)
    with True show ?thesis by (auto simp: digits_def)
  next
    case False
    with less.prems have eq: "num base n = num base (n div base) @ [digit_char (n mod base)]"
      by (subst num.simps) simp
    from False less.prems have "n div base < n" by simp
    with less have "digits base (num base (n div base))" by blast
    moreover have "n mod base < base" using less.prems by simp
    ultimately show ?thesis unfolding eq digits_def by auto
  qed
qed

lemma digit_char_simps:
  assumes "d < 16"
  shows "\<not> isspace (digit_char d)" "digit_char d \<noteq> CHR ''-''" "digit_char d \<noteq> CHR ''+''"
    "digit_char d \<noteq> CHR ''x''" "digit_char d \<noteq> CHR ''X''"
proof -
  from assms have v: "digit_val (digit_char d) = Some d" by simp
  show "\<not> isspace (digit_char d)" using assms by (simp add: isspace_def digit_char_def)
  have "digit_val (CHR ''-'') = None" "digit_val (CHR ''+'') = None" "digit_val (CHR ''x'') = None" "digit_val (CHR ''X'') = None"
    by (simp_all add: digit_val_def)
  with v show "digit_char d \<noteq> CHR ''-''" "digit_char d \<noteq> CHR ''+''" "digit_char d \<noteq> CHR ''x''" "digit_char d \<noteq> CHR ''X''"
    by auto
qed

lemma zero_digit: "CHR ''0'' = digit_char 0"
proof -
  have "code (CHR ''0'') = 48" by simp
  then show ?thesis unfolding digit_char_def by (metis add_0_right char_of_char zero_less_numeral)
qed

lemma digits_padded: "\<lbrakk>2 \<le> base; base \<le> 16\<rbrakk> \<Longrightarrow> digits base (replicate k (CHR ''0'') @ num base n)"
  using num_digits [of base n] unfolding zero_digit digits_def
  by (metis (no_types, lifting) Un_iff in_set_replicate less_le_trans set_append zero_less_numeral)

lemma digits_start:
  assumes "digits base s" "s \<noteq> []" "base \<le> 16" "base = 16 \<Longrightarrow> 2 \<le> length s"
  shows "skip_sign (dropWhile isspace (s @ r)) = (False, s @ r)"
    and "skip_0x base (s @ r) = s @ r"
proof -
  from assms obtain d t where s: "s = digit_char d # t" and d: "d < 16"
    by (cases s) (auto simp: digits_def)
  show "skip_sign (dropWhile isspace (s @ r)) = (False, s @ r)"
    using digit_char_simps [OF d] by (simp add: s)
  show "skip_0x base (s @ r) = s @ r"
  proof (cases "base = 16")
    case True
    with assms s obtain d' t' where t: "t = digit_char d' # t'" and d': "d' < 16"
      by (cases t) (auto simp: digits_def)
    show ?thesis using digit_char_simps [OF d'] by (simp add: skip_0x_def s t)
  qed (simp add: skip_0x_def)
qed

lemma num_val_zeros:
  "2 \<le> base \<Longrightarrow> num_val base 0 (replicate k (CHR ''0'') @ s) = num_val base 0 s"
  by (induction k) (simp_all add: digit_val_def)

lemma num_val_printed:
  assumes "2 \<le> base" "base \<le> 16" "\<not> digit_in base (at r)"
  shows "num_val base 0 (replicate k (CHR ''0'') @ num base n @ r) = (n, r)"
  using assms by (simp add: num_val_zeros num_val_num_app num_val_end)

lemma strtoul_printed:
  assumes "2 \<le> base" "base \<le> 16" "\<not> digit_in base (at r)" "n < 2 ^ 64"
    and "base = 16 \<Longrightarrow> 2 \<le> k + length (num base n)"
  shows "strtoul base (replicate k (CHR ''0'') @ num base n @ r) = (of_nat n, r)"
proof -
  let ?s = "replicate k (CHR ''0'') @ num base n"
  have start: "skip_sign (dropWhile isspace (?s @ r)) = (False, ?s @ r)" "skip_0x base (?s @ r) = ?s @ r"
    using assms digits_start [OF digits_padded, of base k n] by auto
  have "?s @ r \<noteq> r" by simp
  then show ?thesis
    using start num_val_printed [OF assms(1-3), of k n] assms(4) by (simp add: strtoul_def Let_def)
qed

lemma strtoll_printed:
  assumes "\<not> digit_in 10 (at r)" "n < 2 ^ 63"
  shows "strtoll 10 (num 10 n @ r) = (int n, r)"
proof -
  have start: "skip_sign (dropWhile isspace (num 10 n @ r)) = (False, num 10 n @ r)" "skip_0x 10 (num 10 n @ r) = num 10 n @ r"
    using digits_start [OF num_digits, of 10 n] by auto
  have "num 10 n @ r \<noteq> r" by simp
  then show ?thesis
    using start num_val_printed [of 10 r 0 n] assms by (simp add: strtoll_def Let_def)
qed

lemma unat_less_64: "LENGTH('a) \<le> 64 \<Longrightarrow> unat (x :: 'a :: len word) < 2 ^ 64"
  using unsigned_less [of x, where ?'a = nat] power_increasing [of "LENGTH('a)" 64 "2 :: nat"] by linarith

lemma cast_back: "LENGTH('a) \<le> LENGTH('b) \<Longrightarrow> ucast (ucast (x :: 'a :: len word) :: 'b :: len word) = x"
  by (rule bit_word_eqI) (simp add: bit_ucast_iff)

lemma strtoul_dec:
  fixes x :: "'a :: len word"
  assumes "LENGTH('a) \<le> 64" "\<not> digit_in 10 (at r)"
  shows "strtoul 10 (dec x @ r) = (ucast x, r)"
  using strtoul_printed [of 10 r "unat x" 0] assms unat_less_64 [of x] by (simp add: dec_def)

lemma strtoul_hex:
  fixes x :: "'a :: len word"
  assumes "LENGTH('a) \<le> 64" "\<not> digit_in 16 (at r)" "2 \<le> w"
  shows "strtoul 16 (padded 16 w x @ r) = (ucast x, r)"
  using strtoul_printed [of 16 r "unat x" "w - length (num 16 (unat x))"] assms unat_less_64 [of x]
  by (simp add: padded_def Let_def)

text \<open>The characters that follow a number in the changelog end it.\<close>

lemma digit_in_simps [simp]:
  "\<not> digit_in base NUL" "\<not> digit_in base (CHR '','')" "\<not> digit_in base (CHR '')'')" "\<not> digit_in base (CHR ''('')"
  "\<not> digit_in base (CHR '':'')" "\<not> digit_in base (CHR 0x0A)" "\<not> digit_in base (CHR ''|'')" "\<not> digit_in base (CHR '']'')"
  by (simp_all add: digit_in_def digit_val_def)

lemma at_append [simp]: "s \<noteq> [] \<Longrightarrow> at (s @ r) = at s"
  by (cases s) simp_all

lemma dec_nonempty [simp]: "dec x \<noteq> []"
  by (simp add: dec_def)

lemma at_dec: "\<exists>d<10. at (dec x) = digit_char d"
proof -
  have "digits 10 (dec x)" unfolding dec_def by (rule num_digits) simp_all
  then show ?thesis by (cases "dec x") (auto simp: digits_def)
qed

lemma code_digit: "d < 10 \<Longrightarrow> 48 \<le> code (digit_char d) \<and> code (digit_char d) \<le> 57"
  by (simp add: digit_char_def)

lemma code_at_dec [simp]: "48 \<le> code (at (dec x))" "code (at (dec x)) \<le> 57"
  using at_dec [of x] code_digit by metis+

end
