(* ===== verification/Restore_Macros.thy ===== *)
theory Restore_Macros
  imports C_Text "HOL-Library.Monad_Syntax"
begin

text \<open>
  The macros of \<^verbatim>\<open>mfsmaster/restore.c\<close> that read the text of a changelog line. The pointer \<^verbatim>\<open>ptr\<close> is the
  rest of the line; a macro gives \<^const>\<open>None\<close> where it makes the calling function return -1.
  The theory also models \<^verbatim>\<open>changelog_escape_name\<close> of \<^verbatim>\<open>mfsmaster/changelog.c\<close>, which writes what
  the name macros read, and shows that they are inverse to each other.
\<close>

subsection \<open>Characters and numbers\<close>

definition eat :: "char \<Rightarrow> string \<Rightarrow> string option" where
  "eat c p = (if at p = c then Some (tl p) else None)"

definition getu8 :: "string \<Rightarrow> (u8 \<times> string) option" where
  "getu8 p = (let (v, p) = strtoul 10 p; tmp = ucast v :: u32 in if tmp > 255 then None else Some (ucast tmp, p))"

definition getu16 :: "string \<Rightarrow> (u16 \<times> string) option" where
  "getu16 p = (let (v, p) = strtoul 10 p; tmp = ucast v :: u32 in if tmp > 65535 then None else Some (ucast tmp, p))"

definition getu32 :: "string \<Rightarrow> (u32 \<times> string) option" where
  "getu32 p = (let (v, p) = strtoul 10 p in Some (ucast v, p))"

definition getx32 :: "string \<Rightarrow> (u32 \<times> string) option" where
  "getx32 p = (let (v, p) = strtoul 16 p in Some (ucast v, p))"

definition getu64 :: "string \<Rightarrow> (u64 \<times> string) option" where
  "getu64 p = (let (v, p) = strtoul 10 p in Some (v, p))"

fun nextseparator :: "string \<Rightarrow> char" where
  "nextseparator [] = NUL"
| "nextseparator (c # p) =
     (if code c < 32 \<or> code c \<ge> 127 \<or> c = CHR '','' \<or> c = CHR ''('' \<or> c = CHR '')'' then c else nextseparator p)"

subsection \<open>Names and data\<close>

definition hex_digit :: "char \<Rightarrow> nat option" where
  "hex_digit c =
     (if 48 \<le> code c \<and> code c \<le> 57 then Some (code c - 48)
      else if 65 \<le> code c \<and> code c \<le> 70 then Some (code c - 55)
      else None)"

text \<open>One turn of the loops of \<^verbatim>\<open>GETNAME\<close>, \<^verbatim>\<open>GETPATH\<close> and \<^verbatim>\<open>GETDATA\<close>: the next, possibly escaped, byte.\<close>

definition getbyte :: "string \<Rightarrow> (char \<times> string) option" where
  "getbyte p =
     (if at p \<in> {NUL, CHR 0x0D, CHR 0x0A} then None
      else if at p = CHR ''%'' then
        (case (hex_digit (at (tl p)), hex_digit (at (tl (tl p)))) of
           (Some h1, Some h2) \<Rightarrow> Some (char_of (h1 * 16 + h2), tl (tl (tl p)))
         | _ \<Rightarrow> None)
      else Some (at p, tl p))"

lemma getbyte_shorter [termination_simp]: "getbyte p = Some (c, q) \<Longrightarrow> length q < length p"
  by (cases p) (auto simp: getbyte_def split: if_splits option.splits)

text \<open>\<^verbatim>\<open>GETNAME\<close> stops after 255 bytes; its buffer has 256.\<close>

fun getname_loop :: "char \<Rightarrow> nat \<Rightarrow> string \<Rightarrow> (string \<times> string) option" where
  "getname_loop c i p =
     (if at p = c \<or> i \<ge> 255 then Some ([], p)
      else case getbyte p of
        None \<Rightarrow> None
      | Some (x, q) \<Rightarrow> (case getname_loop c (i + 1) q of None \<Rightarrow> None | Some (s, r) \<Rightarrow> Some (x # s, r)))"

fun getdata :: "char \<Rightarrow> string \<Rightarrow> (string \<times> string) option" where
  "getdata c p =
     (if at p = c then Some ([], p)
      else case getbyte p of
        None \<Rightarrow> None
      | Some (x, q) \<Rightarrow> (case getdata c q of None \<Rightarrow> None | Some (s, r) \<Rightarrow> Some (x # s, r)))"

declare getname_loop.simps [simp del] getdata.simps [simp del]

text \<open>Names and paths are used as C strings: they end at the first NUL.\<close>

definition cstr :: "string \<Rightarrow> string" where
  "cstr s = takeWhile (\<lambda>c. c \<noteq> NUL) s"

definition getname :: "char \<Rightarrow> string \<Rightarrow> (string \<times> string) option" where
  "getname c p = (case getname_loop c 0 p of None \<Rightarrow> None | Some (s, r) \<Rightarrow> Some (cstr s, r))"

definition getpath :: "char \<Rightarrow> string \<Rightarrow> (string \<times> string) option" where
  "getpath c p = (case getdata c p of None \<Rightarrow> None | Some (s, r) \<Rightarrow> Some (cstr s, r))"

lemma num_val_le: "num_val base acc p = (v, q) \<Longrightarrow> length q \<le> length p"
  by (induction base acc p rule: num_val.induct) (auto split: option.splits if_splits intro: le_SucI)

lemma digit_val_range: "48 \<le> code c \<Longrightarrow> code c \<le> 57 \<Longrightarrow> digit_val c = Some (code c - 48)"
  by (simp add: digit_val_def)

lemma strtoul_shorter [termination_simp]:
  assumes "strtoul 10 p = (v, q)" "48 \<le> code (at p)" "code (at p) \<le> 57"
  shows "length q < length p"
proof -
  from assms(2) obtain c s where p: "p = c # s" by (cases p) auto
  with assms have c: "48 \<le> code c" "code c \<le> 57" by simp_all
  then have start: "skip_sign (dropWhile isspace p) = (False, p)" "skip_0x 10 p = p"
    by (auto simp: p isspace_def skip_0x_def)
  have nv: "num_val 10 0 p = num_val 10 (code c - 48) s"
    using c by (simp add: p digit_val_range) linarith
  obtain v' q' where "num_val 10 (code c - 48) s = (v', q')" by fastforce
  moreover from num_val_le [OF this] have "q' \<noteq> p" by (auto simp: p)
  ultimately show ?thesis using assms(1) start nv num_val_le
    by (auto simp: strtoul_def Let_def p less_Suc_eq_le)
qed

lemma tl_shorter: "at p \<noteq> NUL \<Longrightarrow> length p - Suc 0 < length p"
  by (cases p) auto

lemma hex_shorter: "hex_digit (at p) = Some h \<Longrightarrow> length p - Suc (Suc 0) < length p"
  by (cases p) (auto simp: hex_digit_def)

text \<open>\<^verbatim>\<open>GETARRAYU32\<close> after the opening bracket.\<close>

function getarray_loop :: "string \<Rightarrow> (u32 list \<times> string) option" where
  "getarray_loop p =
     (if at p = CHR '']'' then Some ([], tl p)
      else if at p \<in> {NUL, CHR 0x0D, CHR 0x0A} then None
      else if 48 \<le> code (at p) \<and> code (at p) \<le> 57 then
        (let (v, q) = strtoul 10 p
         in case getarray_loop q of None \<Rightarrow> None | Some (vs, r) \<Rightarrow> Some (ucast v # vs, r))
      else if at p = CHR '','' then getarray_loop (tl p)
      else None)"
  by auto
termination
  by (relation "measure length") (auto simp: tl_shorter strtoul_shorter [OF sym])

declare getarray_loop.simps [simp del]

definition getarrayu32 :: "string \<Rightarrow> (u32 list \<times> string) option" where
  "getarrayu32 p = (if at p = CHR ''['' then getarray_loop (tl p) else None)"

text \<open>\<^verbatim>\<open>GETHEX\<close> reads pairs of digits; it steps over a digit without a partner.\<close>

function gethex :: "string \<Rightarrow> (string \<times> string)" where
  "gethex p =
     (case hex_digit (at p) of
        None \<Rightarrow> ([], p)
      | Some h1 \<Rightarrow>
          (case hex_digit (at (tl p)) of
             None \<Rightarrow> ([], tl p)
           | Some h2 \<Rightarrow> (let (s, r) = gethex (tl (tl p)) in (char_of (h1 * 16 + h2) # s, r))))"
  by auto
termination
  by (relation "measure length") (auto simp: hex_shorter)

declare gethex.simps [simp del]

subsection \<open>Writing names\<close>

definition hex_char :: "nat \<Rightarrow> char" where
  "hex_char d = ''0123456789ABCDEF'' ! d"

definition must_escape :: "char \<Rightarrow> bool" where
  "must_escape c \<longleftrightarrow> code c < 32 \<or> code c \<ge> 127 \<or> c = CHR '','' \<or> c = CHR ''%'' \<or> c = CHR ''('' \<or> c = CHR '')''"

fun changelog_escape_name :: "string \<Rightarrow> string" where
  "changelog_escape_name [] = []"
| "changelog_escape_name (c # s) =
     (if must_escape c
      then CHR ''%'' # hex_char (code c div 16) # hex_char (code c mod 16) # changelog_escape_name s
      else c # changelog_escape_name s)"

text \<open>\<^verbatim>\<open>changelog_generate_gids\<close>: an empty array has no closing bracket.\<close>

fun gids_text :: "u32 list \<Rightarrow> string" where
  "gids_text [] = []"
| "gids_text [g] = dec g @ '']''"
| "gids_text (g # gs) = dec g @ '','' @ gids_text gs"

definition changelog_generate_gids :: "u32 list \<Rightarrow> string" where
  "changelog_generate_gids gids = ''['' @ gids_text gids"

subsection \<open>Reading what was written\<close>

text \<open>The reading of numbers; the collection carries the proofs about whole lines.\<close>

named_theorems changelog_simps \<open>reading what was printed\<close>

lemma eat_Cons [simp, changelog_simps]: "eat c (x # p) = (if x = c then Some p else None)"
  by (simp add: eat_def)

lemma cast_twice: "(ucast (ucast x :: u64) :: u32) = ucast x"
  by (rule bit_word_eqI) (simp add: bit_ucast_iff)

lemma getu8_dec [changelog_simps]:
  "\<not> digit_in 10 (at r) \<Longrightarrow> getu8 (dec (x :: u8) @ r) = Some (x, r)"
proof -
  assume r: "\<not> digit_in 10 (at r)"
  have "\<not> (255 :: u32) < ucast x"
    using unsigned_less [of x, where ?'a = nat]
    by (simp add: word_less_nat_alt unsigned_ucast_eq not_less) (rule order_trans [OF take_bit_nat_less_eq_self], simp)
  with r show ?thesis by (simp add: getu8_def strtoul_dec cast_twice cast_back Let_def)
qed

lemma getu16_dec [changelog_simps]:
  "\<not> digit_in 10 (at r) \<Longrightarrow> getu16 (dec (x :: u16) @ r) = Some (x, r)"
proof -
  assume r: "\<not> digit_in 10 (at r)"
  have "\<not> (65535 :: u32) < ucast x"
    using unsigned_less [of x, where ?'a = nat]
    by (simp add: word_less_nat_alt unsigned_ucast_eq not_less) (rule order_trans [OF take_bit_nat_less_eq_self], simp)
  with r show ?thesis by (simp add: getu16_def strtoul_dec cast_twice cast_back Let_def)
qed

lemma getu32_dec [changelog_simps]:
  fixes x :: "'a :: len word"
  assumes "LENGTH('a) \<le> 32" "\<not> digit_in 10 (at r)"
  shows "getu32 (dec x @ r) = Some (ucast x, r)"
  using assms by (simp add: getu32_def strtoul_dec cast_twice)

lemma getu64_dec [changelog_simps]:
  "\<not> digit_in 10 (at r) \<Longrightarrow> getu64 (dec (x :: u64) @ r) = Some (x, r)"
  by (simp add: getu64_def strtoul_dec)

lemma getx32_hex [changelog_simps]:
  fixes x :: "'a :: len word"
  assumes "LENGTH('a) \<le> 32" "\<not> digit_in 16 (at r)" "2 \<le> w"
  shows "getx32 (padded 16 w x @ r) = Some (ucast x, r)"
  using assms by (simp add: getx32_def strtoul_hex cast_twice)

text \<open>Escaped names.\<close>

lemma hex_char_cases: "d < 16 \<Longrightarrow> d = 0 \<or> d = 1 \<or> d = 2 \<or> d = 3 \<or> d = 4 \<or> d = 5 \<or> d = 6 \<or> d = 7 \<or>
    d = 8 \<or> d = 9 \<or> d = 10 \<or> d = 11 \<or> d = 12 \<or> d = 13 \<or> d = 14 \<or> d = (15 :: nat)"
  by presburger

lemma hex_digit_char [simp]: "d < 16 \<Longrightarrow> hex_digit (hex_char d) = Some d"
  by (drule hex_char_cases) (elim disjE; simp add: hex_char_def hex_digit_def)

lemma code_less: "code c < 256"
proof -
  have "code c mod 256 < 256" by simp
  then show ?thesis by (simp only: of_char_mod_256)
qed

lemma code_div_less [simp]: "code c div 16 < 16"
  using code_less [of c] by (simp add: less_mult_imp_div_less)

lemma getbyte_escaped:
  "getbyte (CHR ''%'' # hex_char (code c div 16) # hex_char (code c mod 16) # r) = Some (c, r)"
  using code_less [of c] by (simp add: getbyte_def)

lemma getbyte_plain: "\<not> must_escape c \<Longrightarrow> getbyte (c # r) = Some (c, r)"
  by (auto simp: getbyte_def must_escape_def)

text \<open>The two ends of a name: a comma or a closing parenthesis.\<close>

definition name_end :: "char \<Rightarrow> bool" where
  "name_end c \<longleftrightarrow> c = CHR '','' \<or> c = CHR '')''"

lemma name_end_simps [simp]: "name_end (CHR '','')" "name_end (CHR '')'')"
  by (simp_all add: name_end_def)

lemma escaped_start:
  "name_end c \<Longrightarrow> at (changelog_escape_name (x # s) @ r) \<noteq> c"
  by (auto simp: must_escape_def name_end_def)

lemma getbyte_name: "getbyte (changelog_escape_name (x # s) @ r) = Some (x, changelog_escape_name s @ r)"
  by (simp add: getbyte_escaped getbyte_plain)

lemma getdata_escaped [changelog_simps]:
  "name_end c \<Longrightarrow> getdata c (changelog_escape_name s @ c # r) = Some (s, c # r)"
proof (induction s)
  case Nil
  then show ?case by (simp add: getdata.simps)
next
  case (Cons x s)
  then show ?case
    by (subst getdata.simps) (simp del: changelog_escape_name.simps add: escaped_start getbyte_name)
qed

lemma getname_loop_escaped:
  "\<lbrakk>name_end c; i + length s \<le> 255\<rbrakk> \<Longrightarrow> getname_loop c i (changelog_escape_name s @ c # r) = Some (s, c # r)"
proof (induction s arbitrary: i)
  case Nil
  then show ?case by (simp add: getname_loop.simps)
next
  case (Cons x s)
  then have "i < 255" "Suc i + length s \<le> 255" by simp_all
  with Cons show ?case
    by (subst getname_loop.simps) (simp del: changelog_escape_name.simps add: escaped_start getbyte_name)
qed

definition name_ok :: "string \<Rightarrow> bool" where
  "name_ok s \<longleftrightarrow> length s \<le> 255 \<and> NUL \<notin> set s"

definition path_ok :: "string \<Rightarrow> bool" where
  "path_ok s \<longleftrightarrow> NUL \<notin> set s"

lemma cstr_id: "NUL \<notin> set s \<Longrightarrow> cstr s = s"
  by (auto simp: cstr_def takeWhile_eq_all_conv)

lemma getname_escaped [changelog_simps]:
  "\<lbrakk>name_ok s; name_end c\<rbrakk> \<Longrightarrow> getname c (changelog_escape_name s @ c # r) = Some (s, c # r)"
  by (simp add: getname_def getname_loop_escaped name_ok_def cstr_id)

lemma getpath_escaped [changelog_simps]:
  "\<lbrakk>path_ok s; name_end c\<rbrakk> \<Longrightarrow> getpath c (changelog_escape_name s @ c # r) = Some (s, c # r)"
  by (simp add: getpath_def getdata_escaped path_ok_def cstr_id)

lemma hex_char_plain: "d < 16 \<Longrightarrow> \<not> must_escape (hex_char d)"
  by (drule hex_char_cases) (elim disjE; simp add: hex_char_def must_escape_def)

lemma nextseparator_skip: "\<not> must_escape c \<or> c = CHR ''%'' \<Longrightarrow> nextseparator (c # p) = nextseparator p"
  by (auto simp: must_escape_def)

lemma nextseparator_escaped [changelog_simps]:
  "nextseparator (changelog_escape_name s @ CHR '','' # r) = CHR '',''"
proof (induction s)
  case (Cons x s)
  then show ?case
    by (cases "must_escape x") (simp_all del: nextseparator.simps add: nextseparator_skip hex_char_plain)
qed simp

text \<open>Arrays of groups.\<close>

lemma at_dec_range: "48 \<le> code (at (dec x @ r))" "code (at (dec x @ r)) \<le> 57"
  by simp_all

lemma at_dec_other [simp]:
  "at (dec x) \<noteq> NUL" "at (dec x) \<noteq> CHR '']''" "at (dec x) \<noteq> CHR 0x0D" "at (dec x) \<noteq> CHR 0x0A"
  "at (dec x) \<noteq> CHR '')''" "at (dec x) \<noteq> CHR '',''" "at (dec x) \<noteq> CHR ''#''"
proof -
  obtain d where "d < 10" "at (dec x) = digit_char d" using at_dec [of x] by blast
  then have "digit_val (at (dec x)) = Some d" by simp
  moreover have "digit_val NUL = None" "digit_val (CHR '']'') = None" "digit_val (CHR 0x0D) = None"
    "digit_val (CHR 0x0A) = None" "digit_val (CHR '')'') = None" "digit_val (CHR '','') = None" "digit_val (CHR ''#'') = None"
    by (simp_all add: digit_val_def)
  ultimately show "at (dec x) \<noteq> NUL" "at (dec x) \<noteq> CHR '']''" "at (dec x) \<noteq> CHR 0x0D" "at (dec x) \<noteq> CHR 0x0A"
    "at (dec x) \<noteq> CHR '')''" "at (dec x) \<noteq> CHR '',''" "at (dec x) \<noteq> CHR ''#''" by auto
qed

lemma getarray_loop_number:
  "\<not> digit_in 10 (at r) \<Longrightarrow>
   getarray_loop (dec (g :: u32) @ r) = (case getarray_loop r of None \<Rightarrow> None | Some (vs, q) \<Rightarrow> Some (g # vs, q))"
  by (subst getarray_loop.simps) (simp add: strtoul_dec cast_twice cong: option.case_cong)

lemma getarray_loop_gids: "gs \<noteq> [] \<Longrightarrow> getarray_loop (gids_text gs @ r) = Some (gs, r)"
proof (induction gs rule: gids_text.induct)
  case (2 g)
  have "getarray_loop (CHR '']'' # r) = Some ([], r)" by (simp add: getarray_loop.simps)
  then show ?case by (simp add: getarray_loop_number)
next
  case (3 g g' gs)
  have "getarray_loop (CHR '','' # p) = getarray_loop p" for p by (subst getarray_loop.simps) simp
  with 3 show ?case by (simp add: getarray_loop_number)
qed simp

lemma getarrayu32_gids [changelog_simps]:
  "gs \<noteq> [] \<Longrightarrow> getarrayu32 (CHR ''['' # gids_text gs @ r) = Some (gs, r)"
  by (simp add: getarrayu32_def getarray_loop_gids)

end
