(* ===== verification/Restore_Calls.thy ===== *)
theory Restore_Calls
  imports Restore_Macros Datapack
begin

text \<open>
  The functions \<^verbatim>\<open>do_...\<close> of \<^verbatim>\<open>mfsmaster/restore.c\<close>: each reads the arguments of one kind of changelog line and
  calls the function that repeats the change (\<^verbatim>\<open>fs_mr_...\<close>, \<^verbatim>\<open>chunk_mr_...\<close> and so on). The call is a value
  of the type \<open>mr_call\<close>, with the arguments that the called function gets; the time stamp of the line goes to the
  called function with every call. The result \<^const>\<open>None\<close> stands for the return value -1.
\<close>

subsection \<open>Calls\<close>

definition MAXLABELSCNT :: nat where [simp]: "MAXLABELSCNT = 9"
definition MASKORGROUP :: nat where [simp]: "MASKORGROUP = 4"
definition SCLASS_EXPR_MAX_SIZE :: nat where [simp]: "SCLASS_EXPR_MAX_SIZE = 128"
definition SCLASS_ARCH_MODE_CTIME :: u8 where [simp]: "SCLASS_ARCH_MODE_CTIME = 1"
definition LABELS_MODE_GLOBAL :: u8 where [simp]: "LABELS_MODE_GLOBAL = 0xFF"

text \<open>
  The fields of a storage mode that changelog lines carry; \<open>sm_labelexpr\<close> has the first \<open>sm_labelscnt\<close> rows,
  all others are zero.
\<close>

record storagemode =
  sm_uniqmask :: u32
  sm_ec_data_chksum_parts :: u8
  sm_labels_mode :: u8
  sm_labelscnt :: u8
  sm_labelexpr :: "string list"

definition sm_init :: storagemode where
  "sm_init = \<lparr>sm_uniqmask = 0, sm_ec_data_chksum_parts = 0, sm_labels_mode = LABELS_MODE_GLOBAL, sm_labelscnt = 0,
     sm_labelexpr = []\<rparr>"

record sclass_args =
  sc_desc :: string
  sc_priority :: u32
  sc_export_group :: u8
  sc_admin_only :: u8
  sc_labels_mode :: u8
  sc_arch_mode :: u8
  sc_arch_delay :: u16
  sc_arch_min_size :: u64
  sc_min_trashretention :: u16
  sc_create :: storagemode
  sc_keep :: storagemode
  sc_arch :: storagemode
  sc_trash :: storagemode

record session_args =
  sa_exportscsum :: u64
  sa_rootinode :: u32
  sa_sesflags :: u8
  sa_umask :: u16
  sa_rootuid :: u32
  sa_rootgid :: u32
  sa_mapalluid :: u32
  sa_mapallgid :: u32
  sa_sclassgroups :: u16
  sa_mintrashretention :: u32
  sa_maxtrashretention :: u32
  sa_disables :: u32
  sa_peerip :: u32
  sa_info :: string

datatype (plugins only:) mr_call =
    Meta_mr_idle
  | Lock_mr changelog_entry
  | Fs_mr_access u32
  | Fs_mr_additionalattr u32 u8 string
  | Fs_mr_archchg u32 u32 u8 u64 u64 u32
  | Fs_mr_amtime u32 u32 u32 u32
  | Fs_mr_link u32 u32 string
  | Fs_mr_symlink u32 string string u32 u32 u32
  | Fs_mr_unlink u32 string u32
  | Fs_mr_undel u32
  | Fs_mr_purge u32
  | Fs_mr_setpath u32 string
  | Fs_mr_trash_recover u32 u32 string u16 u32 u32 u8 string
  | Fs_mr_trash_remove u32
  | Fs_mr_trunc u32 u32 u64
  | Fs_mr_rollback u32 u32 u64 u64
  | Fs_mr_unlock u64
  | Fs_mr_repair u32 u32 u32
  | Fs_mr_set_file_chunk u32 u32 u64
  | Fs_mr_renumerate_edges u64
  | Fs_mr_seteattr u32 u32 u8 u8 u32 u32 u32
  | Fs_mr_setsclass u32 u32 u8 u8 u8 u32 u32 u32
  | Fs_mr_settrashretention u32 u32 u32 u8 u32 u32 u32
  | Fs_mr_setxattr u32 string string u32
  | Chunk_mr_chunkadd u64 u32 u32
  | Chunk_mr_chunkdel u64 u32
  | Chunk_mr_flagsclr u64
  | Chunk_mr_increase_version u64
  | Chunk_mr_set_version u64 u32
  | Chunk_mr_nextchunkid u64
  | Csdb_mr_op u8 u32 u16 u32
  | Patterns_mr_delete string u32 u32
  | Meta_mr_setmetaid u64
  | Sessions_mr_session u32
  | Sessions_mr_sesdel u32
  | Sessions_mr_connected u32
  | Sessions_mr_disconnected u32
  | Sclass_mr_ec_version u8
  | Sclass_mr_delete_entry string u16
  | Sclass_mr_duplicate_entry string string u16 u16
  | Sclass_mr_rename_entry string string u16
  | Fs_mr_append_slice u32 u32 u32 u32
  | Fs_mr_autoarch u32 u32 u8 u32 u32
  | Fs_mr_attr u32 u16 u32 u32 u32 u32 u8 u16
  | Fs_mr_create u32 string u8 u16 u16 u32 u32 u32 u32
  | Fs_mr_length u32 u64 u8
  | Fs_mr_move u32 string u32 string u8 u32
  | Fs_mr_write u32 u32 u8 u8 u64
  | Fs_mr_emptytrash u32 u32 u32 u32 u32
  | Fs_mr_emptysustained u32 u32 u32
  | Fs_mr_freeinodes u32 u32 u32 u32
  | Fs_mr_quota u32 u8 u8 u32 u32 u32 u64 u64 u64 u64 u64 u64 u32
  | Fs_mr_setacl u32 u16 u8 u8 u16 u16 u16 u16 u16 u16 string
  | Fs_mr_snapshot u32 u32 string u8 u8 u32 "u32 list" u16 u32 u32 u32 u32 u32 u32
  | Patterns_mr_add string u32 u32 u8 u8 u8 u16 u8 u8
  | Sessions_mr_sesadd session_args u32
  | Sessions_mr_seschanged u32 session_args
  | Sclass_mr_set_entry string u16 u8 sclass_args

text \<open>
  The return of a \<^verbatim>\<open>do_...\<close> function: the result of a call, a status of its own, or undefined
  behaviour (a shift is too wide). Some functions take the NUL at the end of the line for a character and go on with the
  bytes of the buffer behind it, which are what an earlier line left there: \<open>Behind f\<close> is the return \<open>f q\<close> for the text \<open>q\<close>
  that is found there.
\<close>

datatype mr_return = Call mr_call | Return u8 | Behind "string \<Rightarrow> mr_return option" | Undefined

definition do_idle :: "string \<Rightarrow> mr_return option" where
  "do_idle p = do {
     p \<leftarrow> eat (CHR ''('') p;
     p \<leftarrow> eat (CHR '')'') p;
     Some (Call Meta_mr_idle)
   }"

subsection \<open>Files and attributes\<close>

definition do_access :: "string \<Rightarrow> mr_return option" where
  "do_access p = do {
     p \<leftarrow> eat (CHR ''('') p;
     (inode, p) \<leftarrow> getu32 p;
     p \<leftarrow> eat (CHR '')'') p;
     Some (Call (Fs_mr_access inode))
   }"

definition do_addattr :: "string \<Rightarrow> mr_return option" where
  "do_addattr p = do {
     p \<leftarrow> eat (CHR ''('') p;
     (inode, p) \<leftarrow> getu32 p;
     p \<leftarrow> eat (CHR '','') p;
     (flags, p) \<leftarrow> getu8 p;
     p \<leftarrow> eat (CHR '','') p;
     (attrblob, p) \<leftarrow> getdata (CHR '')'') p;
     p \<leftarrow> eat (CHR '')'') p;
     Some (Call (Fs_mr_additionalattr inode flags attrblob))
   }"

definition do_append :: "string \<Rightarrow> mr_return option" where
  "do_append p = do {
     p \<leftarrow> eat (CHR ''('') p;
     (inode, p) \<leftarrow> getu32 p;
     p \<leftarrow> eat (CHR '','') p;
     (inode_src, p) \<leftarrow> getu32 p;
     (slice_from, slice_to, p) \<leftarrow>
       (if at p = CHR '')'' then Some (0xFFFFFFFF, 0, p)
        else do {
          p \<leftarrow> eat (CHR '','') p;
          (slice_from, p) \<leftarrow> getu32 p;
          p \<leftarrow> eat (CHR '','') p;
          (slice_to, p) \<leftarrow> getu32 p;
          Some (slice_from, slice_to, p)
        });
     p \<leftarrow> eat (CHR '')'') p;
     Some (Call (Fs_mr_append_slice inode inode_src slice_from slice_to))
   }"

definition do_archchg :: "string \<Rightarrow> mr_return option" where
  "do_archchg p = do {
     p \<leftarrow> eat (CHR ''('') p;
     (inode, p) \<leftarrow> getu32 p;
     p \<leftarrow> eat (CHR '','') p;
     (uid, p) \<leftarrow> getu32 p;
     p \<leftarrow> eat (CHR '','') p;
     (flags, p) \<leftarrow> getu8 p;
     p \<leftarrow> eat (CHR '')'') p;
     p \<leftarrow> eat (CHR '':'') p;
     (chgchunks, p) \<leftarrow> getu64 p;
     p \<leftarrow> eat (CHR '','') p;
     (notchgchunks, p) \<leftarrow> getu64 p;
     p \<leftarrow> eat (CHR '','') p;
     (nsinodes, p) \<leftarrow> getu32 p;
     Some (Call (Fs_mr_archchg inode uid flags chgchunks notchgchunks nsinodes))
   }"

definition do_amtime :: "string \<Rightarrow> mr_return option" where
  "do_amtime p = do {
     p \<leftarrow> eat (CHR ''('') p;
     (inode, p) \<leftarrow> getu32 p;
     p \<leftarrow> eat (CHR '','') p;
     (xatime, p) \<leftarrow> getu32 p;
     p \<leftarrow> eat (CHR '','') p;
     (xmtime, p) \<leftarrow> getu32 p;
     p \<leftarrow> eat (CHR '','') p;
     (xctime, p) \<leftarrow> getu32 p;
     p \<leftarrow> eat (CHR '')'') p;
     Some (Call (Fs_mr_amtime inode xatime xmtime xctime))
   }"

definition do_autoarch :: "string \<Rightarrow> mr_return option" where
  "do_autoarch p = do {
     p \<leftarrow> eat (CHR ''('') p;
     (inode, p) \<leftarrow> getu32 p;
     p \<leftarrow> eat (CHR '','') p;
     (archreftime, p) \<leftarrow> getu32 p;
     (format, intrash, p) \<leftarrow>
       (if at p = CHR '','' then do {
          p \<leftarrow> eat (CHR '','') p;
          (intrash, p) \<leftarrow> getu8 p;
          Some (True, intrash, p)
        } else Some (False, 1, p));
     p \<leftarrow> eat (CHR '')'') p;
     p \<leftarrow> eat (CHR '':'') p;
     (archchgchunks, p) \<leftarrow> getu32 p;
     (trashchgchunks, p) \<leftarrow>
       (if format then do {
          p \<leftarrow> eat (CHR '','') p;
          getu32 p
        } else Some (0, p));
     Some (Call (Fs_mr_autoarch inode archreftime intrash archchgchunks trashchgchunks))
   }"

definition do_attr :: "string \<Rightarrow> mr_return option" where
  "do_attr p = do {
     p \<leftarrow> eat (CHR ''('') p;
     (inode, p) \<leftarrow> getu32 p;
     p \<leftarrow> eat (CHR '','') p;
     (mode, p) \<leftarrow> getu32 p;
     p \<leftarrow> eat (CHR '','') p;
     (uid, p) \<leftarrow> getu32 p;
     p \<leftarrow> eat (CHR '','') p;
     (gid, p) \<leftarrow> getu32 p;
     p \<leftarrow> eat (CHR '','') p;
     (atime, p) \<leftarrow> getu32 p;
     p \<leftarrow> eat (CHR '','') p;
     (mtime, p) \<leftarrow> getu32 p;
     (aclmode, winattr, p) \<leftarrow>
       (if at p = CHR '','' then do {
          p \<leftarrow> eat (CHR '','') p;
          (aclmode, p) \<leftarrow> getu32 p;
          if at p = CHR '','' then do {
            p \<leftarrow> eat (CHR '','') p;
            (aclmode', p) \<leftarrow> getu32 p;
            Some (aclmode', aclmode, p)
          } else Some (aclmode, 0, p)
        } else Some (mode, 0, p));
     p \<leftarrow> eat (CHR '')'') p;
     Some (Call (Fs_mr_attr inode (ucast mode) uid gid atime mtime (ucast winattr) (ucast aclmode)))
   }"

subsection \<open>Creation and names\<close>

definition do_create :: "string \<Rightarrow> mr_return option" where
  "do_create p = do {
     p \<leftarrow> eat (CHR ''('') p;
     (parent, p) \<leftarrow> getu32 p;
     p \<leftarrow> eat (CHR '','') p;
     (name, p) \<leftarrow> getname (CHR '','') p;
     p \<leftarrow> eat (CHR '','') p;
     let rest = (\<lambda>type p. do {
       p \<leftarrow> eat (CHR '','') p;
       (mode, p) \<leftarrow> getu16 p;
       p \<leftarrow> eat (CHR '','') p;
       (cumask, p) \<leftarrow>
         (if type < 16 then do {
            (cumask, p) \<leftarrow> getu16 p;
            p \<leftarrow> eat (CHR '','') p;
            Some (cumask, p)
          } else Some (0, p));
       (uid, p) \<leftarrow> getu32 p;
       p \<leftarrow> eat (CHR '','') p;
       (gid, p) \<leftarrow> getu32 p;
       p \<leftarrow> eat (CHR '','') p;
       (rdev, p) \<leftarrow> getu32 p;
       p \<leftarrow> eat (CHR '')'') p;
       p \<leftarrow> eat (CHR '':'') p;
       (inode, p) \<leftarrow> getu32 p;
       Some (Call (Fs_mr_create parent name type mode cumask uid gid rdev inode))
     });
     if p = [] then Some (Behind (rest (of_char (at p))))
     else do {
       (type, p) \<leftarrow>
         (if 48 \<le> code (at p) \<and> code (at p) \<le> 57 then getu8 p else Some (of_char (at p), tl p));
       rest type p
     }
   }"

definition do_link :: "string \<Rightarrow> mr_return option" where
  "do_link p = do {
     p \<leftarrow> eat (CHR ''('') p;
     (inode, p) \<leftarrow> getu32 p;
     p \<leftarrow> eat (CHR '','') p;
     (parent, p) \<leftarrow> getu32 p;
     p \<leftarrow> eat (CHR '','') p;
     (name, p) \<leftarrow> getname (CHR '')'') p;
     p \<leftarrow> eat (CHR '')'') p;
     Some (Call (Fs_mr_link inode parent name))
   }"

definition do_length :: "string \<Rightarrow> mr_return option" where
  "do_length p = do {
     p \<leftarrow> eat (CHR ''('') p;
     (inode, p) \<leftarrow> getu32 p;
     p \<leftarrow> eat (CHR '','') p;
     (length, p) \<leftarrow> getu64 p;
     (canmodmtime, p) \<leftarrow>
       (if at p = CHR '','' then do {
          p \<leftarrow> eat (CHR '','') p;
          getu8 p
        } else Some (1, p));
     p \<leftarrow> eat (CHR '')'') p;
     Some (Call (Fs_mr_length inode length canmodmtime))
   }"

definition do_move :: "string \<Rightarrow> mr_return option" where
  "do_move p = do {
     p \<leftarrow> eat (CHR ''('') p;
     (parent_src, p) \<leftarrow> getu32 p;
     p \<leftarrow> eat (CHR '','') p;
     (name_src, p) \<leftarrow> getname (CHR '','') p;
     p \<leftarrow> eat (CHR '','') p;
     (parent_dst, p) \<leftarrow> getu32 p;
     p \<leftarrow> eat (CHR '','') p;
     (name_dst, rmode, p) \<leftarrow>
       (if nextseparator p = CHR '','' then do {
          (name_dst, p) \<leftarrow> getname (CHR '','') p;
          p \<leftarrow> eat (CHR '','') p;
          (rmode, p) \<leftarrow> getu8 p;
          Some (name_dst, rmode, p)
        } else do {
          (name_dst, p) \<leftarrow> getname (CHR '')'') p;
          Some (name_dst, 0, p)
        });
     p \<leftarrow> eat (CHR '')'') p;
     p \<leftarrow> eat (CHR '':'') p;
     (inode, p) \<leftarrow> getu32 p;
     Some (Call (Fs_mr_move parent_src name_src parent_dst name_dst rmode inode))
   }"

definition do_symlink :: "string \<Rightarrow> mr_return option" where
  "do_symlink p = do {
     p \<leftarrow> eat (CHR ''('') p;
     (parent, p) \<leftarrow> getu32 p;
     p \<leftarrow> eat (CHR '','') p;
     (name, p) \<leftarrow> getname (CHR '','') p;
     p \<leftarrow> eat (CHR '','') p;
     (path, p) \<leftarrow> getpath (CHR '','') p;
     p \<leftarrow> eat (CHR '','') p;
     (uid, p) \<leftarrow> getu32 p;
     p \<leftarrow> eat (CHR '','') p;
     (gid, p) \<leftarrow> getu32 p;
     p \<leftarrow> eat (CHR '')'') p;
     p \<leftarrow> eat (CHR '':'') p;
     (inode, p) \<leftarrow> getu32 p;
     Some (Call (Fs_mr_symlink parent name path uid gid inode))
   }"

definition do_unlink :: "string \<Rightarrow> mr_return option" where
  "do_unlink p = do {
     p \<leftarrow> eat (CHR ''('') p;
     (parent, p) \<leftarrow> getu32 p;
     p \<leftarrow> eat (CHR '','') p;
     (name, p) \<leftarrow> getname (CHR '')'') p;
     p \<leftarrow> eat (CHR '')'') p;
     p \<leftarrow> eat (CHR '':'') p;
     (inode, p) \<leftarrow> getu32 p;
     Some (Call (Fs_mr_unlink parent name inode))
   }"

definition do_undel :: "string \<Rightarrow> mr_return option" where
  "do_undel p = do {
     p \<leftarrow> eat (CHR ''('') p;
     (inode, p) \<leftarrow> getu32 p;
     p \<leftarrow> eat (CHR '')'') p;
     Some (Call (Fs_mr_undel inode))
   }"

definition do_purge :: "string \<Rightarrow> mr_return option" where
  "do_purge p = do {
     p \<leftarrow> eat (CHR ''('') p;
     (inode, p) \<leftarrow> getu32 p;
     p \<leftarrow> eat (CHR '')'') p;
     Some (Call (Fs_mr_purge inode))
   }"

definition do_setpath :: "string \<Rightarrow> mr_return option" where
  "do_setpath p = do {
     p \<leftarrow> eat (CHR ''('') p;
     (inode, p) \<leftarrow> getu32 p;
     p \<leftarrow> eat (CHR '','') p;
     (path, p) \<leftarrow> getpath (CHR '')'') p;
     p \<leftarrow> eat (CHR '')'') p;
     Some (Call (Fs_mr_setpath inode path))
   }"

definition do_trash_recover :: "string \<Rightarrow> mr_return option" where
  "do_trash_recover p = do {
     p \<leftarrow> eat (CHR ''('') p;
     (inode, p) \<leftarrow> getu32 p;
     p \<leftarrow> eat (CHR '','') p;
     (parent, p) \<leftarrow> getu32 p;
     p \<leftarrow> eat (CHR '','') p;
     (path, p) \<leftarrow> getpath (CHR '','') p;
     p \<leftarrow> eat (CHR '','') p;
     (cumask, p) \<leftarrow> getu16 p;
     p \<leftarrow> eat (CHR '','') p;
     (uid, p) \<leftarrow> getu32 p;
     p \<leftarrow> eat (CHR '','') p;
     (gid, p) \<leftarrow> getu32 p;
     p \<leftarrow> eat (CHR '','') p;
     (copysgid, p) \<leftarrow> getu8 p;
     p \<leftarrow> eat (CHR '')'') p;
     p \<leftarrow> eat (CHR '':'') p;
     p \<leftarrow> eat (CHR ''('') p;
     (created_path, p) \<leftarrow> getpath (CHR '')'') p;
     p \<leftarrow> eat (CHR '')'') p;
     Some (Call (Fs_mr_trash_recover inode parent path cumask uid gid copysgid created_path))
   }"

definition do_trash_remove :: "string \<Rightarrow> mr_return option" where
  "do_trash_remove p = do {
     p \<leftarrow> eat (CHR ''('') p;
     (inode, p) \<leftarrow> getu32 p;
     p \<leftarrow> eat (CHR '')'') p;
     Some (Call (Fs_mr_trash_remove inode))
   }"

subsection \<open>Chunks of files\<close>

definition do_trunc :: "string \<Rightarrow> mr_return option" where
  "do_trunc p = do {
     p \<leftarrow> eat (CHR ''('') p;
     (inode, p) \<leftarrow> getu32 p;
     p \<leftarrow> eat (CHR '','') p;
     (indx, p) \<leftarrow> getu32 p;
     p \<leftarrow> eat (CHR '')'') p;
     p \<leftarrow> eat (CHR '':'') p;
     (chunkid, p) \<leftarrow> getu64 p;
     Some (Call (Fs_mr_trunc inode indx chunkid))
   }"

definition do_write :: "string \<Rightarrow> mr_return option" where
  "do_write p = do {
     p \<leftarrow> eat (CHR ''('') p;
     (inode, p) \<leftarrow> getu32 p;
     p \<leftarrow> eat (CHR '','') p;
     (indx, p) \<leftarrow> getu32 p;
     (opflag, p) \<leftarrow> (if at p = CHR '','' then do { p \<leftarrow> eat (CHR '','') p; getu32 p } else Some (1, p));
     (canmodmtime, p) \<leftarrow> (if at p = CHR '','' then do { p \<leftarrow> eat (CHR '','') p; getu8 p } else Some (1, p));
     p \<leftarrow> eat (CHR '')'') p;
     p \<leftarrow> eat (CHR '':'') p;
     (chunkid, p) \<leftarrow> getu64 p;
     Some (Call (Fs_mr_write inode indx (ucast opflag) canmodmtime chunkid))
   }"

definition do_rollback :: "string \<Rightarrow> mr_return option" where
  "do_rollback p = do {
     p \<leftarrow> eat (CHR ''('') p;
     (inode, p) \<leftarrow> getu32 p;
     p \<leftarrow> eat (CHR '','') p;
     (indx, p) \<leftarrow> getu32 p;
     p \<leftarrow> eat (CHR '','') p;
     (prevchunkid, p) \<leftarrow> getu64 p;
     p \<leftarrow> eat (CHR '','') p;
     (chunkid, p) \<leftarrow> getu64 p;
     p \<leftarrow> eat (CHR '')'') p;
     Some (Call (Fs_mr_rollback inode indx prevchunkid chunkid))
   }"

definition do_unlock :: "string \<Rightarrow> mr_return option" where
  "do_unlock p = do {
     p \<leftarrow> eat (CHR ''('') p;
     (chunkid, p) \<leftarrow> getu64 p;
     p \<leftarrow> eat (CHR '')'') p;
     Some (Call (Fs_mr_unlock chunkid))
   }"

definition do_repair :: "string \<Rightarrow> mr_return option" where
  "do_repair p = do {
     p \<leftarrow> eat (CHR ''('') p;
     (inode, p) \<leftarrow> getu32 p;
     p \<leftarrow> eat (CHR '','') p;
     (indx, p) \<leftarrow> getu32 p;
     p \<leftarrow> eat (CHR '')'') p;
     p \<leftarrow> eat (CHR '':'') p;
     (version, p) \<leftarrow> getu32 p;
     Some (Call (Fs_mr_repair inode indx version))
   }"

definition do_setfilechunk :: "string \<Rightarrow> mr_return option" where
  "do_setfilechunk p = do {
     p \<leftarrow> eat (CHR ''('') p;
     (inode, p) \<leftarrow> getu32 p;
     p \<leftarrow> eat (CHR '','') p;
     (indx, p) \<leftarrow> getu32 p;
     p \<leftarrow> eat (CHR '','') p;
     (chunkid, p) \<leftarrow> getu64 p;
     p \<leftarrow> eat (CHR '')'') p;
     Some (Call (Fs_mr_set_file_chunk inode indx chunkid))
   }"

subsection \<open>Maintenance\<close>

definition do_emptytrash :: "string \<Rightarrow> mr_return option" where
  "do_emptytrash p = do {
     p \<leftarrow> eat (CHR ''('') p;
     (bid, p) \<leftarrow> (if at p \<noteq> CHR '')'' then getu32 p else Some (0xFFFFFFFF, p));
     p \<leftarrow> eat (CHR '')'') p;
     p \<leftarrow> eat (CHR '':'') p;
     (freeinodes, p) \<leftarrow> getu32 p;
     p \<leftarrow> eat (CHR '','') p;
     (sustainedinodes, p) \<leftarrow> getu32 p;
     (trashflaginodes, inode_chksum) \<leftarrow>
       (if at p = CHR '','' then do {
          p \<leftarrow> eat (CHR '','') p;
          (inode_chksum, p) \<leftarrow> getu32 p;
          if at p = CHR '','' then do {
            p \<leftarrow> eat (CHR '','') p;
            (inode_chksum', p) \<leftarrow> getu32 p;
            Some (inode_chksum, inode_chksum')
          } else Some (0xFFFFFFFF, inode_chksum)
        } else Some (0xFFFFFFFF, 0));
     Some (Call (Fs_mr_emptytrash bid freeinodes sustainedinodes trashflaginodes inode_chksum))
   }"

definition do_emptysustained :: "string \<Rightarrow> mr_return option" where
  "do_emptysustained p = do {
     p \<leftarrow> eat (CHR ''('') p;
     (bid, p) \<leftarrow> (if at p \<noteq> CHR '')'' then getu32 p else Some (0xFFFFFFFF, p));
     p \<leftarrow> eat (CHR '')'') p;
     p \<leftarrow> eat (CHR '':'') p;
     (freeinodes, p) \<leftarrow> getu32 p;
     (inode_chksum, p) \<leftarrow> (if at p = CHR '','' then do { p \<leftarrow> eat (CHR '','') p; getu32 p } else Some (0, p));
     Some (Call (Fs_mr_emptysustained bid freeinodes inode_chksum))
   }"

definition do_freeinodes :: "string \<Rightarrow> mr_return option" where
  "do_freeinodes p = do {
     p \<leftarrow> eat (CHR ''('') p;
     (inodereusedelay, p) \<leftarrow> (if at p = CHR '')'' then Some (86400, p) else getu32 p);
     p \<leftarrow> eat (CHR '')'') p;
     p \<leftarrow> eat (CHR '':'') p;
     (freeinodes, p) \<leftarrow> getu32 p;
     (sustainedinodes, p) \<leftarrow> (if at p = CHR '','' then do { p \<leftarrow> eat (CHR '','') p; getu32 p } else Some (0, p));
     (inode_chksum, p) \<leftarrow> (if at p = CHR '','' then do { p \<leftarrow> eat (CHR '','') p; getu32 p } else Some (0, p));
     Some (Call (Fs_mr_freeinodes inodereusedelay freeinodes sustainedinodes inode_chksum))
   }"

definition do_renumedges :: "string \<Rightarrow> mr_return option" where
  "do_renumedges p = do {
     p \<leftarrow> eat (CHR ''('') p;
     p \<leftarrow> eat (CHR '')'') p;
     p \<leftarrow> eat (CHR '':'') p;
     (enextedgeid, p) \<leftarrow> getu64 p;
     Some (Call (Fs_mr_renumerate_edges enextedgeid))
   }"

definition do_quota :: "string \<Rightarrow> mr_return option" where
  "do_quota p = do {
     p \<leftarrow> eat (CHR ''('') p;
     (inode, p) \<leftarrow> getu32 p;
     p \<leftarrow> eat (CHR '','') p;
     (exceeded, p) \<leftarrow> getu32 p;
     p \<leftarrow> eat (CHR '','') p;
     (flags, p) \<leftarrow> getu32 p;
     p \<leftarrow> eat (CHR '','') p;
     (stimestamp, p) \<leftarrow> getu32 p;
     p \<leftarrow> eat (CHR '','') p;
     (sinodes, p) \<leftarrow> getu32 p;
     p \<leftarrow> eat (CHR '','') p;
     (hinodes, p) \<leftarrow> getu32 p;
     p \<leftarrow> eat (CHR '','') p;
     (slength, p) \<leftarrow> getu64 p;
     p \<leftarrow> eat (CHR '','') p;
     (hlength, p) \<leftarrow> getu64 p;
     p \<leftarrow> eat (CHR '','') p;
     (ssize, p) \<leftarrow> getu64 p;
     p \<leftarrow> eat (CHR '','') p;
     (hsize, p) \<leftarrow> getu64 p;
     p \<leftarrow> eat (CHR '','') p;
     (srealsize, p) \<leftarrow> getu64 p;
     p \<leftarrow> eat (CHR '','') p;
     (hrealsize, p) \<leftarrow> getu64 p;
     (timelimit, p) \<leftarrow> (if at p = CHR '','' then do { p \<leftarrow> eat (CHR '','') p; getu32 p } else Some (0, p));
     p \<leftarrow> eat (CHR '')'') p;
     Some (Call (Fs_mr_quota inode (ucast exceeded) (ucast flags) stimestamp sinodes hinodes slength hlength
       ssize hsize srealsize hrealsize timelimit))
   }"

subsection \<open>Settings of files\<close>

definition do_seteattr :: "string \<Rightarrow> mr_return option" where
  "do_seteattr p = do {
     p \<leftarrow> eat (CHR ''('') p;
     (inode, p) \<leftarrow> getu32 p;
     p \<leftarrow> eat (CHR '','') p;
     (uid, p) \<leftarrow> getu32 p;
     p \<leftarrow> eat (CHR '','') p;
     (eattr, p) \<leftarrow> getu32 p;
     p \<leftarrow> eat (CHR '','') p;
     (smode, p) \<leftarrow> getu32 p;
     p \<leftarrow> eat (CHR '')'') p;
     p \<leftarrow> eat (CHR '':'') p;
     (ci, p) \<leftarrow> getu32 p;
     p \<leftarrow> eat (CHR '','') p;
     (nci, p) \<leftarrow> getu32 p;
     p \<leftarrow> eat (CHR '','') p;
     (npi, p) \<leftarrow> getu32 p;
     Some (Call (Fs_mr_seteattr inode uid (ucast eattr) (ucast smode) ci nci npi))
   }"

definition do_setgoal :: "string \<Rightarrow> mr_return option" where
  "do_setgoal p = do {
     p \<leftarrow> eat (CHR ''('') p;
     (inode, p) \<leftarrow> getu32 p;
     p \<leftarrow> eat (CHR '','') p;
     (uid, p) \<leftarrow> getu32 p;
     p \<leftarrow> eat (CHR '','') p;
     (sclassid, p) \<leftarrow> getu32 p;
     p \<leftarrow> eat (CHR '','') p;
     (smode, p) \<leftarrow> getu32 p;
     p \<leftarrow> eat (CHR '')'') p;
     p \<leftarrow> eat (CHR '':'') p;
     (ci, p) \<leftarrow> getu32 p;
     p \<leftarrow> eat (CHR '','') p;
     (nci, p) \<leftarrow> getu32 p;
     p \<leftarrow> eat (CHR '','') p;
     (npi, p) \<leftarrow> getu32 p;
     Some (Call (Fs_mr_setsclass inode uid (ucast sclassid) (ucast sclassid) (ucast smode) ci nci npi))
   }"

definition do_setsclass :: "string \<Rightarrow> mr_return option" where
  "do_setsclass p = do {
     p \<leftarrow> eat (CHR ''('') p;
     (inode, p) \<leftarrow> getu32 p;
     p \<leftarrow> eat (CHR '','') p;
     (uid, p) \<leftarrow> getu32 p;
     p \<leftarrow> eat (CHR '','') p;
     (src_sclassid, p) \<leftarrow> getu32 p;
     p \<leftarrow> eat (CHR '','') p;
     (dst_sclassid, p) \<leftarrow> getu32 p;
     p \<leftarrow> eat (CHR '','') p;
     (smode, p) \<leftarrow> getu32 p;
     p \<leftarrow> eat (CHR '')'') p;
     p \<leftarrow> eat (CHR '':'') p;
     (ci, p) \<leftarrow> getu32 p;
     p \<leftarrow> eat (CHR '','') p;
     (nci, p) \<leftarrow> getu32 p;
     p \<leftarrow> eat (CHR '','') p;
     (npi, p) \<leftarrow> getu32 p;
     Some (Call (Fs_mr_setsclass inode uid (ucast src_sclassid) (ucast dst_sclassid) (ucast smode) ci nci npi))
   }"

definition do_settrashretention :: "string \<Rightarrow> mr_return option" where
  "do_settrashretention p = do {
     p \<leftarrow> eat (CHR ''('') p;
     (inode, p) \<leftarrow> getu32 p;
     p \<leftarrow> eat (CHR '','') p;
     (uid, p) \<leftarrow> getu32 p;
     p \<leftarrow> eat (CHR '','') p;
     (trashretention, p) \<leftarrow> getu32 p;
     p \<leftarrow> eat (CHR '','') p;
     (smode, p) \<leftarrow> getu32 p;
     p \<leftarrow> eat (CHR '')'') p;
     p \<leftarrow> eat (CHR '':'') p;
     (ci, p) \<leftarrow> getu32 p;
     p \<leftarrow> eat (CHR '','') p;
     (nci, p) \<leftarrow> getu32 p;
     p \<leftarrow> eat (CHR '','') p;
     (npi, p) \<leftarrow> getu32 p;
     Some (Call (Fs_mr_settrashretention inode uid trashretention (ucast smode) ci nci npi))
   }"

definition do_setxattr :: "string \<Rightarrow> mr_return option" where
  "do_setxattr p = do {
     p \<leftarrow> eat (CHR ''('') p;
     (inode, p) \<leftarrow> getu32 p;
     p \<leftarrow> eat (CHR '','') p;
     (name, p) \<leftarrow> getname (CHR '','') p;
     p \<leftarrow> eat (CHR '','') p;
     (value, p) \<leftarrow> getdata (CHR '','') p;
     p \<leftarrow> eat (CHR '','') p;
     (mode, p) \<leftarrow> getu32 p;
     p \<leftarrow> eat (CHR '')'') p;
     Some (Call (Fs_mr_setxattr inode name value mode))
   }"

definition do_setacl :: "string \<Rightarrow> mr_return option" where
  "do_setacl p = do {
     p \<leftarrow> eat (CHR ''('') p;
     (inode, p) \<leftarrow> getu32 p;
     p \<leftarrow> eat (CHR '','') p;
     (mode, p) \<leftarrow> getu16 p;
     p \<leftarrow> eat (CHR '','') p;
     (changectime, p) \<leftarrow> getu8 p;
     p \<leftarrow> eat (CHR '','') p;
     (acltype, p) \<leftarrow> getu8 p;
     p \<leftarrow> eat (CHR '','') p;
     (userperm, p) \<leftarrow> getu16 p;
     p \<leftarrow> eat (CHR '','') p;
     (groupperm, p) \<leftarrow> getu16 p;
     p \<leftarrow> eat (CHR '','') p;
     (otherperm, p) \<leftarrow> getu16 p;
     p \<leftarrow> eat (CHR '','') p;
     (mask', p) \<leftarrow> getu16 p;
     p \<leftarrow> eat (CHR '','') p;
     (namedusers, p) \<leftarrow> getu16 p;
     p \<leftarrow> eat (CHR '','') p;
     (namedgroups, p) \<leftarrow> getu16 p;
     p \<leftarrow> eat (CHR '','') p;
     (aclblob, p) \<leftarrow> getdata (CHR '')'') p;
     p \<leftarrow> eat (CHR '')'') p;
     if length aclblob \<noteq> 6 * (unat namedusers + unat namedgroups) then Some (Return MFS_ERROR_MISMATCH)
     else Some (Call (Fs_mr_setacl inode mode changectime acltype userperm groupperm otherperm mask' namedusers
       namedgroups aclblob))
   }"

text \<open>
  The groups of a snapshot: an array in brackets, or in older lines their number followed by their memory
  image, or a single group. \<open>big\<close> is the byte order of the machine that reads the image.
\<close>

fun gids_of_memory :: "bool \<Rightarrow> string \<Rightarrow> u32 list" where
  "gids_of_memory big (a # b # c # d # s) = mem_value big [of_char a, of_char b, of_char c, of_char d] # gids_of_memory big s"
| "gids_of_memory big _ = []"

definition snapshot_counters :: "string \<Rightarrow> (u32 \<times> u32 \<times> u32 \<times> u32 \<times> u32 \<times> u32) option" where
  "snapshot_counters p =
     (if at p = CHR '':'' then do {
        p \<leftarrow> eat (CHR '':'') p;
        (inodecheck, p) \<leftarrow> getu32 p;
        p \<leftarrow> eat (CHR '','') p;
        (removed, p) \<leftarrow> getu32 p;
        p \<leftarrow> eat (CHR '','') p;
        (same, p) \<leftarrow> getu32 p;
        p \<leftarrow> eat (CHR '','') p;
        (existing, p) \<leftarrow> getu32 p;
        p \<leftarrow> eat (CHR '','') p;
        (hardlinks, p) \<leftarrow> getu32 p;
        p \<leftarrow> eat (CHR '','') p;
        (new, p) \<leftarrow> getu32 p;
        Some (inodecheck, removed, same, existing, hardlinks, new)
      } else Some (0, 0, 0, 0, 0, 0))"

definition do_snapshot :: "bool \<Rightarrow> string \<Rightarrow> mr_return option" where
  "do_snapshot big p = do {
     p \<leftarrow> eat (CHR ''('') p;
     (inode, p) \<leftarrow> getu32 p;
     p \<leftarrow> eat (CHR '','') p;
     (parent, p) \<leftarrow> getu32 p;
     p \<leftarrow> eat (CHR '','') p;
     (name, p) \<leftarrow> getname (CHR '','') p;
     p \<leftarrow> eat (CHR '','') p;
     (smode, p) \<leftarrow> getu32 p;
     p \<leftarrow> eat (CHR '','') p;
     (sesflags, p) \<leftarrow> getu32 p;
     p \<leftarrow> eat (CHR '','') p;
     (uid, p) \<leftarrow> getu32 p;
     p \<leftarrow> eat (CHR '','') p;
     if at p = CHR ''['' then do {
       (gidtab, p) \<leftarrow> getarrayu32 p;
       p \<leftarrow> eat (CHR '','') p;
       (umask, p) \<leftarrow> getu32 p;
       p \<leftarrow> eat (CHR '')'') p;
       (inodecheck, removed, same, existing, hardlinks, new) \<leftarrow> snapshot_counters p;
       Some (Call (Fs_mr_snapshot inode parent name (ucast smode) (ucast sesflags) uid gidtab (ucast umask)
         inodecheck removed same existing hardlinks new))
     } else do {
       (gids, p) \<leftarrow> getu32 p;
       p \<leftarrow> eat (CHR '','') p;
       if (\<exists>c\<in>set (takeWhile (\<lambda>c. c \<noteq> CHR '')'') p). \<not> (48 \<le> code c \<and> code c \<le> 57)) then do {
         (gidstr, p) \<leftarrow> getdata (CHR '','') p;
         if gids * 4 \<noteq> of_nat (length gidstr) then Some (Return MFS_ERROR_MISMATCH)
         else do {
           p \<leftarrow> eat (CHR '','') p;
           (umask, p) \<leftarrow> getu32 p;
           p \<leftarrow> eat (CHR '')'') p;
           (inodecheck, removed, same, existing, hardlinks, new) \<leftarrow> snapshot_counters p;
           Some (Call (Fs_mr_snapshot inode parent name (ucast smode) (ucast sesflags) uid (gids_of_memory big gidstr)
             (ucast umask) inodecheck removed same existing hardlinks new))
         }
       } else do {
         (umask, p) \<leftarrow> getu32 p;
         p \<leftarrow> eat (CHR '')'') p;
         Some (Call (Fs_mr_snapshot inode parent name (ucast smode) (ucast sesflags) uid [gids] (ucast umask) 0 0 0 0 0 0))
       }
     }
   }"

subsection \<open>Chunks\<close>

definition do_chunkadd :: "string \<Rightarrow> mr_return option" where
  "do_chunkadd p = do {
     p \<leftarrow> eat (CHR ''('') p;
     (chunkid, p) \<leftarrow> getu64 p;
     p \<leftarrow> eat (CHR '','') p;
     (version, p) \<leftarrow> getu32 p;
     p \<leftarrow> eat (CHR '','') p;
     (lockedto, p) \<leftarrow> getu32 p;
     p \<leftarrow> eat (CHR '')'') p;
     Some (Call (Chunk_mr_chunkadd chunkid version lockedto))
   }"

definition do_chunkdel :: "string \<Rightarrow> mr_return option" where
  "do_chunkdel p = do {
     p \<leftarrow> eat (CHR ''('') p;
     (chunkid, p) \<leftarrow> getu64 p;
     p \<leftarrow> eat (CHR '','') p;
     (version, p) \<leftarrow> getu32 p;
     p \<leftarrow> eat (CHR '')'') p;
     Some (Call (Chunk_mr_chunkdel chunkid version))
   }"

definition do_chunkflagsclr :: "string \<Rightarrow> mr_return option" where
  "do_chunkflagsclr p = do {
     p \<leftarrow> eat (CHR ''('') p;
     (chunkid, p) \<leftarrow> getu64 p;
     p \<leftarrow> eat (CHR '')'') p;
     Some (Call (Chunk_mr_flagsclr chunkid))
   }"

definition do_incversion :: "string \<Rightarrow> mr_return option" where
  "do_incversion p = do {
     p \<leftarrow> eat (CHR ''('') p;
     (chunkid, p) \<leftarrow> getu64 p;
     p \<leftarrow> eat (CHR '')'') p;
     Some (Call (Chunk_mr_increase_version chunkid))
   }"

definition do_setversion :: "string \<Rightarrow> mr_return option" where
  "do_setversion p = do {
     p \<leftarrow> eat (CHR ''('') p;
     (chunkid, p) \<leftarrow> getu64 p;
     p \<leftarrow> eat (CHR '','') p;
     (version, p) \<leftarrow> getu32 p;
     p \<leftarrow> eat (CHR '')'') p;
     Some (Call (Chunk_mr_set_version chunkid version))
   }"

definition do_nextchunkid :: "string \<Rightarrow> mr_return option" where
  "do_nextchunkid p = do {
     p \<leftarrow> eat (CHR ''('') p;
     (chunkid, p) \<leftarrow> getu64 p;
     p \<leftarrow> eat (CHR '')'') p;
     Some (Call (Chunk_mr_nextchunkid chunkid))
   }"

subsection \<open>Chunkservers, patterns and metadata id\<close>

definition do_csdbop :: "string \<Rightarrow> mr_return option" where
  "do_csdbop p = do {
     p \<leftarrow> eat (CHR ''('') p;
     (op, p) \<leftarrow> getu8 p;
     p \<leftarrow> eat (CHR '','') p;
     (ip, p) \<leftarrow> getu32 p;
     p \<leftarrow> eat (CHR '','') p;
     (port, p) \<leftarrow> getu16 p;
     p \<leftarrow> eat (CHR '','') p;
     (arg, p) \<leftarrow> getu32 p;
     p \<leftarrow> eat (CHR '')'') p;
     Some (Call (Csdb_mr_op op ip port arg))
   }"

definition do_csadd :: "string \<Rightarrow> mr_return option" where
  "do_csadd p = do {
     p \<leftarrow> eat (CHR ''('') p;
     (ip, p) \<leftarrow> getu32 p;
     p \<leftarrow> eat (CHR '','') p;
     (port, p) \<leftarrow> getu32 p;
     p \<leftarrow> eat (CHR '')'') p;
     Some (Call (Csdb_mr_op 0 ip (ucast port) 0))
   }"

definition do_csdel :: "string \<Rightarrow> mr_return option" where
  "do_csdel p = do {
     p \<leftarrow> eat (CHR ''('') p;
     (ip, p) \<leftarrow> getu32 p;
     p \<leftarrow> eat (CHR '','') p;
     (port, p) \<leftarrow> getu32 p;
     p \<leftarrow> eat (CHR '')'') p;
     Some (Call (Csdb_mr_op 1 ip (ucast port) 0))
   }"

definition do_patadd :: "string \<Rightarrow> mr_return option" where
  "do_patadd p = do {
     p \<leftarrow> eat (CHR ''('') p;
     (gname, p) \<leftarrow> getname (CHR '','') p;
     p \<leftarrow> eat (CHR '','') p;
     (euid, p) \<leftarrow> getu32 p;
     p \<leftarrow> eat (CHR '','') p;
     (egid, p) \<leftarrow> getu32 p;
     p \<leftarrow> eat (CHR '','') p;
     (priority, p) \<leftarrow> getu8 p;
     p \<leftarrow> eat (CHR '','') p;
     (omask, p) \<leftarrow> getu8 p;
     p \<leftarrow> eat (CHR '','') p;
     (scid, p) \<leftarrow> getu8 p;
     p \<leftarrow> eat (CHR '','') p;
     (trashretention, p) \<leftarrow> getu16 p;
     p \<leftarrow> eat (CHR '','') p;
     (seteattr, p) \<leftarrow> getu8 p;
     (clreattr, p) \<leftarrow> (if at p = CHR '','' then do { p \<leftarrow> eat (CHR '','') p; getu8 p } else Some (0, p));
     p \<leftarrow> eat (CHR '')'') p;
     Some (Call (Patterns_mr_add gname euid egid priority omask scid trashretention seteattr clreattr))
   }"

definition do_patdel :: "string \<Rightarrow> mr_return option" where
  "do_patdel p = do {
     p \<leftarrow> eat (CHR ''('') p;
     (gname, p) \<leftarrow> getname (CHR '','') p;
     p \<leftarrow> eat (CHR '','') p;
     (euid, p) \<leftarrow> getu32 p;
     p \<leftarrow> eat (CHR '','') p;
     (egid, p) \<leftarrow> getu32 p;
     p \<leftarrow> eat (CHR '')'') p;
     Some (Call (Patterns_mr_delete gname euid egid))
   }"

definition do_setmetaid :: "string \<Rightarrow> mr_return option" where
  "do_setmetaid p = do {
     p \<leftarrow> eat (CHR ''('') p;
     (metaid, p) \<leftarrow> getu64 p;
     p \<leftarrow> eat (CHR '')'') p;
     Some (Call (Meta_mr_setmetaid metaid))
   }"

subsection \<open>Locks\<close>

text \<open>The variables have the names of the source; the first number of the line is the session.\<close>

definition do_acquire :: "string \<Rightarrow> mr_return option" where
  "do_acquire p = do {
     p \<leftarrow> eat (CHR ''('') p;
     (inode, p) \<leftarrow> getu32 p;
     p \<leftarrow> eat (CHR '','') p;
     (cuid, p) \<leftarrow> getu32 p;
     p \<leftarrow> eat (CHR '')'') p;
     Some (Call (Lock_mr (ACQUIRE inode cuid)))
   }"

definition do_release :: "string \<Rightarrow> mr_return option" where
  "do_release p = do {
     p \<leftarrow> eat (CHR ''('') p;
     (inode, p) \<leftarrow> getu32 p;
     p \<leftarrow> eat (CHR '','') p;
     (cuid, p) \<leftarrow> getu32 p;
     p \<leftarrow> eat (CHR '')'') p;
     Some (Call (Lock_mr (RELEASE inode cuid)))
   }"

definition do_flock :: "string \<Rightarrow> mr_return option" where
  "do_flock p = do {
     p \<leftarrow> eat (CHR ''('') p;
     (inode, p) \<leftarrow> getu32 p;
     p \<leftarrow> eat (CHR '','') p;
     (sessionid, p) \<leftarrow> getu32 p;
     p \<leftarrow> eat (CHR '','') p;
     (owner, p) \<leftarrow> getu64 p;
     p \<leftarrow> eat (CHR '','') p;
     let cmd = at p;
     let rest = (\<lambda>p. do {
       p \<leftarrow> eat (CHR '')'') p;
       Some (Call (Lock_mr (FLOCK inode sessionid owner cmd)))
     });
     if p = [] then Some (Behind rest) else rest (tl p)
   }"

definition do_posixlock :: "string \<Rightarrow> mr_return option" where
  "do_posixlock p = do {
     p \<leftarrow> eat (CHR ''('') p;
     (inode, p) \<leftarrow> getu32 p;
     p \<leftarrow> eat (CHR '','') p;
     (sessionid, p) \<leftarrow> getu32 p;
     p \<leftarrow> eat (CHR '','') p;
     (owner, p) \<leftarrow> getu64 p;
     p \<leftarrow> eat (CHR '','') p;
     let cmd = at p;
     let rest = (\<lambda>p. do {
       p \<leftarrow> eat (CHR '','') p;
       (start, p) \<leftarrow> getu64 p;
       p \<leftarrow> eat (CHR '','') p;
       (end, p) \<leftarrow> getu64 p;
       p \<leftarrow> eat (CHR '','') p;
       (pid, p) \<leftarrow> getu32 p;
       p \<leftarrow> eat (CHR '')'') p;
       Some (Call (Lock_mr (POSIXLOCK inode sessionid owner cmd start end pid)))
     });
     if p = [] then Some (Behind rest) else rest (tl p)
   }"

subsection \<open>Sessions\<close>

definition do_session :: "string \<Rightarrow> mr_return option" where
  "do_session p = do {
     p \<leftarrow> eat (CHR ''('') p;
     p \<leftarrow> eat (CHR '')'') p;
     p \<leftarrow> eat (CHR '':'') p;
     (sessionid, p) \<leftarrow> getu32 p;
     Some (Call (Sessions_mr_session sessionid))
   }"

text \<open>
  The part that the lines of new and of changed sessions share. Older lines give a range of goals instead of
  a mask of storage class groups; a shift by more than the width of an \<^verbatim>\<open>int\<close> is undefined.
\<close>

definition goal_groups :: "u32 \<Rightarrow> u32 \<Rightarrow> u32 option" where
  "goal_groups mingoal maxgoal =
     (if mingoal \<le> maxgoal \<and> maxgoal \<ge> 32 then None
      else Some (fold (\<lambda>g m. m OR push_bit g 1) [unat mingoal..<Suc (unat maxgoal)] 1))"

definition ses_umask :: "string \<Rightarrow> (u16 \<times> string) option" where
  "ses_umask p =
     (if at p = CHR ''0'' then
        (if \<exists>c\<in>set [at (drop 1 p), at (drop 2 p), at (drop 3 p)]. code c < 48 \<or> code c > 55 then None
         else do {
           let umaskval = of_nat ((code (at (drop 1 p)) - 48) * 64 + (code (at (drop 2 p)) - 48) * 8 + (code (at (drop 3 p)) - 48));
           p \<leftarrow> eat (CHR '','') (drop 4 p);
           Some (umaskval, p)
         })
      else Some (0, p))"

definition ses_groups :: "string \<Rightarrow> (u32 option \<times> string) option" where
  "ses_groups p =
     (if at p = CHR ''0'' \<and> at (tl p) = CHR ''x'' then do {
        (sclassgroups, p) \<leftarrow> getx32 (drop 2 p);
        if sclassgroups > 0xFFFF then None else Some (Some sclassgroups, p)
      } else do {
        (mingoal, p) \<leftarrow> getu32 p;
        p \<leftarrow> eat (CHR '','') p;
        (maxgoal, p) \<leftarrow> getu32 p;
        Some (goal_groups mingoal maxgoal, p)
      })"

definition ses_disables :: "string \<Rightarrow> (u32 \<times> string) option" where
  "ses_disables p =
     (if at p = CHR ''0'' \<and> at (tl p) = CHR ''x'' then do {
        (disables, p) \<leftarrow> getx32 (drop 2 p);
        p \<leftarrow> eat (CHR '','') p;
        Some (disables, p)
      } else Some (0, p))"

definition ses_csum :: "string \<Rightarrow> (u64 \<times> string) option" where
  "ses_csum p =
     (if at p = CHR ''#'' then do {
        p \<leftarrow> eat (CHR ''#'') p;
        (exportscsum, p) \<leftarrow> getu64 p;
        p \<leftarrow> eat (CHR '','') p;
        Some (exportscsum, p)
      } else Some (0, p))"

definition ses_fields :: "string \<Rightarrow> (session_args \<Rightarrow> string \<Rightarrow> mr_return option) \<Rightarrow> mr_return option" where
  "ses_fields p call = do {
     (exportscsum, p) \<leftarrow> ses_csum p;
     (rootinode, p) \<leftarrow> getu32 p;
     p \<leftarrow> eat (CHR '','') p;
     (sesflags, p) \<leftarrow> getu32 p;
     p \<leftarrow> eat (CHR '','') p;
     (umaskval, p) \<leftarrow> ses_umask p;
     (rootuid, p) \<leftarrow> getu32 p;
     p \<leftarrow> eat (CHR '','') p;
     (rootgid, p) \<leftarrow> getu32 p;
     p \<leftarrow> eat (CHR '','') p;
     (mapalluid, p) \<leftarrow> getu32 p;
     p \<leftarrow> eat (CHR '','') p;
     (mapallgid, p) \<leftarrow> getu32 p;
     p \<leftarrow> eat (CHR '','') p;
     (groups, p) \<leftarrow> ses_groups p;
     case groups of
       None \<Rightarrow> Some Undefined
     | Some sclassgroups \<Rightarrow> do {
         p \<leftarrow> eat (CHR '','') p;
         (mintrashretention, p) \<leftarrow> getu32 p;
         p \<leftarrow> eat (CHR '','') p;
         (maxtrashretention, p) \<leftarrow> getu32 p;
         p \<leftarrow> eat (CHR '','') p;
         (disables, p) \<leftarrow> ses_disables p;
         (peerip, p) \<leftarrow> getu32 p;
         p \<leftarrow> eat (CHR '','') p;
         (info, p) \<leftarrow> getdata (CHR '')'') p;
         call \<lparr>sa_exportscsum = exportscsum, sa_rootinode = rootinode, sa_sesflags = ucast sesflags,
           sa_umask = umaskval, sa_rootuid = rootuid, sa_rootgid = rootgid, sa_mapalluid = mapalluid,
           sa_mapallgid = mapallgid, sa_sclassgroups = ucast sclassgroups, sa_mintrashretention = mintrashretention,
           sa_maxtrashretention = maxtrashretention, sa_disables = disables, sa_peerip = peerip, sa_info = info\<rparr> p
       }
   }"

definition do_sesadd :: "string \<Rightarrow> mr_return option" where
  "do_sesadd p = do {
     p \<leftarrow> eat (CHR ''('') p;
     ses_fields p (\<lambda>args p. do {
       p \<leftarrow> eat (CHR '')'') p;
       p \<leftarrow> eat (CHR '':'') p;
       (sessionid, p) \<leftarrow> getu32 p;
       Some (Call (Sessions_mr_sesadd args sessionid))
     })
   }"

definition do_seschanged :: "string \<Rightarrow> mr_return option" where
  "do_seschanged p = do {
     p \<leftarrow> eat (CHR ''('') p;
     (sessionid, p) \<leftarrow> getu32 p;
     p \<leftarrow> eat (CHR '','') p;
     ses_fields p (\<lambda>args p. do {
       p \<leftarrow> eat (CHR '')'') p;
       Some (Call (Sessions_mr_seschanged sessionid args))
     })
   }"

definition do_sesdel :: "string \<Rightarrow> mr_return option" where
  "do_sesdel p = do {
     p \<leftarrow> eat (CHR ''('') p;
     (sessionid, p) \<leftarrow> getu32 p;
     p \<leftarrow> eat (CHR '')'') p;
     Some (Call (Sessions_mr_sesdel sessionid))
   }"

definition do_sesconnected :: "string \<Rightarrow> mr_return option" where
  "do_sesconnected p = do {
     p \<leftarrow> eat (CHR ''('') p;
     (sessionid, p) \<leftarrow> getu32 p;
     p \<leftarrow> eat (CHR '')'') p;
     Some (Call (Sessions_mr_connected sessionid))
   }"

definition do_sesdisconnected :: "string \<Rightarrow> mr_return option" where
  "do_sesdisconnected p = do {
     p \<leftarrow> eat (CHR ''('') p;
     (sessionid, p) \<leftarrow> getu32 p;
     p \<leftarrow> eat (CHR '')'') p;
     Some (Call (Sessions_mr_disconnected sessionid))
   }"

subsection \<open>Storage classes\<close>

definition do_scecon :: "string \<Rightarrow> mr_return option" where
  "do_scecon p = do {
     p \<leftarrow> eat (CHR ''('') p;
     p \<leftarrow> eat (CHR '')'') p;
     Some (Call (Sclass_mr_ec_version 1))
   }"

definition do_scecversion :: "string \<Rightarrow> mr_return option" where
  "do_scecversion p = do {
     p \<leftarrow> eat (CHR ''('') p;
     (ec_new_version, p) \<leftarrow> getu8 p;
     p \<leftarrow> eat (CHR '')'') p;
     Some (Call (Sclass_mr_ec_version ec_new_version))
   }"

definition do_scdel :: "string \<Rightarrow> mr_return option" where
  "do_scdel p = do {
     p \<leftarrow> eat (CHR ''('') p;
     (name, p) \<leftarrow> getname (CHR '')'') p;
     p \<leftarrow> eat (CHR '')'') p;
     p \<leftarrow> eat (CHR '':'') p;
     (spid, p) \<leftarrow> getu16 p;
     Some (Call (Sclass_mr_delete_entry name spid))
   }"

definition do_scdup :: "string \<Rightarrow> mr_return option" where
  "do_scdup p = do {
     p \<leftarrow> eat (CHR ''('') p;
     (sname, p) \<leftarrow> getname (CHR '','') p;
     p \<leftarrow> eat (CHR '','') p;
     (dname, p) \<leftarrow> getname (CHR '')'') p;
     p \<leftarrow> eat (CHR '')'') p;
     p \<leftarrow> eat (CHR '':'') p;
     (sspid, p) \<leftarrow> getu16 p;
     p \<leftarrow> eat (CHR '','') p;
     (dspid, p) \<leftarrow> getu16 p;
     Some (Call (Sclass_mr_duplicate_entry sname dname sspid dspid))
   }"

definition do_scren :: "string \<Rightarrow> mr_return option" where
  "do_scren p = do {
     p \<leftarrow> eat (CHR ''('') p;
     (sname, p) \<leftarrow> getname (CHR '','') p;
     p \<leftarrow> eat (CHR '','') p;
     (dname, p) \<leftarrow> getname (CHR '')'') p;
     p \<leftarrow> eat (CHR '')'') p;
     p \<leftarrow> eat (CHR '':'') p;
     (spid, p) \<leftarrow> getu16 p;
     Some (Call (Sclass_mr_rename_entry sname dname spid))
   }"

text \<open>
  The label expressions of a storage mode: rows of \<^verbatim>\<open>SCLASS_EXPR_MAX_SIZE\<close> bytes, zero behind the
  expression. Older lines have masks of labels, which \<^verbatim>\<open>sclass_maskorgroup_to_labelexpr\<close> converts.
\<close>

definition expr_row :: "string \<Rightarrow> string" where
  "expr_row s = s @ replicate (SCLASS_EXPR_MAX_SIZE - length s) NUL"

definition label_ands :: "u32 \<Rightarrow> string" where
  "label_ands m =
     (let bs = filter (bit m) [0..<26]
      in map (\<lambda>b. char_of (0xC0 + b)) bs @ (if length bs > 1 then [char_of (0x80 + (length bs - 2))] else []))"

definition label_ors :: "u32 list \<Rightarrow> string" where
  "label_ors masks =
     (let ms = takeWhile (\<lambda>m. m \<noteq> 0) (take 4 masks)
      in expr_row (concat (map label_ands ms) @ (if length ms > 1 then [char_of (0x40 + (length ms - 2))] else [])))"

definition sclass_maskorgroup_to_labelexpr :: "u32 list \<Rightarrow> u8 \<Rightarrow> string list" where
  "sclass_maskorgroup_to_labelexpr labelmasks labelscnt =
     map (\<lambda>i. label_ors (drop (i * MASKORGROUP) labelmasks)) [0..<min (unat labelscnt) MAXLABELSCNT]"

primrec scset_masks :: "nat \<Rightarrow> string \<Rightarrow> (u32 list \<times> string) option" where
  "scset_masks 0 p = Some ([], p)"
| "scset_masks (Suc n) p = do {
     p \<leftarrow> eat (CHR '','') p;
     (m, p) \<leftarrow> getu32 p;
     (ms, p) \<leftarrow> scset_masks n p;
     Some (m # ms, p)
   }"

definition scset_mask_labels :: "storagemode \<Rightarrow> string \<Rightarrow> (storagemode \<times> string) option" where
  "scset_mask_labels sm p = do {
     (ms, p) \<leftarrow> scset_masks (unat (sm_labelscnt sm) * MASKORGROUP) p;
     Some (sm\<lparr>sm_labelexpr := sclass_maskorgroup_to_labelexpr ms (sm_labelscnt sm)\<rparr>, p)
   }"

definition scset_old :: "string \<Rightarrow> (sclass_args \<Rightarrow> string \<Rightarrow> mr_return option) \<Rightarrow> mr_return option" where
  "scset_old p call = do {
     p \<leftarrow> eat (CHR ''W'') p;
     (create_cnt, p) \<leftarrow> getu8 p;
     p \<leftarrow> eat (CHR '','') p;
     p \<leftarrow> eat (CHR ''K'') p;
     (keep_cnt, p) \<leftarrow> getu8 p;
     p \<leftarrow> eat (CHR '','') p;
     p \<leftarrow> eat (CHR ''A'') p;
     (arch_cnt, p) \<leftarrow> getu8 p;
     p \<leftarrow> eat (CHR '','') p;
     (labels_mode, p) \<leftarrow> getu8 p;
     p \<leftarrow> eat (CHR '','') p;
     (arch_delay, p) \<leftarrow> getu16 p;
     p \<leftarrow> eat (CHR '','') p;
     (adminonly, p) \<leftarrow> getu8 p;
     if unat create_cnt > MAXLABELSCNT \<or> unat keep_cnt > MAXLABELSCNT \<or> unat arch_cnt > MAXLABELSCNT
     then Some (Return MFS_ERROR_EINVAL)
     else do {
       let create = sm_init\<lparr>sm_labelscnt := create_cnt\<rparr>;
       let keep = sm_init\<lparr>sm_labelscnt := keep_cnt\<rparr>;
       let arch = sm_init\<lparr>sm_labelscnt := arch_cnt\<rparr>;
       (create, keep, arch, arch_delay, p) \<leftarrow>
         (if unat create_cnt + unat keep_cnt + unat arch_cnt = 0 then do {
            p \<leftarrow> eat (CHR '','') p;
            p \<leftarrow> eat (CHR ''-'') p;
            Some (create, keep, arch, arch_delay, p)
          } else do {
            (create, p) \<leftarrow> scset_mask_labels create p;
            (keep, p) \<leftarrow> scset_mask_labels keep p;
            (arch, p) \<leftarrow> scset_mask_labels arch p;
            Some (create, keep, arch, arch_delay * 24, p)
          });
       call \<lparr>sc_desc = [], sc_priority = 0, sc_export_group = 0, sc_admin_only = adminonly, sc_labels_mode = labels_mode,
         sc_arch_mode = SCLASS_ARCH_MODE_CTIME, sc_arch_delay = arch_delay, sc_arch_min_size = 0,
         sc_min_trashretention = 0, sc_create = create, sc_keep = keep, sc_arch = arch, sc_trash = sm_init\<rparr> p
     }
   }"

text \<open>A mode of the current format: the letter, the number of labels, the mask, and for archive and trash the redundancy.\<close>

definition scset_mode :: "char \<Rightarrow> bool \<Rightarrow> string \<Rightarrow> (storagemode \<times> string) option" where
  "scset_mode letter ec p = do {
     p \<leftarrow> eat letter p;
     p \<leftarrow> eat (CHR ''('') p;
     (labelscnt, p) \<leftarrow> getu8 p;
     p \<leftarrow> eat (CHR '':'') p;
     (uniqmask, p) \<leftarrow> getu32 p;
     (parts, p) \<leftarrow> (if ec then do { p \<leftarrow> eat (CHR '':'') p; getu8 p } else Some (0, p));
     (labels_mode, p) \<leftarrow>
       (if at p = CHR '':'' then do { p \<leftarrow> eat (CHR '':'') p; getu8 p } else Some (sm_labels_mode sm_init, p));
     p \<leftarrow> eat (CHR '')'') p;
     Some (sm_init\<lparr>sm_labelscnt := labelscnt, sm_uniqmask := uniqmask, sm_ec_data_chksum_parts := parts,
       sm_labels_mode := labels_mode\<rparr>, p)
   }"

primrec scset_rows :: "nat \<Rightarrow> string \<Rightarrow> (string list \<Rightarrow> string \<Rightarrow> mr_return option) \<Rightarrow> mr_return option" where
  "scset_rows 0 p call = call [] p"
| "scset_rows (Suc n) p call = do {
     p \<leftarrow> eat (CHR '','') p;
     let (e, p) = gethex p;
     if length e > SCLASS_EXPR_MAX_SIZE then Some (Return MFS_ERROR_EINVAL)
     else scset_rows n p (\<lambda>rows p. call (expr_row e # rows) p)
   }"

definition scset_labels :: "storagemode \<Rightarrow> string \<Rightarrow> (storagemode \<Rightarrow> string \<Rightarrow> mr_return option) \<Rightarrow> mr_return option" where
  "scset_labels sm p call = scset_rows (unat (sm_labelscnt sm)) p (\<lambda>rows p. call (sm\<lparr>sm_labelexpr := rows\<rparr>) p)"

definition scset_desc :: "string \<Rightarrow> (bool \<times> string \<times> u32 \<times> u8 \<times> string) option" where
  "scset_desc p =
     (if at p = CHR ''1'' then do {
        p \<leftarrow> eat (CHR ''1'') p;
        p \<leftarrow> eat (CHR '','') p;
        (desc, p) \<leftarrow> getname (CHR '','') p;
        p \<leftarrow> eat (CHR '','') p;
        (priority, p) \<leftarrow> getu32 p;
        p \<leftarrow> eat (CHR '','') p;
        (export_group, p) \<leftarrow> getu8 p;
        p \<leftarrow> eat (CHR '','') p;
        Some (True, desc, priority, export_group, p)
      } else Some (False, [], 0, 0, p))"

definition scset_arch :: "string \<Rightarrow> (u8 \<times> u16 \<times> u64 \<times> string) option" where
  "scset_arch p =
     (if at p = CHR ''('' then do {
        p \<leftarrow> eat (CHR ''('') p;
        (arch_mode, p) \<leftarrow> getu8 p;
        p \<leftarrow> eat (CHR '':'') p;
        (arch_delay, p) \<leftarrow> getu16 p;
        (arch_min_size, p) \<leftarrow> (if at p = CHR '':'' then do { p \<leftarrow> eat (CHR '':'') p; getu64 p } else Some (0, p));
        p \<leftarrow> eat (CHR '')'') p;
        Some (arch_mode, arch_delay, arch_min_size, p)
      } else do {
        (arch_delay, p) \<leftarrow> getu16 p;
        Some (SCLASS_ARCH_MODE_CTIME, arch_delay, 0, p)
      })"

definition scset_new :: "string \<Rightarrow> (bool \<Rightarrow> sclass_args \<Rightarrow> string \<Rightarrow> mr_return option) \<Rightarrow> mr_return option" where
  "scset_new p call = do {
     (version, desc, priority, export_group, p) \<leftarrow> scset_desc p;
     (create, p) \<leftarrow> scset_mode (CHR ''C'') False p;
     p \<leftarrow> eat (CHR '','') p;
     (keep, p) \<leftarrow> scset_mode (CHR ''K'') False p;
     p \<leftarrow> eat (CHR '','') p;
     (arch, p) \<leftarrow> scset_mode (CHR ''A'') True p;
     p \<leftarrow> eat (CHR '','') p;
     (trash, p) \<leftarrow> scset_mode (CHR ''T'') True p;
     p \<leftarrow> eat (CHR '','') p;
     (labels_mode, p) \<leftarrow> getu8 p;
     p \<leftarrow> eat (CHR '','') p;
     (arch_mode, arch_delay, arch_min_size, p) \<leftarrow> scset_arch p;
     p \<leftarrow> eat (CHR '','') p;
     (min_trashretention, p) \<leftarrow> getu16 p;
     p \<leftarrow> eat (CHR '','') p;
     (adminonly, p) \<leftarrow> getu8 p;
     let call' = (\<lambda>create keep arch trash p. call version
       \<lparr>sc_desc = desc, sc_priority = priority, sc_export_group = export_group, sc_admin_only = adminonly,
         sc_labels_mode = labels_mode, sc_arch_mode = arch_mode, sc_arch_delay = arch_delay,
         sc_arch_min_size = arch_min_size, sc_min_trashretention = min_trashretention,
         sc_create = create, sc_keep = keep, sc_arch = arch, sc_trash = trash\<rparr> p);
     if \<exists>sm\<in>set [create, keep, arch, trash]. unat (sm_labelscnt sm) > MAXLABELSCNT then Some (Return MFS_ERROR_EINVAL)
     else if \<forall>sm\<in>set [create, keep, arch, trash]. sm_labelscnt sm = 0 then do {
       p \<leftarrow> eat (CHR '','') p;
       p \<leftarrow> eat (CHR ''-'') p;
       call' create keep arch trash p
     }
     else scset_labels create p (\<lambda>create p. scset_labels keep p (\<lambda>keep p. scset_labels arch p (\<lambda>arch p.
       scset_labels trash p (\<lambda>trash p. call' create keep arch trash p))))
   }"

definition do_scset :: "string \<Rightarrow> mr_return option" where
  "do_scset p = do {
     p \<leftarrow> eat (CHR ''('') p;
     (name, p) \<leftarrow> getname (CHR '','') p;
     p \<leftarrow> eat (CHR '','') p;
     (new_flag, p) \<leftarrow> getu8 p;
     p \<leftarrow> eat (CHR '','') p;
     let call = (\<lambda>version args p. do {
       p \<leftarrow> eat (CHR '')'') p;
       p \<leftarrow> eat (CHR '':'') p;
       (spid, p) \<leftarrow> getu16 p;
       Some (Call (Sclass_mr_set_entry name spid new_flag
         (if \<not> version \<and> spid < 10 then args\<lparr>sc_export_group := ucast spid\<rparr> else args)))
     });
     if at p = CHR ''W'' then scset_old p (call False)
     else if at p = CHR ''C'' \<or> at p = CHR ''1'' then scset_new p call
     else None
   }"

end
