(* ===== verification/Changelog_Lines.thy ===== *)
theory Changelog_Lines
  imports Restore_Calls
begin

text \<open>
  The text of changelog lines: what the modules of the master print with \<^verbatim>\<open>changelog(...)\<close> and how
  \<^verbatim>\<open>restore_line\<close> of \<^verbatim>\<open>mfsmaster/restore.c\<close> finds the function that reads it. For each format string of the
  sources there is one definition \<open>log_...\<close>; its arguments are those of the function that repeats the change.
\<close>

subsection \<open>restore\_line\<close>

definition HASHCODESTR :: "string \<Rightarrow> u32" where
  "HASHCODESTR p = ((of_char (at p) * 256 + of_char (at (drop 1 p))) * 256 + of_char (at (drop 2 p))) * 256 + of_char (at (drop 3 p))"

text \<open>
  The cases of the switch: the four letters of the hash code with the keywords that are compared after it,
  in the order of the source. A keyword of four letters is not compared there; it equals the four letters.
\<close>

definition restore_cases :: "bool \<Rightarrow> (string \<times> (string \<times> (string \<Rightarrow> mr_return option)) list) list" where
  "restore_cases big =
     [(''IDLE'', [(''IDLE'', do_idle)]),
      (''ACCE'', [(''ACCESS'', do_access)]),
      (''ADDA'', [(''ADDATTR'', do_addattr)]),
      (''ATTR'', [(''ATTR'', do_attr)]),
      (''APPE'', [(''APPEND'', do_append)]),
      (''ACQU'', [(''ACQUIRE'', do_acquire)]),
      (''AQUI'', [(''AQUIRE'', do_acquire)]),
      (''ARCH'', [(''ARCHCHG'', do_archchg)]),
      (''AMTI'', [(''AMTIME'', do_amtime)]),
      (''AUTO'', [(''AUTOARCH'', do_autoarch)]),
      (''CREA'', [(''CREATE'', do_create)]),
      (''CHUN'', [(''CHUNKADD'', do_chunkadd), (''CHUNKDEL'', do_chunkdel), (''CHUNKFLAGSCLR'', do_chunkflagsclr)]),
      (''CSAD'', [(''CSADD'', do_csadd)]),
      (''CSDB'', [(''CSDBOP'', do_csdbop)]),
      (''CSDE'', [(''CSDEL'', do_csdel)]),
      (''CUST'', [(''CUSTOMER'', do_session)]),
      (''EMPT'', [(''EMPTYTRASH'', do_emptytrash), (''EMPTYSUSTAINED'', do_emptysustained), (''EMPTYRESERVED'', do_emptysustained)]),
      (''FLOC'', [(''FLOCK'', do_flock)]),
      (''FREE'', [(''FREEINODES'', do_freeinodes)]),
      (''INCV'', [(''INCVERSION'', do_incversion)]),
      (''LENG'', [(''LENGTH'', do_length)]),
      (''LINK'', [(''LINK'', do_link)]),
      (''MOVE'', [(''MOVE'', do_move)]),
      (''NEXT'', [(''NEXTCHUNKID'', do_nextchunkid)]),
      (''PATA'', [(''PATADD'', do_patadd)]),
      (''PATD'', [(''PATDEL'', do_patdel)]),
      (''POSI'', [(''POSIXLOCK'', do_posixlock)]),
      (''PURG'', [(''PURGE'', do_purge)]),
      (''QUOT'', [(''QUOTA'', do_quota)]),
      (''RELE'', [(''RELEASE'', do_release)]),
      (''RENU'', [(''RENUMERATEEDGES'', do_renumedges)]),
      (''REPA'', [(''REPAIR'', do_repair)]),
      (''ROLL'', [(''ROLLBACK'', do_rollback)]),
      (''SCDE'', [(''SCDEL'', do_scdel)]),
      (''SCDU'', [(''SCDUP'', do_scdup)]),
      (''SCEC'', [(''SCECVERSION'', do_scecversion), (''SCECON'', do_scecon)]),
      (''SCRA'', [(''SCRAIDON'', do_scecon)]),
      (''SCRE'', [(''SCREN'', do_scren)]),
      (''SCSE'', [(''SCSET'', do_scset)]),
      (''SESA'', [(''SESADD'', do_sesadd)]),
      (''SESC'', [(''SESCHANGED'', do_seschanged), (''SESCONNECTED'', do_sesconnected)]),
      (''SESD'', [(''SESDEL'', do_sesdel), (''SESDISCONNECTED'', do_sesdisconnected)]),
      (''SESS'', [(''SESSION'', do_session)]),
      (''SETA'', [(''SETACL'', do_setacl)]),
      (''SETE'', [(''SETEATTR'', do_seteattr)]),
      (''SETF'', [(''SETFILECHUNK'', do_setfilechunk)]),
      (''SETG'', [(''SETGOAL'', do_setgoal)]),
      (''SETM'', [(''SETMETAID'', do_setmetaid)]),
      (''SETP'', [(''SETPATH'', do_setpath)]),
      (''SETS'', [(''SETSCLASS'', do_setsclass)]),
      (''SETT'', [(''SETTRASHTIME'', do_settrashretention)]),
      (''SETV'', [(''SETVERSION'', do_setversion)]),
      (''SETX'', [(''SETXATTR'', do_setxattr)]),
      (''SNAP'', [(''SNAPSHOT'', do_snapshot big)]),
      (''SYML'', [(''SYMLINK'', do_symlink)]),
      (''TRAS'', [(''TRASH_RECOVER'', do_trash_recover), (''TRASH_REMOVE'', do_trash_remove)]),
      (''TRUN'', [(''TRUNC'', do_trunc)]),
      (''UNDE'', [(''UNDEL'', do_undel)]),
      (''UNLI'', [(''UNLINK'', do_unlink)]),
      (''UNLO'', [(''UNLOCK'', do_unlock)]),
      (''WRIT'', [(''WRITE'', do_write)])]"

definition restore_change :: "bool \<Rightarrow> string \<Rightarrow> mr_return option" where
  "restore_change big p =
     (case List.find (\<lambda>(k, _). HASHCODESTR p = HASHCODESTR k) (restore_cases big) of
        None \<Rightarrow> Some (Return MFS_ERROR_MISMATCH)
      | Some (_, alts) \<Rightarrow>
          (case List.find (\<lambda>(kw, _). take (length kw) p = kw) alts of
             None \<Rightarrow> Some (Return MFS_ERROR_MISMATCH)
           | Some (kw, f) \<Rightarrow> f (drop (length kw) p)))"

text \<open>The result is the time stamp of the line with the return of the \<^verbatim>\<open>do_...\<close> function.\<close>

definition restore_line :: "bool \<Rightarrow> string \<Rightarrow> (u32 \<times> mr_return) option" where
  "restore_line big line = do {
     (ts, p) \<leftarrow> getu32 line;
     p \<leftarrow> eat (CHR ''|'') p;
     ret \<leftarrow> restore_change big p;
     Some (ts, ret)
   }"

subsection \<open>Format strings\<close>

definition log_access :: "u32 \<Rightarrow> string" where
  "log_access inode =
     ''ACCESS('' @ dec inode @ '')''"

definition log_addattr :: "u32 \<Rightarrow> u8 \<Rightarrow> string \<Rightarrow> string" where
  "log_addattr inode flags blob =
     ''ADDATTR('' @ dec inode @ '','' @ dec flags @ '','' @ changelog_escape_name blob @ '')''"

definition log_append :: "u32 \<Rightarrow> u32 \<Rightarrow> u32 \<Rightarrow> u32 \<Rightarrow> string" where
  "log_append inode inode_src slice_from slice_to =
     ''APPEND('' @ dec inode @ '','' @ dec inode_src @ '','' @ dec slice_from @ '','' @ dec slice_to @ '')''"

definition log_archchg :: "u32 \<Rightarrow> u32 \<Rightarrow> u8 \<Rightarrow> u64 \<Rightarrow> u64 \<Rightarrow> u32 \<Rightarrow> string" where
  "log_archchg inode uid cmd chgchunks notchgchunks nsinodes =
     ''ARCHCHG('' @ dec inode @ '','' @ dec uid @ '','' @ dec cmd @ ''):'' @ dec chgchunks @ '','' @ dec notchgchunks
     @ '','' @ dec nsinodes"

definition log_amtime :: "u32 \<Rightarrow> u32 \<Rightarrow> u32 \<Rightarrow> u32 \<Rightarrow> string" where
  "log_amtime inode atime mtime ctime =
     ''AMTIME('' @ dec inode @ '','' @ dec atime @ '','' @ dec mtime @ '','' @ dec ctime @ '')''"

definition log_autoarch :: "u32 \<Rightarrow> u32 \<Rightarrow> u8 \<Rightarrow> u32 \<Rightarrow> u32 \<Rightarrow> string" where
  "log_autoarch inode archreftime intrash aflagchanged tflagchanged =
     ''AUTOARCH('' @ dec inode @ '','' @ dec archreftime @ '','' @ dec intrash @ ''):'' @ dec aflagchanged @ '','' @
     dec tflagchanged"

definition log_attr :: "u32 \<Rightarrow> u16 \<Rightarrow> u32 \<Rightarrow> u32 \<Rightarrow> u32 \<Rightarrow> u32 \<Rightarrow> u8 \<Rightarrow> u16 \<Rightarrow> string" where
  "log_attr inode mode uid gid atime mtime winattr aclmode =
     ''ATTR('' @ dec inode @ '','' @ dec mode @ '','' @ dec uid @ '','' @ dec gid @ '','' @ dec atime @ '','' @ dec
     mtime @ '','' @ dec winattr @ '','' @ dec aclmode @ '')''"

definition log_create :: "u32 \<Rightarrow> string \<Rightarrow> u8 \<Rightarrow> u16 \<Rightarrow> u16 \<Rightarrow> u32 \<Rightarrow> u32 \<Rightarrow> u32 \<Rightarrow> u32 \<Rightarrow> string" where
  "log_create parent name type mode cumask uid gid rdev inode =
     ''CREATE('' @ dec parent @ '','' @ changelog_escape_name name @ '','' @ dec type @ '','' @ dec mode @ '','' @
     dec cumask @ '','' @ dec uid @ '','' @ dec gid @ '','' @ dec rdev @ ''):'' @ dec inode"

definition log_link :: "u32 \<Rightarrow> u32 \<Rightarrow> string \<Rightarrow> string" where
  "log_link inode_src parent_dst name =
     ''LINK('' @ dec inode_src @ '','' @ dec parent_dst @ '','' @ changelog_escape_name name @ '')''"

definition log_length :: "u32 \<Rightarrow> u64 \<Rightarrow> u8 \<Rightarrow> string" where
  "log_length inode leng canmodmtime =
     ''LENGTH('' @ dec inode @ '','' @ dec leng @ '','' @ dec canmodmtime @ '')''"

definition log_move :: "u32 \<Rightarrow> string \<Rightarrow> u32 \<Rightarrow> string \<Rightarrow> u8 \<Rightarrow> u32 \<Rightarrow> string" where
  "log_move parent_src name_src parent_dst name_dst rmode inode =
     ''MOVE('' @ dec parent_src @ '','' @ changelog_escape_name name_src @ '','' @ dec parent_dst @ '','' @
     changelog_escape_name name_dst @ '','' @ dec rmode @ ''):'' @ dec inode"

definition log_symlink :: "u32 \<Rightarrow> string \<Rightarrow> string \<Rightarrow> u32 \<Rightarrow> u32 \<Rightarrow> u32 \<Rightarrow> string" where
  "log_symlink parent name path uid gid inode =
     ''SYMLINK('' @ dec parent @ '','' @ changelog_escape_name name @ '','' @ changelog_escape_name path @ '','' @
     dec uid @ '','' @ dec gid @ ''):'' @ dec inode"

definition log_unlink :: "u32 \<Rightarrow> string \<Rightarrow> u32 \<Rightarrow> string" where
  "log_unlink parent name inode =
     ''UNLINK('' @ dec parent @ '','' @ changelog_escape_name name @ ''):'' @ dec inode"

definition log_undel :: "u32 \<Rightarrow> string" where
  "log_undel inode =
     ''UNDEL('' @ dec inode @ '')''"

definition log_purge :: "u32 \<Rightarrow> string" where
  "log_purge inode =
     ''PURGE('' @ dec inode @ '')''"

definition log_setpath :: "u32 \<Rightarrow> string \<Rightarrow> string" where
  "log_setpath inode path =
     ''SETPATH('' @ dec inode @ '','' @ changelog_escape_name path @ '')''"

definition log_trash_recover :: "u32 \<Rightarrow> u32 \<Rightarrow> string \<Rightarrow> u16 \<Rightarrow> u32 \<Rightarrow> u32 \<Rightarrow> u8 \<Rightarrow> string \<Rightarrow> string" where
  "log_trash_recover inode parent path cumask uid gid copysgid used_path =
     ''TRASH_RECOVER('' @ dec inode @ '','' @ dec parent @ '','' @ changelog_escape_name path @ '','' @ dec cumask @
     '','' @ dec uid @ '','' @ dec gid @ '','' @ dec copysgid @ ''):('' @ changelog_escape_name used_path @ '')''"

definition log_trash_remove :: "u32 \<Rightarrow> string" where
  "log_trash_remove inode =
     ''TRASH_REMOVE('' @ dec inode @ '')''"

definition log_trunc :: "u32 \<Rightarrow> u32 \<Rightarrow> u64 \<Rightarrow> string" where
  "log_trunc inode indx chunkid =
     ''TRUNC('' @ dec inode @ '','' @ dec indx @ ''):'' @ dec chunkid"

definition log_write :: "u32 \<Rightarrow> u32 \<Rightarrow> u8 \<Rightarrow> u8 \<Rightarrow> u64 \<Rightarrow> string" where
  "log_write inode indx opflag canmodmtime chunkid =
     ''WRITE('' @ dec inode @ '','' @ dec indx @ '','' @ dec opflag @ '','' @ dec canmodmtime @ ''):'' @ dec chunkid"

definition log_rollback :: "u32 \<Rightarrow> u32 \<Rightarrow> u64 \<Rightarrow> u64 \<Rightarrow> string" where
  "log_rollback inode indx prevchunkid chunkid =
     ''ROLLBACK('' @ dec inode @ '','' @ dec indx @ '','' @ dec prevchunkid @ '','' @ dec chunkid @ '')''"

definition log_unlock :: "u64 \<Rightarrow> string" where
  "log_unlock chunkid =
     ''UNLOCK('' @ dec chunkid @ '')''"

definition log_repair :: "u32 \<Rightarrow> u32 \<Rightarrow> u32 \<Rightarrow> string" where
  "log_repair inode indx nversion =
     ''REPAIR('' @ dec inode @ '','' @ dec indx @ ''):'' @ dec nversion"

definition log_setfilechunk :: "u32 \<Rightarrow> u32 \<Rightarrow> u64 \<Rightarrow> string" where
  "log_setfilechunk inode indx chunkid =
     ''SETFILECHUNK('' @ dec inode @ '','' @ dec indx @ '','' @ dec chunkid @ '')''"

definition log_emptytrash :: "u32 \<Rightarrow> u32 \<Rightarrow> u32 \<Rightarrow> u32 \<Rightarrow> u32 \<Rightarrow> string" where
  "log_emptytrash bid fi si tfi ics =
     ''EMPTYTRASH('' @ dec bid @ ''):'' @ dec fi @ '','' @ dec si @ '','' @ dec tfi @ '','' @ dec ics"

definition log_emptysustained :: "u32 \<Rightarrow> u32 \<Rightarrow> u32 \<Rightarrow> string" where
  "log_emptysustained bid fi ics =
     ''EMPTYSUSTAINED('' @ dec bid @ ''):'' @ dec fi @ '','' @ dec ics"

definition log_freeinodes :: "u32 \<Rightarrow> u32 \<Rightarrow> u32 \<Rightarrow> u32 \<Rightarrow> string" where
  "log_freeinodes inodereusedelay fi si ics =
     ''FREEINODES('' @ dec inodereusedelay @ ''):'' @ dec fi @ '','' @ dec si @ '','' @ dec ics"

definition log_renumedges :: "u64 \<Rightarrow> string" where
  "log_renumedges nextedgeid =
     ''RENUMERATEEDGES():'' @ dec nextedgeid"

definition log_quota :: "u32 \<Rightarrow> u8 \<Rightarrow> u8 \<Rightarrow> u32 \<Rightarrow> u32 \<Rightarrow> u32 \<Rightarrow> u64 \<Rightarrow> u64 \<Rightarrow> u64 \<Rightarrow> u64 \<Rightarrow> u64 \<Rightarrow> u64 \<Rightarrow> u32 \<Rightarrow> string" where
  "log_quota inode exceeded flags stimestamp sinodes hinodes slength hlength ssize hsize srealsize hrealsize graceperiod =
     ''QUOTA('' @ dec inode @ '','' @ dec exceeded @ '','' @ dec flags @ '','' @ dec stimestamp @ '','' @ dec sinodes
     @ '','' @ dec hinodes @ '','' @ dec slength @ '','' @ dec hlength @ '','' @ dec ssize @ '','' @ dec hsize @
     '','' @ dec srealsize @ '','' @ dec hrealsize @ '','' @ dec graceperiod @ '')''"

definition log_seteattr :: "u32 \<Rightarrow> u32 \<Rightarrow> u8 \<Rightarrow> u8 \<Rightarrow> u32 \<Rightarrow> u32 \<Rightarrow> u32 \<Rightarrow> string" where
  "log_seteattr inode uid eattr smode sinodes ncinodes nsinodes =
     ''SETEATTR('' @ dec inode @ '','' @ dec uid @ '','' @ dec eattr @ '','' @ dec smode @ ''):'' @ dec sinodes @
     '','' @ dec ncinodes @ '','' @ dec nsinodes"

definition log_setsclass :: "u32 \<Rightarrow> u32 \<Rightarrow> u8 \<Rightarrow> u8 \<Rightarrow> u8 \<Rightarrow> u32 \<Rightarrow> u32 \<Rightarrow> u32 \<Rightarrow> string" where
  "log_setsclass inode uid src_sclassid dst_sclassid smode sinodes ncinodes nsinodes =
     ''SETSCLASS('' @ dec inode @ '','' @ dec uid @ '','' @ dec src_sclassid @ '','' @ dec dst_sclassid @ '','' @ dec
     smode @ ''):'' @ dec sinodes @ '','' @ dec ncinodes @ '','' @ dec nsinodes"

definition log_settrashretention :: "u32 \<Rightarrow> u32 \<Rightarrow> u32 \<Rightarrow> u8 \<Rightarrow> u32 \<Rightarrow> u32 \<Rightarrow> u32 \<Rightarrow> string" where
  "log_settrashretention inode uid trashretention smode sinodes ncinodes nsinodes =
     ''SETTRASHTIME('' @ dec inode @ '','' @ dec uid @ '','' @ dec trashretention @ '','' @ dec smode @ ''):'' @ dec
     sinodes @ '','' @ dec ncinodes @ '','' @ dec nsinodes"

definition log_setxattr :: "u32 \<Rightarrow> string \<Rightarrow> string \<Rightarrow> u32 \<Rightarrow> string" where
  "log_setxattr inode attrname attrvalue mode =
     ''SETXATTR('' @ dec inode @ '','' @ changelog_escape_name attrname @ '','' @ changelog_escape_name attrvalue @
     '','' @ dec mode @ '')''"

definition log_setacl :: "u32 \<Rightarrow> u16 \<Rightarrow> u8 \<Rightarrow> u8 \<Rightarrow> u16 \<Rightarrow> u16 \<Rightarrow> u16 \<Rightarrow> u16 \<Rightarrow> u16 \<Rightarrow> u16 \<Rightarrow> string \<Rightarrow> string" where
  "log_setacl inode mode chg acltype userperm groupperm otherperm mask' namedusers namedgroups aclblob =
     ''SETACL('' @ dec inode @ '','' @ dec mode @ '','' @ dec chg @ '','' @ dec acltype @ '','' @ dec userperm @
     '','' @ dec groupperm @ '','' @ dec otherperm @ '','' @ dec mask' @ '','' @ dec namedusers @ '','' @ dec
     namedgroups @ '','' @ changelog_escape_name aclblob @ '')''"

definition log_snapshot :: "u32 \<Rightarrow> u32 \<Rightarrow> string \<Rightarrow> u8 \<Rightarrow> u8 \<Rightarrow> u32 \<Rightarrow> u32 list \<Rightarrow> u16 \<Rightarrow> u32 \<Rightarrow> u32 \<Rightarrow> u32 \<Rightarrow> u32 \<Rightarrow> u32 \<Rightarrow> u32 \<Rightarrow> string" where
  "log_snapshot inode_src parent_dst name smode sesflags uid gid cumask inode_chksum removed same existing hardlinks new =
     ''SNAPSHOT('' @ dec inode_src @ '','' @ dec parent_dst @ '','' @ changelog_escape_name name @ '','' @ dec smode
     @ '','' @ dec sesflags @ '','' @ dec uid @ '','' @ changelog_generate_gids gid @ '','' @ dec cumask @ ''):'' @
     dec inode_chksum @ '','' @ dec removed @ '','' @ dec same @ '','' @ dec existing @ '','' @ dec hardlinks @ '',''
     @ dec new"

definition log_chunkadd :: "u64 \<Rightarrow> u32 \<Rightarrow> u32 \<Rightarrow> string" where
  "log_chunkadd chunkid version lockedto =
     ''CHUNKADD('' @ dec chunkid @ '','' @ dec version @ '','' @ dec lockedto @ '')''"

definition log_chunkdel :: "u64 \<Rightarrow> u32 \<Rightarrow> string" where
  "log_chunkdel chunkid version =
     ''CHUNKDEL('' @ dec chunkid @ '','' @ dec version @ '')''"

definition log_chunkflagsclr :: "u64 \<Rightarrow> string" where
  "log_chunkflagsclr chunkid =
     ''CHUNKFLAGSCLR('' @ dec chunkid @ '')''"

definition log_setversion :: "u64 \<Rightarrow> u32 \<Rightarrow> string" where
  "log_setversion chunkid version =
     ''SETVERSION('' @ dec chunkid @ '','' @ dec version @ '')''"

definition log_csdbop :: "u8 \<Rightarrow> u32 \<Rightarrow> u16 \<Rightarrow> u32 \<Rightarrow> string" where
  "log_csdbop op ip port arg =
     ''CSDBOP('' @ dec op @ '','' @ dec ip @ '','' @ dec port @ '','' @ dec arg @ '')''"

definition log_patadd :: "string \<Rightarrow> u32 \<Rightarrow> u32 \<Rightarrow> u8 \<Rightarrow> u8 \<Rightarrow> u8 \<Rightarrow> u16 \<Rightarrow> u8 \<Rightarrow> u8 \<Rightarrow> string" where
  "log_patadd gname euid egid priority omask scid trashretention seteattr clreattr =
     ''PATADD('' @ changelog_escape_name gname @ '','' @ dec euid @ '','' @ dec egid @ '','' @ dec priority @ '','' @
     dec omask @ '','' @ dec scid @ '','' @ dec trashretention @ '','' @ dec seteattr @ '','' @ dec clreattr @ '')''"

definition log_patdel :: "string \<Rightarrow> u32 \<Rightarrow> u32 \<Rightarrow> string" where
  "log_patdel gname euid egid =
     ''PATDEL('' @ changelog_escape_name gname @ '','' @ dec euid @ '','' @ dec egid @ '')''"

definition log_setmetaid :: "u64 \<Rightarrow> string" where
  "log_setmetaid metaid =
     ''SETMETAID('' @ dec metaid @ '')''"

definition log_sesconnected :: "u32 \<Rightarrow> string" where
  "log_sesconnected sessionid =
     ''SESCONNECTED('' @ dec sessionid @ '')''"

definition log_sesdisconnected :: "u32 \<Rightarrow> string" where
  "log_sesdisconnected sessionid =
     ''SESDISCONNECTED('' @ dec sessionid @ '')''"

definition log_sesdel :: "u32 \<Rightarrow> string" where
  "log_sesdel sessionid =
     ''SESDEL('' @ dec sessionid @ '')''"

definition log_scecversion :: "u8 \<Rightarrow> string" where
  "log_scecversion version =
     ''SCECVERSION('' @ dec version @ '')''"

definition log_scdel :: "string \<Rightarrow> u16 \<Rightarrow> string" where
  "log_scdel name sclassid =
     ''SCDEL('' @ changelog_escape_name name @ ''):'' @ dec sclassid"

definition log_scdup :: "string \<Rightarrow> string \<Rightarrow> u16 \<Rightarrow> u16 \<Rightarrow> string" where
  "log_scdup oldname newname fssclassid fdsclassid =
     ''SCDUP('' @ changelog_escape_name oldname @ '','' @ changelog_escape_name newname @ ''):'' @ dec fssclassid @
     '','' @ dec fdsclassid"

definition log_scren :: "string \<Rightarrow> string \<Rightarrow> u16 \<Rightarrow> string" where
  "log_scren oldname newname sclassid =
     ''SCREN('' @ changelog_escape_name oldname @ '','' @ changelog_escape_name newname @ ''):'' @ dec sclassid"

fun lock_text :: "changelog_entry \<Rightarrow> string" where
  "lock_text (ACQUIRE s i) = ''ACQUIRE('' @ dec s @ '','' @ dec i @ '')''"
| "lock_text (RELEASE s i) = ''RELEASE('' @ dec s @ '','' @ dec i @ '')''"
| "lock_text (FLOCK i s own c) = ''FLOCK('' @ dec i @ '','' @ dec s @ '','' @ dec own @ '','' @ [c] @ '')''"
| "lock_text (POSIXLOCK i s own c b e pid) =
     ''POSIXLOCK('' @ dec i @ '','' @ dec s @ '','' @ dec own @ '','' @ [c] @ '','' @ dec b @ '','' @ dec e @ '','' @ dec pid @ '')''"

text \<open>Sessions: the umask in octal, the masks of groups and disabled operations in hexadecimal.\<close>

definition session_text :: "session_args \<Rightarrow> string" where
  "session_text a =
     ''#'' @ dec (sa_exportscsum a) @ '','' @ dec (sa_rootinode a) @ '','' @ dec (sa_sesflags a) @ '',0'' @ padded 8 3 (sa_umask a) @
     '','' @ dec (sa_rootuid a) @ '','' @ dec (sa_rootgid a) @ '','' @ dec (sa_mapalluid a) @ '','' @ dec (sa_mapallgid a) @
     '',0x'' @ padded 16 4 (sa_sclassgroups a) @ '','' @ dec (sa_mintrashretention a) @ '','' @ dec (sa_maxtrashretention a) @
     '',0x'' @ padded 16 8 (sa_disables a) @ '','' @ dec (sa_peerip a) @ '','' @ changelog_escape_name (sa_info a) @ '')''"

definition log_sesadd :: "session_args \<Rightarrow> u32 \<Rightarrow> string" where
  "log_sesadd a sessionid = ''SESADD('' @ session_text a @ '':'' @ dec sessionid"

definition log_seschanged :: "u32 \<Rightarrow> session_args \<Rightarrow> string" where
  "log_seschanged sessionid a = ''SESCHANGED('' @ dec sessionid @ '','' @ session_text a"

text \<open>
  Storage classes: the label expressions in hexadecimal, each followed by a comma, the last comma overwritten. The
  buffer has room for the expressions of four modes with the greatest number of labels of the greatest size.
\<close>

definition byte_hex :: "char \<Rightarrow> string" where
  "byte_hex c = [hex_char (code c div 16), hex_char (code c mod 16)]"

definition sclass_make_changelog_mode :: "storagemode \<Rightarrow> string" where
  "sclass_make_changelog_mode m = concat (map (\<lambda>row. concat (map byte_hex (cstr row)) @ '','') (sm_labelexpr m))"

definition mode_text :: "char \<Rightarrow> bool \<Rightarrow> storagemode \<Rightarrow> string" where
  "mode_text letter ec m =
     [letter] @ ''('' @ dec (sm_labelscnt m) @ '':'' @ dec (sm_uniqmask m) @
     (if ec then '':'' @ dec (sm_ec_data_chksum_parts m) else []) @ '':'' @ dec (sm_labels_mode m) @ '')''"

definition sclass_make_changelog :: "string \<Rightarrow> u16 \<Rightarrow> u8 \<Rightarrow> sclass_args \<Rightarrow> string" where
  "sclass_make_changelog name sclassid new_flag a =
     (let s = concat (map sclass_make_changelog_mode [sc_create a, sc_keep a, sc_arch a, sc_trash a]);
          chlogstr = (if s = [] then ''-'' else butlast s)
      in ''SCSET('' @ changelog_escape_name name @ '','' @ dec new_flag @ '',1,'' @ changelog_escape_name (sc_desc a) @ '','' @
         dec (sc_priority a) @ '','' @ dec (sc_export_group a) @ '','' @ mode_text (CHR ''C'') False (sc_create a) @ '','' @
         mode_text (CHR ''K'') False (sc_keep a) @ '','' @ mode_text (CHR ''A'') True (sc_arch a) @ '','' @
         mode_text (CHR ''T'') True (sc_trash a) @ '','' @ dec (sc_labels_mode a) @ '',('' @ dec (sc_arch_mode a) @ '':'' @
         dec (sc_arch_delay a) @ '':'' @ dec (sc_arch_min_size a) @ ''),'' @ dec (sc_min_trashretention a) @ '','' @
         dec (sc_admin_only a) @ '','' @ chlogstr @ ''):'' @ dec sclassid)"

subsection \<open>The line of a change\<close>

text \<open>Three calls are only made for lines of older versions; nothing prints them any more.\<close>

primrec change_text :: "mr_call \<Rightarrow> string" where
  "change_text Meta_mr_idle = ''IDLE()''"
| "change_text (Lock_mr e) = lock_text e"
| "change_text (Fs_mr_access inode) = log_access inode"
| "change_text (Fs_mr_additionalattr inode flags blob) = log_addattr inode flags blob"
| "change_text (Fs_mr_append_slice inode inode_src slice_from slice_to) = log_append inode inode_src slice_from slice_to"
| "change_text (Fs_mr_archchg inode uid cmd chgchunks notchgchunks nsinodes) = log_archchg inode uid cmd chgchunks notchgchunks nsinodes"
| "change_text (Fs_mr_amtime inode atime mtime ctime) = log_amtime inode atime mtime ctime"
| "change_text (Fs_mr_autoarch inode archreftime intrash aflagchanged tflagchanged) = log_autoarch inode archreftime intrash aflagchanged tflagchanged"
| "change_text (Fs_mr_attr inode mode uid gid atime mtime winattr aclmode) = log_attr inode mode uid gid atime mtime winattr aclmode"
| "change_text (Fs_mr_create parent name type mode cumask uid gid rdev inode) = log_create parent name type mode cumask uid gid rdev inode"
| "change_text (Fs_mr_link inode_src parent_dst name) = log_link inode_src parent_dst name"
| "change_text (Fs_mr_length inode leng canmodmtime) = log_length inode leng canmodmtime"
| "change_text (Fs_mr_move parent_src name_src parent_dst name_dst rmode inode) = log_move parent_src name_src parent_dst name_dst rmode inode"
| "change_text (Fs_mr_symlink parent name path uid gid inode) = log_symlink parent name path uid gid inode"
| "change_text (Fs_mr_unlink parent name inode) = log_unlink parent name inode"
| "change_text (Fs_mr_undel inode) = log_undel inode"
| "change_text (Fs_mr_purge inode) = log_purge inode"
| "change_text (Fs_mr_setpath inode path) = log_setpath inode path"
| "change_text (Fs_mr_trash_recover inode parent path cumask uid gid copysgid used_path) = log_trash_recover inode parent path cumask uid gid copysgid used_path"
| "change_text (Fs_mr_trash_remove inode) = log_trash_remove inode"
| "change_text (Fs_mr_trunc inode indx chunkid) = log_trunc inode indx chunkid"
| "change_text (Fs_mr_write inode indx opflag canmodmtime chunkid) = log_write inode indx opflag canmodmtime chunkid"
| "change_text (Fs_mr_rollback inode indx prevchunkid chunkid) = log_rollback inode indx prevchunkid chunkid"
| "change_text (Fs_mr_unlock chunkid) = log_unlock chunkid"
| "change_text (Fs_mr_repair inode indx nversion) = log_repair inode indx nversion"
| "change_text (Fs_mr_set_file_chunk inode indx chunkid) = log_setfilechunk inode indx chunkid"
| "change_text (Fs_mr_emptytrash bid fi si tfi ics) = log_emptytrash bid fi si tfi ics"
| "change_text (Fs_mr_emptysustained bid fi ics) = log_emptysustained bid fi ics"
| "change_text (Fs_mr_freeinodes inodereusedelay fi si ics) = log_freeinodes inodereusedelay fi si ics"
| "change_text (Fs_mr_renumerate_edges nextedgeid) = log_renumedges nextedgeid"
| "change_text (Fs_mr_quota inode exceeded flags stimestamp sinodes hinodes slength hlength ssize hsize srealsize hrealsize graceperiod) = log_quota inode exceeded flags stimestamp sinodes hinodes slength hlength ssize hsize srealsize hrealsize graceperiod"
| "change_text (Fs_mr_seteattr inode uid eattr smode sinodes ncinodes nsinodes) = log_seteattr inode uid eattr smode sinodes ncinodes nsinodes"
| "change_text (Fs_mr_setsclass inode uid src_sclassid dst_sclassid smode sinodes ncinodes nsinodes) = log_setsclass inode uid src_sclassid dst_sclassid smode sinodes ncinodes nsinodes"
| "change_text (Fs_mr_settrashretention inode uid trashretention smode sinodes ncinodes nsinodes) = log_settrashretention inode uid trashretention smode sinodes ncinodes nsinodes"
| "change_text (Fs_mr_setxattr inode attrname attrvalue mode) = log_setxattr inode attrname attrvalue mode"
| "change_text (Fs_mr_setacl inode mode chg acltype userperm groupperm otherperm mask' namedusers namedgroups aclblob) = log_setacl inode mode chg acltype userperm groupperm otherperm mask' namedusers namedgroups aclblob"
| "change_text (Fs_mr_snapshot inode_src parent_dst name smode sesflags uid gid cumask inode_chksum removed same existing hardlinks new) = log_snapshot inode_src parent_dst name smode sesflags uid gid cumask inode_chksum removed same existing hardlinks new"
| "change_text (Chunk_mr_chunkadd chunkid version lockedto) = log_chunkadd chunkid version lockedto"
| "change_text (Chunk_mr_chunkdel chunkid version) = log_chunkdel chunkid version"
| "change_text (Chunk_mr_flagsclr chunkid) = log_chunkflagsclr chunkid"
| "change_text (Chunk_mr_set_version chunkid version) = log_setversion chunkid version"
| "change_text (Csdb_mr_op op ip port arg) = log_csdbop op ip port arg"
| "change_text (Patterns_mr_add gname euid egid priority omask scid trashretention seteattr clreattr) = log_patadd gname euid egid priority omask scid trashretention seteattr clreattr"
| "change_text (Patterns_mr_delete gname euid egid) = log_patdel gname euid egid"
| "change_text (Meta_mr_setmetaid metaid) = log_setmetaid metaid"
| "change_text (Sessions_mr_connected sessionid) = log_sesconnected sessionid"
| "change_text (Sessions_mr_disconnected sessionid) = log_sesdisconnected sessionid"
| "change_text (Sessions_mr_sesdel sessionid) = log_sesdel sessionid"
| "change_text (Sclass_mr_ec_version version) = log_scecversion version"
| "change_text (Sclass_mr_delete_entry name sclassid) = log_scdel name sclassid"
| "change_text (Sclass_mr_duplicate_entry oldname newname fssclassid fdsclassid) = log_scdup oldname newname fssclassid fdsclassid"
| "change_text (Sclass_mr_rename_entry oldname newname sclassid) = log_scren oldname newname sclassid"
| "change_text (Sessions_mr_sesadd a sessionid) = log_sesadd a sessionid"
| "change_text (Sessions_mr_seschanged sessionid a) = log_seschanged sessionid a"
| "change_text (Sclass_mr_set_entry name sclassid new_flag a) = sclass_make_changelog name sclassid new_flag a"
| "change_text (Chunk_mr_increase_version chunkid) = []"
| "change_text (Chunk_mr_nextchunkid chunkid) = []"
| "change_text (Sessions_mr_session sessionid) = []"

text \<open>
  What the modules guarantee of the arguments: names have at most 255 bytes and names and paths no NUL, the
  umask has three octal digits, and so on.
\<close>

definition mode_ok :: "bool \<Rightarrow> storagemode \<Rightarrow> bool" where
  "mode_ok ec m \<longleftrightarrow> length (sm_labelexpr m) = unat (sm_labelscnt m) \<and> unat (sm_labelscnt m) \<le> MAXLABELSCNT \<and>
     (\<not> ec \<longrightarrow> sm_ec_data_chksum_parts m = 0) \<and>
     list_all (\<lambda>row. row = expr_row (cstr row) \<and> length (cstr row) \<le> SCLASS_EXPR_MAX_SIZE) (sm_labelexpr m)"

definition sclass_ok :: "sclass_args \<Rightarrow> bool" where
  "sclass_ok a \<longleftrightarrow> name_ok (sc_desc a) \<and> mode_ok False (sc_create a) \<and> mode_ok False (sc_keep a) \<and>
     mode_ok True (sc_arch a) \<and> mode_ok True (sc_trash a)"

primrec loggable :: "mr_call \<Rightarrow> bool" where
  "loggable Meta_mr_idle = True"
| "loggable (Lock_mr e) = True"
| "loggable (Fs_mr_access _) = True"
| "loggable (Fs_mr_additionalattr _ _ _) = True"
| "loggable (Fs_mr_append_slice _ _ _ _) = True"
| "loggable (Fs_mr_archchg _ _ _ _ _ _) = True"
| "loggable (Fs_mr_amtime _ _ _ _) = True"
| "loggable (Fs_mr_autoarch _ _ _ _ _) = True"
| "loggable (Fs_mr_attr _ _ _ _ _ _ _ _) = True"
| "loggable (Fs_mr_create _ name type _ _ _ _ _ _) = (name_ok name \<and> type < 16)"
| "loggable (Fs_mr_link _ _ name) = (name_ok name)"
| "loggable (Fs_mr_length _ _ _) = True"
| "loggable (Fs_mr_move _ name_src _ name_dst _ _) = (name_ok name_src \<and> name_ok name_dst)"
| "loggable (Fs_mr_symlink _ name path _ _ _) = (name_ok name \<and> path_ok path)"
| "loggable (Fs_mr_unlink _ name _) = (name_ok name)"
| "loggable (Fs_mr_undel _) = True"
| "loggable (Fs_mr_purge _) = True"
| "loggable (Fs_mr_setpath _ path) = (path_ok path)"
| "loggable (Fs_mr_trash_recover _ _ path _ _ _ _ used_path) = (path_ok path \<and> path_ok used_path)"
| "loggable (Fs_mr_trash_remove _) = True"
| "loggable (Fs_mr_trunc _ _ _) = True"
| "loggable (Fs_mr_write _ _ _ _ _) = True"
| "loggable (Fs_mr_rollback _ _ _ _) = True"
| "loggable (Fs_mr_unlock _) = True"
| "loggable (Fs_mr_repair _ _ _) = True"
| "loggable (Fs_mr_set_file_chunk _ _ _) = True"
| "loggable (Fs_mr_emptytrash _ _ _ _ _) = True"
| "loggable (Fs_mr_emptysustained _ _ _) = True"
| "loggable (Fs_mr_freeinodes _ _ _ _) = True"
| "loggable (Fs_mr_renumerate_edges _) = True"
| "loggable (Fs_mr_quota _ _ _ _ _ _ _ _ _ _ _ _ _) = True"
| "loggable (Fs_mr_seteattr _ _ _ _ _ _ _) = True"
| "loggable (Fs_mr_setsclass _ _ _ _ _ _ _ _) = True"
| "loggable (Fs_mr_settrashretention _ _ _ _ _ _ _) = True"
| "loggable (Fs_mr_setxattr _ attrname _ _) = (name_ok attrname)"
| "loggable (Fs_mr_setacl _ _ _ _ _ _ _ _ namedusers namedgroups aclblob) = (length aclblob = 6 * (unat namedusers + unat namedgroups))"
| "loggable (Fs_mr_snapshot _ _ name _ _ _ gid _ _ _ _ _ _ _) = (name_ok name \<and> gid \<noteq> [])"
| "loggable (Chunk_mr_chunkadd _ _ _) = True"
| "loggable (Chunk_mr_chunkdel _ _) = True"
| "loggable (Chunk_mr_flagsclr _) = True"
| "loggable (Chunk_mr_set_version _ _) = True"
| "loggable (Csdb_mr_op _ _ _ _) = True"
| "loggable (Patterns_mr_add gname _ _ _ _ _ _ _ _) = (name_ok gname)"
| "loggable (Patterns_mr_delete gname _ _) = (name_ok gname)"
| "loggable (Meta_mr_setmetaid _) = True"
| "loggable (Sessions_mr_connected _) = True"
| "loggable (Sessions_mr_disconnected _) = True"
| "loggable (Sessions_mr_sesdel _) = True"
| "loggable (Sclass_mr_ec_version _) = True"
| "loggable (Sclass_mr_delete_entry name _) = (name_ok name)"
| "loggable (Sclass_mr_duplicate_entry oldname newname _ _) = (name_ok oldname \<and> name_ok newname)"
| "loggable (Sclass_mr_rename_entry oldname newname _) = (name_ok oldname \<and> name_ok newname)"
| "loggable (Sessions_mr_sesadd a sessionid) = (sa_umask a < 512)"
| "loggable (Sessions_mr_seschanged sessionid a) = (sa_umask a < 512)"
| "loggable (Sclass_mr_set_entry name sclassid new_flag a) = (name_ok name \<and> sclass_ok a)"
| "loggable (Chunk_mr_increase_version chunkid) = False"
| "loggable (Chunk_mr_nextchunkid chunkid) = False"
| "loggable (Sessions_mr_session sessionid) = False"

definition MAXLOGLINESIZE :: nat where [simp]: "MAXLOGLINESIZE = 200000"

text \<open>The text that \<^verbatim>\<open>changelog\<close> makes of a change; the buffer cuts what is too long.\<close>

definition change_line :: "u32 \<Rightarrow> mr_call \<Rightarrow> string" where
  "change_line ts c = take (MAXLOGLINESIZE - 1) (dec ts @ ''|'' @ change_text c)"

end
