(* ===== verification/Changelog_Roundtrip.thy ===== *)
theory Changelog_Roundtrip
  imports Changelog_Lines
begin

text \<open>
  Reading back what was printed: for every kind of change, \<^verbatim>\<open>restore_line\<close> finds the function that reads the
  line and this function makes the call that repeats the change, with the same arguments.
\<close>

subsection \<open>Finding the function\<close>

definition hash_nat :: "string \<Rightarrow> nat" where
  "hash_nat p = ((code (at p) * 256 + code (at (drop 1 p))) * 256 + code (at (drop 2 p))) * 256 + code (at (drop 3 p))"

lemma HASHCODESTR_nat: "HASHCODESTR p = of_nat (hash_nat p)"
  unfolding HASHCODESTR_def hash_nat_def by (simp only: of_nat_add of_nat_mult of_nat_of_char of_nat_numeral)

lemma byte_step: "\<lbrakk>x < m; d < 256\<rbrakk> \<Longrightarrow> x * 256 + d < m * (256 :: nat)"
  by simp

lemma hash_nat_less: "hash_nat p < 2 ^ 32"
proof -
  have "hash_nat p < ((256 * 256) * 256) * 256"
    unfolding hash_nat_def by (intro byte_step code_less)
  then show ?thesis by simp
qed

lemma base256_inj:
  assumes "x * 256 + d = x' * 256 + d'" "d < 256" "d' < (256 :: nat)"
  shows "x = x'" "d = d'"
proof -
  have "(x * 256 + d) mod 256 = (x' * 256 + d') mod 256" using assms(1) by (rule arg_cong)
  with assms(2,3) show "d = d'" by simp
  with assms(1) show "x = x'" by simp
qed

lemma hash_nat_inj:
  assumes "hash_nat p = hash_nat q"
  shows "at p = at q" "at (drop 1 p) = at (drop 1 q)" "at (drop 2 p) = at (drop 2 q)" "at (drop 3 p) = at (drop 3 q)"
proof -
  note step = base256_inj [OF _ code_less code_less]
  from assms have e3: "((code (at p) * 256 + code (at (drop 1 p))) * 256 + code (at (drop 2 p))) * 256 + code (at (drop 3 p)) =
      ((code (at q) * 256 + code (at (drop 1 q))) * 256 + code (at (drop 2 q))) * 256 + code (at (drop 3 q))"
    unfolding hash_nat_def .
  note e2 = step(1) [OF e3]
  note e1 = step(1) [OF e2]
  note e0 = step(1) [OF e1]
  from e0 step(2) [OF e1] step(2) [OF e2] step(2) [OF e3]
  show "at p = at q" "at (drop 1 p) = at (drop 1 q)" "at (drop 2 p) = at (drop 2 q)" "at (drop 3 p) = at (drop 3 q)"
    by (auto intro: of_char_eqI)
qed

lemma HASHCODESTR_eq: "HASHCODESTR p = HASHCODESTR q \<Longrightarrow> hash_nat p = hash_nat q"
proof -
  assume "HASHCODESTR p = HASHCODESTR q"
  then have "unat (of_nat (hash_nat p) :: u32) = unat (of_nat (hash_nat q) :: u32)" unfolding HASHCODESTR_nat by simp
  then show ?thesis using hash_nat_less by (simp add: unat_of_nat)
qed

text \<open>So the switch selects by the first four letters.\<close>

lemma hash_take_4:
  assumes "length k = 4" "NUL \<notin> set k"
  shows "HASHCODESTR p = HASHCODESTR k \<longleftrightarrow> take 4 p = k"
proof
  assume "HASHCODESTR p = HASHCODESTR k"
  note eqs = hash_nat_inj [OF HASHCODESTR_eq [OF this]]
  from assms(1) obtain a b c d where k: "k = [a, b, c, d]"
    by (auto simp: length_Suc_conv numeral_eq_Suc)
  from assms(2) have "a \<noteq> NUL" "b \<noteq> NUL" "c \<noteq> NUL" "d \<noteq> NUL" by (auto simp: k)
  with eqs obtain p' where "p = a # b # c # d # p'"
    by (cases p; cases "drop 1 p"; cases "drop 2 p"; cases "drop 3 p") (auto simp: k)
  then show "take 4 p = k" by (simp add: k)
next
  assume "take 4 p = k"
  then have "k @ drop 4 p = p" by (metis append_take_drop_id)
  moreover from assms(1) obtain a b c d where k: "k = [a, b, c, d]"
    by (auto simp: length_Suc_conv numeral_eq_Suc)
  ultimately show "HASHCODESTR p = HASHCODESTR k"
    by (metis HASHCODESTR_def append.simps(2) at.simps(2) drop0 drop_Suc_Cons numeral_2_eq_2 numeral_3_eq_3 One_nat_def)
qed

lemma cases_keys: "list_all (\<lambda>(k, _). length k = 4 \<and> NUL \<notin> set k) (restore_cases big)"
  by (simp add: restore_cases_def)

lemma restore_change_take:
  "restore_change big p =
     (case List.find (\<lambda>(k, _). take 4 p = k) (restore_cases big) of
        None \<Rightarrow> Some (Return MFS_ERROR_MISMATCH)
      | Some (_, alts) \<Rightarrow>
          (case List.find (\<lambda>(kw, _). take (length kw) p = kw) alts of
             None \<Rightarrow> Some (Return MFS_ERROR_MISMATCH)
           | Some (kw, f) \<Rightarrow> f (drop (length kw) p)))"
proof -
  have "List.find (\<lambda>(k, _). HASHCODESTR p = HASHCODESTR k) (restore_cases big) =
      List.find (\<lambda>(k, _). take 4 p = k) (restore_cases big)"
    using cases_keys [of big] by (intro find_cong) (auto simp: list_all_iff hash_take_4)
  then show ?thesis unfolding restore_change_def by simp
qed

text \<open>One lemma for each format string.\<close>

named_theorems read_back \<open>lines that are read back\<close>

lemma read_access [read_back]:
  "\<not> digit_in 10 (at r) \<Longrightarrow>
   restore_change big (log_access inode @ r) = Some (Call (Fs_mr_access inode))"
  by (simp add: log_access_def restore_change_take restore_cases_def do_access_def changelog_simps cast_back)

lemma read_addattr [read_back]:
  "\<not> digit_in 10 (at r) \<Longrightarrow>
   restore_change big (log_addattr inode flags blob @ r) = Some (Call (Fs_mr_additionalattr inode flags blob))"
  by (simp add: log_addattr_def restore_change_take restore_cases_def do_addattr_def changelog_simps cast_back)

lemma read_append [read_back]:
  "\<not> digit_in 10 (at r) \<Longrightarrow>
   restore_change big (log_append inode inode_src slice_from slice_to @ r) = Some (Call (Fs_mr_append_slice inode inode_src slice_from slice_to))"
  by (simp add: log_append_def restore_change_take restore_cases_def do_append_def changelog_simps cast_back)

lemma read_archchg [read_back]:
  "\<not> digit_in 10 (at r) \<Longrightarrow>
   restore_change big (log_archchg inode uid cmd chgchunks notchgchunks nsinodes @ r) = Some (Call (Fs_mr_archchg inode uid cmd chgchunks notchgchunks nsinodes))"
  by (simp add: log_archchg_def restore_change_take restore_cases_def do_archchg_def changelog_simps cast_back)

lemma read_amtime [read_back]:
  "\<not> digit_in 10 (at r) \<Longrightarrow>
   restore_change big (log_amtime inode atime mtime ctime @ r) = Some (Call (Fs_mr_amtime inode atime mtime ctime))"
  by (simp add: log_amtime_def restore_change_take restore_cases_def do_amtime_def changelog_simps cast_back)

lemma read_autoarch [read_back]:
  "\<not> digit_in 10 (at r) \<Longrightarrow>
   restore_change big (log_autoarch inode archreftime intrash aflagchanged tflagchanged @ r) = Some (Call (Fs_mr_autoarch inode archreftime intrash aflagchanged tflagchanged))"
  by (simp add: log_autoarch_def restore_change_take restore_cases_def do_autoarch_def changelog_simps cast_back)

lemma read_attr [read_back]:
  "\<not> digit_in 10 (at r) \<Longrightarrow>
   restore_change big (log_attr inode mode uid gid atime mtime winattr aclmode @ r) = Some (Call (Fs_mr_attr inode mode uid gid atime mtime winattr aclmode))"
  by (simp add: log_attr_def restore_change_take restore_cases_def do_attr_def changelog_simps cast_back)

lemma read_create [read_back]:
  "\<lbrakk>name_ok name \<and> type < 16; \<not> digit_in 10 (at r)\<rbrakk> \<Longrightarrow>
   restore_change big (log_create parent name type mode cumask uid gid rdev inode @ r) = Some (Call (Fs_mr_create parent name type mode cumask uid gid rdev inode))"
  by (simp add: log_create_def restore_change_take restore_cases_def do_create_def changelog_simps cast_back)

lemma read_link [read_back]:
  "\<lbrakk>name_ok name; \<not> digit_in 10 (at r)\<rbrakk> \<Longrightarrow>
   restore_change big (log_link inode_src parent_dst name @ r) = Some (Call (Fs_mr_link inode_src parent_dst name))"
  by (simp add: log_link_def restore_change_take restore_cases_def do_link_def changelog_simps cast_back)

lemma read_length [read_back]:
  "\<not> digit_in 10 (at r) \<Longrightarrow>
   restore_change big (log_length inode leng canmodmtime @ r) = Some (Call (Fs_mr_length inode leng canmodmtime))"
  by (simp add: log_length_def restore_change_take restore_cases_def do_length_def changelog_simps cast_back)

lemma read_move [read_back]:
  "\<lbrakk>name_ok name_src \<and> name_ok name_dst; \<not> digit_in 10 (at r)\<rbrakk> \<Longrightarrow>
   restore_change big (log_move parent_src name_src parent_dst name_dst rmode inode @ r) = Some (Call (Fs_mr_move parent_src name_src parent_dst name_dst rmode inode))"
  by (simp add: log_move_def restore_change_take restore_cases_def do_move_def changelog_simps cast_back)

lemma read_symlink [read_back]:
  "\<lbrakk>name_ok name \<and> path_ok path; \<not> digit_in 10 (at r)\<rbrakk> \<Longrightarrow>
   restore_change big (log_symlink parent name path uid gid inode @ r) = Some (Call (Fs_mr_symlink parent name path uid gid inode))"
  by (simp add: log_symlink_def restore_change_take restore_cases_def do_symlink_def changelog_simps cast_back)

lemma read_unlink [read_back]:
  "\<lbrakk>name_ok name; \<not> digit_in 10 (at r)\<rbrakk> \<Longrightarrow>
   restore_change big (log_unlink parent name inode @ r) = Some (Call (Fs_mr_unlink parent name inode))"
  by (simp add: log_unlink_def restore_change_take restore_cases_def do_unlink_def changelog_simps cast_back)

lemma read_undel [read_back]:
  "\<not> digit_in 10 (at r) \<Longrightarrow>
   restore_change big (log_undel inode @ r) = Some (Call (Fs_mr_undel inode))"
  by (simp add: log_undel_def restore_change_take restore_cases_def do_undel_def changelog_simps cast_back)

lemma read_purge [read_back]:
  "\<not> digit_in 10 (at r) \<Longrightarrow>
   restore_change big (log_purge inode @ r) = Some (Call (Fs_mr_purge inode))"
  by (simp add: log_purge_def restore_change_take restore_cases_def do_purge_def changelog_simps cast_back)

lemma read_setpath [read_back]:
  "\<lbrakk>path_ok path; \<not> digit_in 10 (at r)\<rbrakk> \<Longrightarrow>
   restore_change big (log_setpath inode path @ r) = Some (Call (Fs_mr_setpath inode path))"
  by (simp add: log_setpath_def restore_change_take restore_cases_def do_setpath_def changelog_simps cast_back)

lemma read_trash_recover [read_back]:
  "\<lbrakk>path_ok path \<and> path_ok used_path; \<not> digit_in 10 (at r)\<rbrakk> \<Longrightarrow>
   restore_change big (log_trash_recover inode parent path cumask uid gid copysgid used_path @ r) = Some (Call (Fs_mr_trash_recover inode parent path cumask uid gid copysgid used_path))"
  by (simp add: log_trash_recover_def restore_change_take restore_cases_def do_trash_recover_def changelog_simps cast_back)

lemma read_trash_remove [read_back]:
  "\<not> digit_in 10 (at r) \<Longrightarrow>
   restore_change big (log_trash_remove inode @ r) = Some (Call (Fs_mr_trash_remove inode))"
  by (simp add: log_trash_remove_def restore_change_take restore_cases_def do_trash_remove_def changelog_simps cast_back)

lemma read_trunc [read_back]:
  "\<not> digit_in 10 (at r) \<Longrightarrow>
   restore_change big (log_trunc inode indx chunkid @ r) = Some (Call (Fs_mr_trunc inode indx chunkid))"
  by (simp add: log_trunc_def restore_change_take restore_cases_def do_trunc_def changelog_simps cast_back)

lemma read_write [read_back]:
  "\<not> digit_in 10 (at r) \<Longrightarrow>
   restore_change big (log_write inode indx opflag canmodmtime chunkid @ r) = Some (Call (Fs_mr_write inode indx opflag canmodmtime chunkid))"
  by (simp add: log_write_def restore_change_take restore_cases_def do_write_def changelog_simps cast_back)

lemma read_rollback [read_back]:
  "\<not> digit_in 10 (at r) \<Longrightarrow>
   restore_change big (log_rollback inode indx prevchunkid chunkid @ r) = Some (Call (Fs_mr_rollback inode indx prevchunkid chunkid))"
  by (simp add: log_rollback_def restore_change_take restore_cases_def do_rollback_def changelog_simps cast_back)

lemma read_unlock [read_back]:
  "\<not> digit_in 10 (at r) \<Longrightarrow>
   restore_change big (log_unlock chunkid @ r) = Some (Call (Fs_mr_unlock chunkid))"
  by (simp add: log_unlock_def restore_change_take restore_cases_def do_unlock_def changelog_simps cast_back)

lemma read_repair [read_back]:
  "\<not> digit_in 10 (at r) \<Longrightarrow>
   restore_change big (log_repair inode indx nversion @ r) = Some (Call (Fs_mr_repair inode indx nversion))"
  by (simp add: log_repair_def restore_change_take restore_cases_def do_repair_def changelog_simps cast_back)

lemma read_setfilechunk [read_back]:
  "\<not> digit_in 10 (at r) \<Longrightarrow>
   restore_change big (log_setfilechunk inode indx chunkid @ r) = Some (Call (Fs_mr_set_file_chunk inode indx chunkid))"
  by (simp add: log_setfilechunk_def restore_change_take restore_cases_def do_setfilechunk_def changelog_simps cast_back)

lemma read_emptytrash [read_back]:
  "\<not> digit_in 10 (at r) \<Longrightarrow>
   restore_change big (log_emptytrash bid fi si tfi ics @ r) = Some (Call (Fs_mr_emptytrash bid fi si tfi ics))"
  by (simp add: log_emptytrash_def restore_change_take restore_cases_def do_emptytrash_def changelog_simps cast_back)

lemma read_emptysustained [read_back]:
  "\<not> digit_in 10 (at r) \<Longrightarrow>
   restore_change big (log_emptysustained bid fi ics @ r) = Some (Call (Fs_mr_emptysustained bid fi ics))"
  by (simp add: log_emptysustained_def restore_change_take restore_cases_def do_emptysustained_def changelog_simps cast_back)

lemma read_freeinodes [read_back]:
  "\<not> digit_in 10 (at r) \<Longrightarrow>
   restore_change big (log_freeinodes inodereusedelay fi si ics @ r) = Some (Call (Fs_mr_freeinodes inodereusedelay fi si ics))"
  by (simp add: log_freeinodes_def restore_change_take restore_cases_def do_freeinodes_def changelog_simps cast_back)

lemma read_renumedges [read_back]:
  "\<not> digit_in 10 (at r) \<Longrightarrow>
   restore_change big (log_renumedges nextedgeid @ r) = Some (Call (Fs_mr_renumerate_edges nextedgeid))"
  by (simp add: log_renumedges_def restore_change_take restore_cases_def do_renumedges_def changelog_simps cast_back)

lemma read_quota [read_back]:
  "\<not> digit_in 10 (at r) \<Longrightarrow>
   restore_change big (log_quota inode exceeded flags stimestamp sinodes hinodes slength hlength ssize hsize srealsize hrealsize graceperiod @ r) = Some (Call (Fs_mr_quota inode exceeded flags stimestamp sinodes hinodes slength hlength ssize hsize srealsize hrealsize graceperiod))"
  by (simp add: log_quota_def restore_change_take restore_cases_def do_quota_def changelog_simps cast_back)

lemma read_seteattr [read_back]:
  "\<not> digit_in 10 (at r) \<Longrightarrow>
   restore_change big (log_seteattr inode uid eattr smode sinodes ncinodes nsinodes @ r) = Some (Call (Fs_mr_seteattr inode uid eattr smode sinodes ncinodes nsinodes))"
  by (simp add: log_seteattr_def restore_change_take restore_cases_def do_seteattr_def changelog_simps cast_back)

lemma read_setsclass [read_back]:
  "\<not> digit_in 10 (at r) \<Longrightarrow>
   restore_change big (log_setsclass inode uid src_sclassid dst_sclassid smode sinodes ncinodes nsinodes @ r) = Some (Call (Fs_mr_setsclass inode uid src_sclassid dst_sclassid smode sinodes ncinodes nsinodes))"
  by (simp add: log_setsclass_def restore_change_take restore_cases_def do_setsclass_def changelog_simps cast_back)

lemma read_settrashretention [read_back]:
  "\<not> digit_in 10 (at r) \<Longrightarrow>
   restore_change big (log_settrashretention inode uid trashretention smode sinodes ncinodes nsinodes @ r) = Some (Call (Fs_mr_settrashretention inode uid trashretention smode sinodes ncinodes nsinodes))"
  by (simp add: log_settrashretention_def restore_change_take restore_cases_def do_settrashretention_def changelog_simps cast_back)

lemma read_setxattr [read_back]:
  "\<lbrakk>name_ok attrname; \<not> digit_in 10 (at r)\<rbrakk> \<Longrightarrow>
   restore_change big (log_setxattr inode attrname attrvalue mode @ r) = Some (Call (Fs_mr_setxattr inode attrname attrvalue mode))"
  by (simp add: log_setxattr_def restore_change_take restore_cases_def do_setxattr_def changelog_simps cast_back)

lemma read_setacl [read_back]:
  "\<lbrakk>length aclblob = 6 * (unat namedusers + unat namedgroups); \<not> digit_in 10 (at r)\<rbrakk> \<Longrightarrow>
   restore_change big (log_setacl inode mode chg acltype userperm groupperm otherperm mask' namedusers namedgroups aclblob @ r) = Some (Call (Fs_mr_setacl inode mode chg acltype userperm groupperm otherperm mask' namedusers namedgroups aclblob))"
  by (simp add: log_setacl_def restore_change_take restore_cases_def do_setacl_def changelog_simps cast_back)

lemma read_snapshot [read_back]:
  "\<lbrakk>name_ok name \<and> gid \<noteq> []; \<not> digit_in 10 (at r)\<rbrakk> \<Longrightarrow>
   restore_change big (log_snapshot inode_src parent_dst name smode sesflags uid gid cumask inode_chksum removed same existing hardlinks new @ r) = Some (Call (Fs_mr_snapshot inode_src parent_dst name smode sesflags uid gid cumask inode_chksum removed same existing hardlinks new))"
  by (simp add: log_snapshot_def changelog_generate_gids_def snapshot_counters_def restore_change_take restore_cases_def do_snapshot_def changelog_simps cast_back)

lemma read_chunkadd [read_back]:
  "\<not> digit_in 10 (at r) \<Longrightarrow>
   restore_change big (log_chunkadd chunkid version lockedto @ r) = Some (Call (Chunk_mr_chunkadd chunkid version lockedto))"
  by (simp add: log_chunkadd_def restore_change_take restore_cases_def do_chunkadd_def changelog_simps cast_back)

lemma read_chunkdel [read_back]:
  "\<not> digit_in 10 (at r) \<Longrightarrow>
   restore_change big (log_chunkdel chunkid version @ r) = Some (Call (Chunk_mr_chunkdel chunkid version))"
  by (simp add: log_chunkdel_def restore_change_take restore_cases_def do_chunkdel_def changelog_simps cast_back)

lemma read_chunkflagsclr [read_back]:
  "\<not> digit_in 10 (at r) \<Longrightarrow>
   restore_change big (log_chunkflagsclr chunkid @ r) = Some (Call (Chunk_mr_flagsclr chunkid))"
  by (simp add: log_chunkflagsclr_def restore_change_take restore_cases_def do_chunkflagsclr_def changelog_simps cast_back)

lemma read_setversion [read_back]:
  "\<not> digit_in 10 (at r) \<Longrightarrow>
   restore_change big (log_setversion chunkid version @ r) = Some (Call (Chunk_mr_set_version chunkid version))"
  by (simp add: log_setversion_def restore_change_take restore_cases_def do_setversion_def changelog_simps cast_back)

lemma read_csdbop [read_back]:
  "\<not> digit_in 10 (at r) \<Longrightarrow>
   restore_change big (log_csdbop op ip port arg @ r) = Some (Call (Csdb_mr_op op ip port arg))"
  by (simp add: log_csdbop_def restore_change_take restore_cases_def do_csdbop_def changelog_simps cast_back)

lemma read_patadd [read_back]:
  "\<lbrakk>name_ok gname; \<not> digit_in 10 (at r)\<rbrakk> \<Longrightarrow>
   restore_change big (log_patadd gname euid egid priority omask scid trashretention seteattr clreattr @ r) = Some (Call (Patterns_mr_add gname euid egid priority omask scid trashretention seteattr clreattr))"
  by (simp add: log_patadd_def restore_change_take restore_cases_def do_patadd_def changelog_simps cast_back)

lemma read_patdel [read_back]:
  "\<lbrakk>name_ok gname; \<not> digit_in 10 (at r)\<rbrakk> \<Longrightarrow>
   restore_change big (log_patdel gname euid egid @ r) = Some (Call (Patterns_mr_delete gname euid egid))"
  by (simp add: log_patdel_def restore_change_take restore_cases_def do_patdel_def changelog_simps cast_back)

lemma read_setmetaid [read_back]:
  "\<not> digit_in 10 (at r) \<Longrightarrow>
   restore_change big (log_setmetaid metaid @ r) = Some (Call (Meta_mr_setmetaid metaid))"
  by (simp add: log_setmetaid_def restore_change_take restore_cases_def do_setmetaid_def changelog_simps cast_back)

lemma read_sesconnected [read_back]:
  "\<not> digit_in 10 (at r) \<Longrightarrow>
   restore_change big (log_sesconnected sessionid @ r) = Some (Call (Sessions_mr_connected sessionid))"
  by (simp add: log_sesconnected_def restore_change_take restore_cases_def do_sesconnected_def changelog_simps cast_back)

lemma read_sesdisconnected [read_back]:
  "\<not> digit_in 10 (at r) \<Longrightarrow>
   restore_change big (log_sesdisconnected sessionid @ r) = Some (Call (Sessions_mr_disconnected sessionid))"
  by (simp add: log_sesdisconnected_def restore_change_take restore_cases_def do_sesdisconnected_def changelog_simps cast_back)

lemma read_sesdel [read_back]:
  "\<not> digit_in 10 (at r) \<Longrightarrow>
   restore_change big (log_sesdel sessionid @ r) = Some (Call (Sessions_mr_sesdel sessionid))"
  by (simp add: log_sesdel_def restore_change_take restore_cases_def do_sesdel_def changelog_simps cast_back)

lemma read_scecversion [read_back]:
  "\<not> digit_in 10 (at r) \<Longrightarrow>
   restore_change big (log_scecversion version @ r) = Some (Call (Sclass_mr_ec_version version))"
  by (simp add: log_scecversion_def restore_change_take restore_cases_def do_scecversion_def changelog_simps cast_back)

lemma read_scdel [read_back]:
  "\<lbrakk>name_ok name; \<not> digit_in 10 (at r)\<rbrakk> \<Longrightarrow>
   restore_change big (log_scdel name sclassid @ r) = Some (Call (Sclass_mr_delete_entry name sclassid))"
  by (simp add: log_scdel_def restore_change_take restore_cases_def do_scdel_def changelog_simps cast_back)

lemma read_scdup [read_back]:
  "\<lbrakk>name_ok oldname \<and> name_ok newname; \<not> digit_in 10 (at r)\<rbrakk> \<Longrightarrow>
   restore_change big (log_scdup oldname newname fssclassid fdsclassid @ r) = Some (Call (Sclass_mr_duplicate_entry oldname newname fssclassid fdsclassid))"
  by (simp add: log_scdup_def restore_change_take restore_cases_def do_scdup_def changelog_simps cast_back)

lemma read_scren [read_back]:
  "\<lbrakk>name_ok oldname \<and> name_ok newname; \<not> digit_in 10 (at r)\<rbrakk> \<Longrightarrow>
   restore_change big (log_scren oldname newname sclassid @ r) = Some (Call (Sclass_mr_rename_entry oldname newname sclassid))"
  by (simp add: log_scren_def restore_change_take restore_cases_def do_scren_def changelog_simps cast_back)

lemma read_lock [read_back]: "restore_change big (lock_text e @ r) = Some (Call (Lock_mr e))"
  by (cases e) (simp_all add: restore_change_take restore_cases_def do_acquire_def do_release_def do_flock_def do_posixlock_def
      changelog_simps)

lemma read_idle [read_back]: "restore_change big (''IDLE()'' @ r) = Some (Call Meta_mr_idle)"
  by (simp add: restore_change_take restore_cases_def do_idle_def)

subsection \<open>Sessions\<close>

lemma octal3:
  assumes "n < 512"
  shows "replicate (3 - length (num 8 n)) (CHR ''0'') @ num 8 n = [digit_char (n div 64), digit_char (n div 8 mod 8), digit_char (n mod 8)]"
proof -
  have 1: "num 8 m = [digit_char m]" if "m < 8" for m using that by (simp add: num.simps)
  have 2: "num 8 m = num 8 (m div 8) @ [digit_char (m mod 8)]" if "\<not> m < 8" for m using that by (subst num.simps) simp
  consider "n < 8" | "8 \<le> n" "n < 64" | "64 \<le> n" by linarith
  then show ?thesis
  proof cases
    case 1
    then show ?thesis by (simp add: \<open>\<And>m. m < 8 \<Longrightarrow> num 8 m = [digit_char m]\<close> zero_digit numeral_3_eq_3)
  next
    case 2
    then have "n div 8 < 8" by simp
    with 2 show ?thesis
      by (simp add: \<open>\<And>m. \<not> m < 8 \<Longrightarrow> num 8 m = num 8 (m div 8) @ [digit_char (m mod 8)]\<close>
          \<open>\<And>m. m < 8 \<Longrightarrow> num 8 m = [digit_char m]\<close> zero_digit numeral_3_eq_3)
  next
    case 3
    then have "\<not> n div 8 < 8" "n div 8 div 8 < 8" "n div 8 div 8 = n div 64" using assms by (simp_all add: div_mult2_eq [symmetric])
    with 3 show ?thesis
      by (simp add: \<open>\<And>m. \<not> m < 8 \<Longrightarrow> num 8 m = num 8 (m div 8) @ [digit_char (m mod 8)]\<close>
          \<open>\<And>m. m < 8 \<Longrightarrow> num 8 m = [digit_char m]\<close>)
  qed
qed

lemma octal_value: "n div 64 * 64 + n div 8 mod 8 * 8 + n mod 8 = (n :: nat)"
proof -
  have "n div 64 * 64 + n div 8 mod 8 * 8 = (n div 8 div 8 * 8 + n div 8 mod 8) * 8"
    by (simp add: div_mult2_eq [symmetric])
  also have "\<dots> = n div 8 * 8" by simp
  finally show ?thesis by simp
qed

lemma code_digit_char: "d < 10 \<Longrightarrow> code (digit_char d) = 48 + d"
  by (simp add: digit_char_def)

lemma ses_umask_printed:
  assumes "(u :: u16) < 512"
  shows "ses_umask (CHR ''0'' # padded 8 3 u @ CHR '','' # r) = Some (u, r)"
proof -
  let ?n = "unat u"
  have n: "?n < 512" using assms by (simp add: word_less_nat_alt)
  then have d: "?n div 64 < 8" by (simp add: less_mult_imp_div_less)
  have "of_nat (?n div 64 * 64 + ?n div 8 mod 8 * 8 + ?n mod 8) = u" using octal_value [of ?n] by simp
  moreover have "padded 8 3 u = [digit_char (?n div 64), digit_char (?n div 8 mod 8), digit_char (?n mod 8)]"
    using octal3 [OF n] by (simp add: padded_def Let_def)
  moreover have m: "?n div 8 mod 8 < 8" "?n mod 8 < 8" by simp_all
  moreover from m d have "?n div 8 mod 8 < 10" "?n mod 8 < 10" "?n div 64 < 10" "\<not> 7 < ?n div 8 mod 8" "\<not> 7 < ?n mod 8"
    by linarith+
  ultimately show ?thesis using d by (simp add: ses_umask_def code_digit_char eat_def)
qed

lemma ses_csum_printed: "ses_csum (CHR ''#'' # dec x @ CHR '','' # r) = Some (x, r)"
  by (simp add: ses_csum_def changelog_simps)

lemma ses_groups_printed:
  assumes "\<not> digit_in 16 (at r)"
  shows "ses_groups (CHR ''0'' # CHR ''x'' # padded 16 4 (g :: u16) @ r) = Some (Some (ucast g), r)"
proof -
  have "\<not> (0xFFFF :: u32) < ucast g"
    using unsigned_less [of g, where ?'a = nat]
    by (simp add: word_less_nat_alt unsigned_ucast_eq not_less) (rule order_trans [OF take_bit_nat_less_eq_self], simp)
  with assms show ?thesis by (simp add: ses_groups_def changelog_simps)
qed

lemma ses_disables_printed:
  "ses_disables (CHR ''0'' # CHR ''x'' # padded 16 8 (d :: u32) @ CHR '','' # r) = Some (d, r)"
  by (simp add: ses_disables_def changelog_simps)

lemma ses_fields_printed:
  "sa_umask a < 512 \<Longrightarrow> ses_fields (session_text a @ r) call = call a (CHR '')'' # r)"
  by (cases a) (simp add: ses_fields_def session_text_def ses_csum_printed ses_umask_printed ses_groups_printed ses_disables_printed
      changelog_simps cast_back)

lemma read_sesadd [read_back]:
  "\<lbrakk>sa_umask a < 512; \<not> digit_in 10 (at r)\<rbrakk> \<Longrightarrow>
   restore_change big (log_sesadd a sessionid @ r) = Some (Call (Sessions_mr_sesadd a sessionid))"
  by (simp add: log_sesadd_def restore_change_take restore_cases_def do_sesadd_def ses_fields_printed changelog_simps)

lemma read_seschanged [read_back]:
  "sa_umask a < 512 \<Longrightarrow>
   restore_change big (log_seschanged sessionid a @ r) = Some (Call (Sessions_mr_seschanged sessionid a))"
  by (simp add: log_seschanged_def restore_change_take restore_cases_def do_seschanged_def ses_fields_printed changelog_simps)

subsection \<open>Storage classes\<close>

lemma hex_digit_at_end [simp]: "hex_digit (CHR '','') = None" "hex_digit (CHR '')'') = None"
  by (simp_all add: hex_digit_def)

lemma gethex_printed: "hex_digit (at r) = None \<Longrightarrow> gethex (concat (map byte_hex e) @ r) = (e, r)"
proof (induction e)
  case Nil
  then show ?case by (subst gethex.simps) simp
next
  case (Cons c e)
  then show ?case using code_less [of c] by (subst gethex.simps) (simp add: byte_hex_def [of c])
qed

text \<open>The rows of a mode, each with a comma before it instead of behind it.\<close>

definition rows_text :: "storagemode \<Rightarrow> string" where
  "rows_text m = concat (map (\<lambda>row. '','' @ concat (map byte_hex (cstr row))) (sm_labelexpr m))"

lemma comma_turn: "'','' @ concat (map (\<lambda>x. h x @ '','') xs) = concat (map (\<lambda>x. '','' @ h x) xs) @ '',''"
  by (induction xs) auto

lemma comma_front:
  assumes "xs \<noteq> []"
  shows "CHR '','' # butlast (concat (map (\<lambda>x. h x @ '','') xs)) = concat (map (\<lambda>x. '','' @ h x) xs)"
proof -
  let ?s = "concat (map (\<lambda>x. h x @ '','') xs)"
  have "?s \<noteq> []" using assms by (cases xs) simp_all
  then have "CHR '','' # butlast ?s = butlast ('','' @ ?s)" by simp
  also have "\<dots> = concat (map (\<lambda>x. '','' @ h x) xs)" unfolding comma_turn by simp
  finally show ?thesis .
qed

lemma scset_rows_printed:
  "\<lbrakk>list_all (\<lambda>row. row = expr_row (cstr row) \<and> length (cstr row) \<le> SCLASS_EXPR_MAX_SIZE) rows; hex_digit (at r) = None\<rbrakk> \<Longrightarrow>
   scset_rows (length rows) (concat (map (\<lambda>row. '','' @ concat (map byte_hex (cstr row))) rows) @ r) call = call rows r"
proof (induction rows arbitrary: call)
  case (Cons row rows)
  let ?p = "concat (map (\<lambda>row. '','' @ concat (map byte_hex (cstr row))) rows) @ r"
  have "hex_digit (at ?p) = None" using Cons.prems(2) by (cases rows) simp_all
  then have "gethex (concat (map byte_hex (cstr row)) @ ?p) = (cstr row, ?p)" by (rule gethex_printed)
  with Cons show ?case by (simp add: Let_def)
qed simp


lemma scset_labels_printed:
  assumes "mode_ok ec m" "hex_digit (at r) = None"
  shows "scset_labels (m\<lparr>sm_labelexpr := xs\<rparr>) (rows_text m @ r) call = call m r"
  using assms scset_rows_printed [of "sm_labelexpr m" r "\<lambda>rows p. call (m\<lparr>sm_labelexpr := rows\<rparr>) p"]
  by (simp add: scset_labels_def mode_ok_def rows_text_def)

lemma scset_mode_printed:
  assumes "mode_ok ec m"
  shows "scset_mode letter ec (mode_text letter ec m @ r) = Some (m\<lparr>sm_labelexpr := []\<rparr>, r)"
  using assms by (cases m; cases ec) (simp_all add: scset_mode_def mode_text_def sm_init_def mode_ok_def changelog_simps)

lemma scset_desc_printed:
  "name_ok desc \<Longrightarrow>
   scset_desc (''1,'' @ changelog_escape_name desc @ '','' @ dec priority @ '','' @ dec egroup @ '','' @ r) =
     Some (True, desc, priority, egroup, r)"
  by (simp add: scset_desc_def changelog_simps)

lemma scset_arch_printed:
  "scset_arch (''('' @ dec mode @ '':'' @ dec delay @ '':'' @ dec minsize @ '')'' @ r) = Some (mode, delay, minsize, r)"
  by (simp add: scset_arch_def changelog_simps)

text \<open>The list of all label expressions.\<close>

lemma all_rows_text:
  assumes "concat (map sclass_make_changelog_mode ms) \<noteq> []"
  shows "CHR '','' # butlast (concat (map sclass_make_changelog_mode ms)) = concat (map rows_text ms)"
proof -
  let ?h = "\<lambda>row. concat (map byte_hex (cstr row))"
  have 1: "concat (map sclass_make_changelog_mode ms) = concat (map (\<lambda>row. ?h row @ '','') (concat (map sm_labelexpr ms)))"
    by (induction ms) (simp_all add: sclass_make_changelog_mode_def)
  have 2: "concat (map rows_text ms) = concat (map (\<lambda>row. '','' @ ?h row) (concat (map sm_labelexpr ms)))"
    by (induction ms) (simp_all add: rows_text_def)
  have "concat (map sm_labelexpr ms) \<noteq> []"
  proof
    assume "concat (map sm_labelexpr ms) = []"
    with assms show False unfolding 1 by (simp only: list.map concat.simps simp_thms)
  qed
  then show ?thesis unfolding 1 2 by (rule comma_front)
qed

lemma no_rows:
  "(concat (map sclass_make_changelog_mode ms) = []) = (\<forall>m\<in>set ms. sm_labelexpr m = [])"
  by (auto simp: sclass_make_changelog_mode_def)

lemma mode_ok_none: "mode_ok ec m \<Longrightarrow> sm_labelexpr m = [] \<longleftrightarrow> sm_labelscnt m = 0"
  by (auto simp: mode_ok_def unat_eq_0)

lemma hex_digit_rows [simp]: "hex_digit (at r) = None \<Longrightarrow> hex_digit (at (rows_text m @ r)) = None"
  by (cases "sm_labelexpr m") (simp_all add: rows_text_def)

lemma scset_all_labels:
  assumes "mode_ok False c" "mode_ok False k" "mode_ok True a" "mode_ok True t" "hex_digit (at r) = None"
  shows "scset_labels (c\<lparr>sm_labelexpr := []\<rparr>) (rows_text c @ rows_text k @ rows_text a @ rows_text t @ r) (\<lambda>create p.
     scset_labels (k\<lparr>sm_labelexpr := []\<rparr>) p (\<lambda>keep p. scset_labels (a\<lparr>sm_labelexpr := []\<rparr>) p (\<lambda>arch p.
       scset_labels (t\<lparr>sm_labelexpr := []\<rparr>) p (\<lambda>trash p. call create keep arch trash p)))) = call c k a t r"
  using assms by (simp add: scset_labels_printed)

lemmas scset_parts = scset_desc_printed [simplified] scset_arch_printed [simplified] scset_mode_printed

lemma scset_new_printed:
  assumes ok: "sclass_ok a"
    and s: "s = concat (map sclass_make_changelog_mode [sc_create a, sc_keep a, sc_arch a, sc_trash a])"
  shows "scset_new (''1,'' @ changelog_escape_name (sc_desc a) @ '','' @
         dec (sc_priority a) @ '','' @ dec (sc_export_group a) @ '','' @ mode_text (CHR ''C'') False (sc_create a) @ '','' @
         mode_text (CHR ''K'') False (sc_keep a) @ '','' @ mode_text (CHR ''A'') True (sc_arch a) @ '','' @
         mode_text (CHR ''T'') True (sc_trash a) @ '','' @ dec (sc_labels_mode a) @ '',('' @ dec (sc_arch_mode a) @ '':'' @
         dec (sc_arch_delay a) @ '':'' @ dec (sc_arch_min_size a) @ ''),'' @ dec (sc_min_trashretention a) @ '','' @
         dec (sc_admin_only a) @ '','' @ (if s = [] then ''-'' else butlast s) @ '')'' @ r) call = call True a (CHR '')'' # r)"
proof -
  from ok have modes: "mode_ok False (sc_create a)" "mode_ok False (sc_keep a)" "mode_ok True (sc_arch a)" "mode_ok True (sc_trash a)"
    and desc: "name_ok (sc_desc a)" by (simp_all add: sclass_ok_def)
  then have few: "\<not> MAXLABELSCNT < unat (sm_labelscnt (sc_create a))" "\<not> MAXLABELSCNT < unat (sm_labelscnt (sc_keep a))"
      "\<not> MAXLABELSCNT < unat (sm_labelscnt (sc_arch a))" "\<not> MAXLABELSCNT < unat (sm_labelscnt (sc_trash a))"
    by (simp_all add: mode_ok_def)
  have none: "s = [] \<longleftrightarrow> sm_labelscnt (sc_create a) = 0 \<and> sm_labelscnt (sc_keep a) = 0 \<and> sm_labelscnt (sc_arch a) = 0 \<and>
      sm_labelscnt (sc_trash a) = 0"
    unfolding s no_rows using modes mode_ok_none by auto
  show ?thesis
  proof (cases "s = []")
    case True
    with none have zero: "sm_labelscnt (sc_create a) = 0" "sm_labelscnt (sc_keep a) = 0" "sm_labelscnt (sc_arch a) = 0"
      "sm_labelscnt (sc_trash a) = 0" by blast+
    then have "sm_labelexpr (sc_create a) = []" "sm_labelexpr (sc_keep a) = []" "sm_labelexpr (sc_arch a) = []"
      "sm_labelexpr (sc_trash a) = []" using modes mode_ok_none by blast+
    then have "(sc_create a)\<lparr>sm_labelexpr := []\<rparr> = sc_create a" "(sc_keep a)\<lparr>sm_labelexpr := []\<rparr> = sc_keep a"
      "(sc_arch a)\<lparr>sm_labelexpr := []\<rparr> = sc_arch a" "(sc_trash a)\<lparr>sm_labelexpr := []\<rparr> = sc_trash a" by simp_all
    with True zero modes desc show ?thesis
      by (simp add: scset_new_def scset_parts changelog_simps) (cases a, simp)
  next
    case False
    then have rows: "CHR '','' # butlast s = rows_text (sc_create a) @ rows_text (sc_keep a) @ rows_text (sc_arch a) @ rows_text (sc_trash a)"
      using all_rows_text [of "[sc_create a, sc_keep a, sc_arch a, sc_trash a]"] unfolding s by simp
    let ?R = "rows_text (sc_create a) @ rows_text (sc_keep a) @ rows_text (sc_arch a) @ rows_text (sc_trash a) @ CHR '')'' # r"
    have line: "CHR '','' # butlast s @ CHR '')'' # r = ?R"
      using arg_cong [OF rows, of "\<lambda>t. t @ CHR '')'' # r"] by simp
    then have "\<not> digit_in 10 (at ?R)" by (metis at.simps(2) digit_in_simps(2))
    moreover from False none have "\<not> (sm_labelscnt (sc_create a) = 0 \<and> sm_labelscnt (sc_keep a) = 0 \<and>
        sm_labelscnt (sc_arch a) = 0 \<and> sm_labelscnt (sc_trash a) = 0)" by blast
    ultimately show ?thesis using False modes desc few
      by (simp add: scset_new_def scset_parts changelog_simps line scset_all_labels) (cases a, auto)
  qed
qed

lemma read_scset [read_back]:
  assumes "name_ok name" "sclass_ok a" "\<not> digit_in 10 (at r)"
  shows "restore_change big (sclass_make_changelog name sclassid new_flag a @ r) =
    Some (Call (Sclass_mr_set_entry name sclassid new_flag a))"
proof -
  define s where "s = concat (map sclass_make_changelog_mode [sc_create a, sc_keep a, sc_arch a, sc_trash a])"
  define chlogstr where "chlogstr = (if s = [] then ''-'' else butlast s)"
  note new = scset_new_printed [OF assms(2) s_def, folded chlogstr_def, simplified]
  note line = sclass_make_changelog_def [of name sclassid new_flag a, folded s_def, unfolded Let_def, folded chlogstr_def]
  show ?thesis using assms unfolding line
    by (simp add: restore_change_take restore_cases_def do_scset_def changelog_simps new)
qed

subsection \<open>All lines\<close>

lemma change_text_read_back:
  "\<lbrakk>loggable c; \<not> digit_in 10 (at r)\<rbrakk> \<Longrightarrow> restore_change big (change_text c @ r) = Some (Call c)"
  by (cases c) (simp_all add: read_back read_idle [simplified])

lemma changelog_line_read:
  assumes "loggable c" "length (dec ts @ ''|'' @ change_text c) < MAXLOGLINESIZE" "r \<in> {[], [CHR 0x0A]}"
  shows "restore_line big (change_line ts c @ r) = Some (ts, Call c)"
proof -
  have "change_line ts c = dec ts @ ''|'' @ change_text c"
    using assms(2) by (simp add: change_line_def)
  moreover have "\<not> digit_in 10 (at r)" using assms(3) by auto
  ultimately show ?thesis using change_text_read_back [OF assms(1)] by (simp add: restore_line_def changelog_simps)
qed

text \<open>
  C25. Printing and reading the changelog: for every change that the modules of the master log (about sixty kinds, with
  names, paths, data, label expressions and numbers of all widths), \<^verbatim>\<open>restore_line\<close> reads the line that
  \<^verbatim>\<open>changelog\<close> made of it, with or without a newline at its end, and calls the function that repeats the
  change with exactly the arguments that were logged and the time of the change. The line must fit the buffer.
\<close>

theorem changelog_roundtrip:
  assumes "loggable c" "length (dec ts @ ''|'' @ change_text c) < MAXLOGLINESIZE" "r \<in> {[], [CHR 0x0A]}"
  shows "restore_line big (change_line ts c @ r) = Some (ts, Call c)"
  using assms by (rule changelog_line_read)

theorem changelog_roundtrip_witness:
  "restore_line False (change_line 7 (Fs_mr_unlink 1 ''a,b'' 12) @ [CHR 0x0A]) = Some (7, Call (Fs_mr_unlink 1 ''a,b'' 12))"
  by (rule changelog_roundtrip)
    (simp_all add: name_ok_def log_unlink_def dec_def num.simps must_escape_def)

end
