(* ===== verification/Changelog_Errors.thy ===== *)
theory Changelog_Errors
  imports Changelog_Roundtrip Flock_Locks Posix_Locks "HOL-Library.Sublist"
begin

text \<open>
  Lines that are not complete: whatever \<^verbatim>\<open>restore_line\<close> does with a line that was cut before its closing
  parenthesis (an unknown keyword, a syntax error, reading over its end), it changes nothing. The proofs
  follow the \<^verbatim>\<open>do_...\<close> functions macro by macro.
\<close>

subsection \<open>Open lines\<close>

definition unclosed_line :: "string \<Rightarrow> bool" where
  "unclosed_line p \<longleftrightarrow> CHR '')'' \<notin> set p"

text \<open>The change of a lock that is refused by the lock manager on every table.\<close>

definition lock_refused :: "mr_call \<Rightarrow> bool" where
  "lock_refused call \<longleftrightarrow>
     (\<exists>i s own c. call = Lock_mr (FLOCK i s own c) \<and>
        (\<forall>tab. flock_mr_change tab i s own c = (MFS_ERROR_EINVAL, tab, []))) \<or>
     (\<exists>i s own c b e pid. call = Lock_mr (POSIXLOCK i s own c b e pid) \<and>
        (\<forall>tab. posix_lock_mr_change tab i s own c b e pid = (MFS_ERROR_EINVAL, tab, [])))"

text \<open>
  A return without any effect: no call is made; or the line is read over its end, and whatever stands there, no call is made but
  one that is refused. Undefined behaviour does not count.
\<close>

definition quiet :: "mr_return option \<Rightarrow> bool" where
  "quiet x = (case x of
     None \<Rightarrow> True
   | Some (Return status) \<Rightarrow> True
   | Some (Behind f) \<Rightarrow> (\<forall>q. f q = None \<or> (\<exists>c. f q = Some (Call c) \<and> lock_refused c))
   | Some (Call c) \<Rightarrow> False
   | Some Undefined \<Rightarrow> False)"

named_theorems open_intros \<open>the macros on open lines\<close>

lemma quiet_simps [open_intros]: "quiet None" "quiet (Some (Return s))"
  by (simp_all add: quiet_def)

lemma quiet_if [open_intros]: "\<lbrakk>b \<Longrightarrow> quiet x; \<not> b \<Longrightarrow> quiet y\<rbrakk> \<Longrightarrow> quiet (if b then x else y)"
  by simp

lemma open_tl: "unclosed_line p \<Longrightarrow> unclosed_line (tl p)"
  by (cases p) (simp_all add: unclosed_line_def)

lemma open_drop: "unclosed_line p \<Longrightarrow> unclosed_line (drop n p)"
  unfolding unclosed_line_def by (meson in_set_dropD)

lemma quiet_eat_close [open_intros]: "unclosed_line p \<Longrightarrow> quiet (eat (CHR '')'') p \<bind> f)"
  by (cases p) (auto simp: unclosed_line_def eat_def quiet_simps)

lemma quiet_eat [open_intros]:
  "\<lbrakk>unclosed_line p; \<And>q. unclosed_line q \<Longrightarrow> quiet (f q)\<rbrakk> \<Longrightarrow> quiet (eat c p \<bind> f)"
  by (simp add: eat_def open_tl quiet_simps)

text \<open>A macro keeps lines open when the rest of an open line is open.\<close>

definition keeps_open :: "(string \<Rightarrow> ('a \<times> string) option) \<Rightarrow> bool" where
  "keeps_open get \<longleftrightarrow> (\<forall>p v q. unclosed_line p \<longrightarrow> get p = Some (v, q) \<longrightarrow> unclosed_line q)"

lemma keeps_openI: "(\<And>p v q. get p = Some (v, q) \<Longrightarrow> set q \<subseteq> set p) \<Longrightarrow> keeps_open get"
  unfolding keeps_open_def unclosed_line_def by blast

lemma quiet_get:
  assumes "keeps_open get" "unclosed_line p" "\<And>v q. unclosed_line q \<Longrightarrow> quiet (f (v, q))"
  shows "quiet (get p \<bind> f)"
  using assms by (cases "get p") (auto simp: keeps_open_def quiet_simps)

lemma num_val_rest: "num_val base acc p = (v, q) \<Longrightarrow> set q \<subseteq> set p"
  by (induction base acc p rule: num_val.induct) (auto split: option.splits if_splits)

lemma skip_sign_rest: "set (snd (skip_sign p)) \<subseteq> set p"
  by (cases p) auto

lemma set_tl: "set (tl p) \<subseteq> set p"
  by (cases p) auto

lemma skip_0x_rest: "set (skip_0x base p) \<subseteq> set p"
  unfolding skip_0x_def using set_tl [of p] set_tl [of "tl p"] by auto

lemma strtoul_rest: "strtoul base p = (v, q) \<Longrightarrow> set q \<subseteq> set p"
proof -
  assume str: "strtoul base p = (v, q)"
  obtain neg t where s: "skip_sign (dropWhile isspace p) = (neg, t)" by fastforce
  obtain w r where n: "num_val base 0 (skip_0x base t) = (w, r)" by fastforce
  have "set t \<subseteq> set p" using skip_sign_rest [of "dropWhile isspace p"] s set_dropWhileD by fastforce
  moreover have "set r \<subseteq> set t" using num_val_rest [OF n] skip_0x_rest [of base t] by blast
  ultimately show ?thesis using str by (auto simp: strtoul_def s n split: if_splits)
qed

lemma keeps_open_numbers: "keeps_open getu8" "keeps_open getu16" "keeps_open getu32" "keeps_open getx32" "keeps_open getu64"
  by (rule keeps_openI, auto simp: getu8_def getu16_def getu32_def getx32_def getu64_def Let_def
      split: prod.splits if_splits dest: strtoul_rest)+

lemma getbyte_rest: "getbyte p = Some (c, q) \<Longrightarrow> set q \<subseteq> set p"
  using set_tl [of p] set_tl [of "tl p"] set_tl [of "tl (tl p)"]
  by (auto simp: getbyte_def split: if_splits option.splits)

lemma getdata_step:
  "getdata c p = Some (s, q) \<Longrightarrow> q = p \<or> (\<exists>x p' s'. getbyte p = Some (x, p') \<and> getdata c p' = Some (s', q))"
  by (subst (asm) getdata.simps) (auto split: if_splits option.splits prod.splits)

lemma getname_loop_step:
  "getname_loop c i p = Some (s, q) \<Longrightarrow> q = p \<or> (\<exists>x p' s'. getbyte p = Some (x, p') \<and> getname_loop c (i + 1) p' = Some (s', q))"
  by (subst (asm) getname_loop.simps) (auto split: if_splits option.splits prod.splits)

lemma getarray_loop_step:
  assumes "getarray_loop p = Some (vs, q)"
  shows "q = tl p \<or> (\<exists>p' vs'. length p' < length p \<and> set p' \<subseteq> set p \<and> getarray_loop p' = Some (vs', q))"
proof (cases "48 \<le> code (at p) \<and> code (at p) \<le> 57")
  case True
  obtain v r where r: "strtoul 10 p = (v, r)" by fastforce
  then have "length r < length p" "set r \<subseteq> set p" using True strtoul_shorter strtoul_rest by blast+
  moreover have "q = tl p \<or> (\<exists>vs'. getarray_loop r = Some (vs', q))"
    using assms True r by (subst (asm) getarray_loop.simps) (auto split: if_splits option.splits prod.splits)
  ultimately show ?thesis by blast
next
  case False
  then have "q = tl p \<or> at p \<noteq> NUL \<and> getarray_loop (tl p) = Some (vs, q)"
    using assms by (subst (asm) getarray_loop.simps) (auto split: if_splits)
  then show ?thesis using set_tl [of p] tl_shorter [of p] by (metis One_nat_def length_tl)
qed

lemma getdata_rest: "getdata c p = Some (s, q) \<Longrightarrow> set q \<subseteq> set p"
proof (induction p arbitrary: s rule: measure_induct_rule [of length])
  case (less p)
  then show ?case using getdata_step [OF less.prems] getbyte_shorter getbyte_rest by blast
qed

lemma getname_loop_rest: "getname_loop c i p = Some (s, q) \<Longrightarrow> set q \<subseteq> set p"
proof (induction p arbitrary: s i rule: measure_induct_rule [of length])
  case (less p)
  then show ?case using getname_loop_step [OF less.prems] getbyte_shorter getbyte_rest by blast
qed

lemma getarray_loop_rest: "getarray_loop p = Some (vs, q) \<Longrightarrow> set q \<subseteq> set p"
proof (induction p arbitrary: vs rule: measure_induct_rule [of length])
  case (less p)
  then show ?case using getarray_loop_step [OF less.prems] set_tl [of p] by blast
qed

lemma keeps_open_data: "keeps_open (getname c)" "keeps_open (getpath c)" "keeps_open (getdata c)"
  by (rule keeps_openI, fastforce simp: getname_def getpath_def split: option.splits prod.splits
      dest: getdata_rest getname_loop_rest)+

lemma keeps_open_array: "keeps_open getarrayu32"
  by (rule keeps_openI)
    (use set_tl in \<open>fastforce simp: getarrayu32_def split: if_splits dest: getarray_loop_rest\<close>)

lemmas keeps_open_rules = keeps_open_numbers keeps_open_data keeps_open_array

lemma quiet_if_bind: "\<lbrakk>b \<Longrightarrow> quiet (x \<bind> f); \<not> b \<Longrightarrow> quiet (y \<bind> f)\<rbrakk> \<Longrightarrow> quiet ((if b then x else y) \<bind> f)"
  by simp

lemma quiet_bind_bind: "quiet (x \<bind> (\<lambda>v. g v \<bind> f)) \<Longrightarrow> quiet ((x \<bind> g) \<bind> f)"
  by (simp only: Option.bind_assoc)

lemma quiet_Some: "quiet (f v) \<Longrightarrow> quiet (Some v \<bind> f)" "quiet (None \<bind> f)"
  by (simp_all add: quiet_simps)

lemma quiet_Let: "quiet (f v) \<Longrightarrow> quiet (Let v f)"
  by simp

lemma quiet_Let_bind: "quiet (f v \<bind> g) \<Longrightarrow> quiet (Let v f \<bind> g)"
  by simp

lemma quiet_option: "\<lbrakk>quiet x; \<And>v. quiet (f v)\<rbrakk> \<Longrightarrow> quiet (case y of None \<Rightarrow> x | Some v \<Rightarrow> f v)"
  by (simp split: option.splits)

lemma gethex_step:
  "gethex p = (s, q) \<Longrightarrow> q = p \<or> q = tl p \<or> (\<exists>s'. length (tl (tl p)) < length p \<and> gethex (tl (tl p)) = (s', q))"
  by (subst (asm) gethex.simps) (auto split: option.splits prod.splits intro: hex_shorter)

lemma gethex_rest: "gethex p = (s, q) \<Longrightarrow> set q \<subseteq> set p"
proof (induction p arbitrary: s rule: measure_induct_rule [of length])
  case (less p)
  then show ?case using gethex_step [OF less.prems] set_tl [of p] set_tl [of "tl p"] by blast
qed

lemma quiet_gethex:
  "\<lbrakk>unclosed_line p; \<And>s q. unclosed_line q \<Longrightarrow> quiet (f s q)\<rbrakk> \<Longrightarrow> quiet (case gethex p of (s, q) \<Rightarrow> f s q)"
  using gethex_rest [of p] by (cases "gethex p") (auto simp: unclosed_line_def)

lemma keeps_open_masks: "keeps_open (scset_masks n)"
proof (induction n)
  case (Suc n)
  show ?case unfolding keeps_open_def
  proof (intro allI impI)
    fix p v q assume p: "unclosed_line p" and "scset_masks (Suc n) p = Some (v, q)"
    then obtain p1 m p2 ms where "eat (CHR '','') p = Some p1" and u: "getu32 p1 = Some (m, p2)"
      and ms: "scset_masks n p2 = Some (ms, q)"
      by (fastforce simp: Option.bind_eq_Some_conv)
    with p have "unclosed_line p1" by (auto simp: eat_def open_tl split: if_splits)
    with u have "unclosed_line p2" using keeps_open_numbers(3) unfolding keeps_open_def by blast
    with ms Suc show "unclosed_line q" unfolding keeps_open_def by blast
  qed
qed (simp add: keeps_open_def)

lemmas quiet_rules = quiet_eat_close quiet_if_bind quiet_bind_bind quiet_Some quiet_Let quiet_Let_bind quiet_option
  quiet_gethex quiet_eat quiet_get quiet_if quiet_simps keeps_open_rules keeps_open_masks open_tl open_drop

lemma quiet_rows:
  "\<lbrakk>unclosed_line p; \<And>rows q. unclosed_line q \<Longrightarrow> quiet (call rows q)\<rbrakk> \<Longrightarrow> quiet (scset_rows n p call)"
  by (induction n arbitrary: p call) (simp, simp only: scset_rows.simps, (simp only: prod.case | rule quiet_rules | assumption)+)

lemma quiet_labels:
  "\<lbrakk>unclosed_line p; \<And>m q. unclosed_line q \<Longrightarrow> quiet (call m q)\<rbrakk> \<Longrightarrow> quiet (scset_labels sm p call)"
  unfolding scset_labels_def by (rule quiet_rows)

lemma quiet_do:
  assumes "unclosed_line p"
  shows "quiet (do_idle p)"
    "quiet (do_access p)"
    "quiet (do_addattr p)"
    "quiet (do_append p)"
    "quiet (do_archchg p)"
    "quiet (do_amtime p)"
    "quiet (do_autoarch p)"
    "quiet (do_attr p)"
    "quiet (do_link p)"
    "quiet (do_length p)"
    "quiet (do_move p)"
    "quiet (do_symlink p)"
    "quiet (do_unlink p)"
    "quiet (do_undel p)"
    "quiet (do_purge p)"
    "quiet (do_setpath p)"
    "quiet (do_trash_recover p)"
    "quiet (do_trash_remove p)"
    "quiet (do_trunc p)"
    "quiet (do_write p)"
    "quiet (do_rollback p)"
    "quiet (do_unlock p)"
    "quiet (do_repair p)"
    "quiet (do_setfilechunk p)"
    "quiet (do_emptytrash p)"
    "quiet (do_emptysustained p)"
    "quiet (do_freeinodes p)"
    "quiet (do_renumedges p)"
    "quiet (do_quota p)"
    "quiet (do_seteattr p)"
    "quiet (do_setgoal p)"
    "quiet (do_setsclass p)"
    "quiet (do_settrashretention p)"
    "quiet (do_setxattr p)"
    "quiet (do_setacl p)"
    "quiet (do_snapshot big p)"
    "quiet (do_chunkadd p)"
    "quiet (do_chunkdel p)"
    "quiet (do_chunkflagsclr p)"
    "quiet (do_incversion p)"
    "quiet (do_setversion p)"
    "quiet (do_nextchunkid p)"
    "quiet (do_csdbop p)"
    "quiet (do_csadd p)"
    "quiet (do_csdel p)"
    "quiet (do_patadd p)"
    "quiet (do_patdel p)"
    "quiet (do_setmetaid p)"
    "quiet (do_acquire p)"
    "quiet (do_release p)"
    "quiet (do_session p)"
    "quiet (do_sesdel p)"
    "quiet (do_sesconnected p)"
    "quiet (do_sesdisconnected p)"
    "quiet (do_scecon p)"
    "quiet (do_scecversion p)"
    "quiet (do_scdel p)"
    "quiet (do_scdup p)"
    "quiet (do_scren p)"
    "quiet (do_scset p)"
  unfolding do_idle_def do_access_def do_addattr_def do_append_def do_archchg_def do_amtime_def
    do_autoarch_def do_attr_def do_link_def do_length_def do_move_def do_symlink_def do_unlink_def
    do_undel_def do_purge_def do_setpath_def do_trash_recover_def do_trash_remove_def do_trunc_def
    do_write_def do_rollback_def do_unlock_def do_repair_def do_setfilechunk_def do_emptytrash_def
    do_emptysustained_def do_freeinodes_def do_renumedges_def do_quota_def do_seteattr_def do_setgoal_def
    do_setsclass_def do_settrashretention_def do_setxattr_def do_setacl_def do_snapshot_def do_chunkadd_def
    do_chunkdel_def do_chunkflagsclr_def do_incversion_def do_setversion_def do_nextchunkid_def
    do_csdbop_def do_csadd_def do_csdel_def do_patadd_def do_patdel_def do_setmetaid_def do_acquire_def
    do_release_def do_session_def do_sesdel_def do_sesconnected_def do_sesdisconnected_def do_scecon_def
    do_scecversion_def do_scdel_def do_scdup_def do_scren_def do_scset_def
    snapshot_counters_def
    scset_old_def scset_new_def scset_mask_labels_def scset_mode_def scset_desc_def scset_arch_def
  by (insert assms) (simp only: prod.case | rule quiet_labels quiet_rules | assumption)+

subsection \<open>Locks\<close>

text \<open>Cut before its letter, the line of a lock is read over its end; the letter is then NUL.\<close>

lemma quiet_Behind:
  "(\<And>q. f q = None \<or> (\<exists>c. f q = Some (Call c) \<and> lock_refused c)) \<Longrightarrow> quiet (Some (Behind f))"
  by (simp add: quiet_def)

lemma nul_refused:
  "lock_refused (Lock_mr (FLOCK i s own NUL))" "lock_refused (Lock_mr (POSIXLOCK i s own NUL b e pid))"
  by (simp_all add: lock_refused_def flock_mr_change_def flock_mr_type_def posix_lock_mr_change_def posix_mr_type_def)

lemma quiet_letter:
  assumes "unclosed_line p" "\<And>q. unclosed_line q \<Longrightarrow> quiet (f q)"
    and "at p = NUL \<Longrightarrow> \<forall>q. f q = None \<or> (\<exists>c. f q = Some (Call c) \<and> lock_refused c)"
  shows "quiet (if p = [] then Some (Behind f) else f (tl p))"
  using assms quiet_Behind [of f] open_tl by auto

lemma quiet_flock: "unclosed_line p \<Longrightarrow> quiet (do_flock p)"
  unfolding do_flock_def Let_def
  by (simp only: prod.case | rule quiet_eat_close quiet_eat quiet_get keeps_open_rules quiet_letter | assumption)+
    (auto simp: eat_def nul_refused)

lemma quiet_posixlock: "unclosed_line p \<Longrightarrow> quiet (do_posixlock p)"
  unfolding do_posixlock_def Let_def
  by (simp only: prod.case | rule quiet_eat_close quiet_eat quiet_get keeps_open_rules quiet_letter | assumption)+
    (auto simp: eat_def getu64_def getu32_def nul_refused split: prod.splits)

subsection \<open>Changed sessions\<close>

text \<open>
  The line of a changed session, cut anywhere, is never taken for one in the old format, in which a range of goals may be too wide
  for a shift. The proof follows the cut line, a prefix of the printed one.
\<close>

definition cut_of :: "string \<Rightarrow> string \<Rightarrow> bool" where
  "cut_of l p \<longleftrightarrow> prefix p l \<and> unclosed_line p"

lemma cut_Nil [simp]: "cut_of l []"
  by (simp add: cut_of_def unclosed_line_def)

lemma cut_Cons [simp]: "cut_of (c # l) (d # p) \<longleftrightarrow> c = d \<and> d \<noteq> CHR '')'' \<and> cut_of l p"
  by (auto simp: cut_of_def unclosed_line_def)

lemma quiet_eat_cut:
  assumes "cut_of (c # l) p" "c \<noteq> NUL" "\<And>q. cut_of l q \<Longrightarrow> quiet (f q)"
  shows "quiet (eat c p \<bind> f)"
  using assms by (cases p) (auto simp: eat_def quiet_simps)

lemma num_val_digits: "\<lbrakk>digits base p; base \<le> 16\<rbrakk> \<Longrightarrow> snd (num_val base acc p) = []"
proof (induction p arbitrary: acc)
  case (Cons c p)
  then obtain d where "d < base" "c = digit_char d" "digits base p" by (auto simp: digits_def)
  with Cons show ?case by simp
qed simp

lemma strtoul_cut:
  fixes x :: "'a :: len word"
  assumes "prefix p (dec x @ r)" "\<not> digit_in 10 (at r)" "strtoul 10 p = (v, q)" "LENGTH('a) \<le> 64"
  shows "prefix q r"
  using assms(1) unfolding prefix_append
proof
  assume p: "prefix p (dec x)"
  have "digits 10 (dec x)" unfolding dec_def by (rule num_digits) simp_all
  with p have d: "digits 10 p" using set_mono_prefix by (fastforce simp: digits_def)
  show ?thesis
  proof (cases "p = []")
    case True
    with assms(3) show ?thesis by (simp add: strtoul_def skip_0x_def)
  next
    case False
    have "snd (num_val 10 0 p) = []" using num_val_digits [OF d] by simp
    with assms(3) False digits_start [OF d False, of "[]"] show ?thesis
      by (auto simp: strtoul_def split: prod.splits if_splits)
  qed
next
  assume "\<exists>us. p = dec x @ us \<and> prefix us r"
  then obtain us where us: "p = dec x @ us" "prefix us r" by blast
  then have "\<not> digit_in 10 (at us)" using assms(2) by (cases us; cases r) (auto simp: digit_in_def digit_val_def)
  with us assms(3,4) show ?thesis using strtoul_dec [of us x] by simp
qed

lemma quiet_number_cut:
  fixes x :: "'a :: len word"
  assumes "cut_of (dec x @ CHR '','' # l) p" "LENGTH('a) \<le> 64"
  shows "(\<And>v q. cut_of (CHR '','' # l) q \<Longrightarrow> quiet (f (v, q))) \<Longrightarrow> quiet (getu32 p \<bind> f)"
    and "(\<And>v q. cut_of (CHR '','' # l) q \<Longrightarrow> quiet (g (v, q))) \<Longrightarrow> quiet (getu64 p \<bind> g)"
proof -
  obtain v q where p: "strtoul 10 p = (v, q)" by fastforce
  have "\<not> digit_in 10 (at (CHR '','' # l))" by (simp add: digit_in_def digit_val_def)
  with assms p have "cut_of (CHR '','' # l) q"
    using strtoul_cut [of p x "CHR '','' # l" v q] strtoul_rest [OF p] unfolding cut_of_def unclosed_line_def by blast
  with p show "(\<And>v q. cut_of (CHR '','' # l) q \<Longrightarrow> quiet (f (v, q))) \<Longrightarrow> quiet (getu32 p \<bind> f)"
    "(\<And>v q. cut_of (CHR '','' # l) q \<Longrightarrow> quiet (g (v, q))) \<Longrightarrow> quiet (getu64 p \<bind> g)"
    by (simp_all add: getu32_def getu64_def)
qed

lemma quiet_csum_cut:
  assumes "cut_of (CHR ''#'' # dec (x :: u64) @ CHR '','' # l) p" "\<And>v q. cut_of l q \<Longrightarrow> quiet (f (v, q))"
  shows "quiet (ses_csum p \<bind> f)"
proof (cases p)
  case Nil
  then show ?thesis using assms(2) [of "[]" 0] by (simp add: ses_csum_def)
next
  case (Cons c p')
  with assms(1) have c: "c = CHR ''#''" and "cut_of (dec x @ CHR '','' # l) p'" by auto
  moreover have "quiet (eat (CHR '','') q \<bind> (\<lambda>p. f (v, p)))" if "cut_of (CHR '','' # l) q" for v q
    by (rule quiet_eat_cut [OF that]) (simp_all add: assms(2))
  ultimately have "quiet (getu64 p' \<bind> (\<lambda>(v, q). eat (CHR '','') q \<bind> (\<lambda>p. f (v, p))))"
    by (intro quiet_number_cut(2) [of x l p']) simp_all
  with Cons c show ?thesis by (simp add: ses_csum_def eat_def [of "CHR ''#''"] Option.bind_assoc split_def)
qed

lemma digits_comma: "\<lbrakk>digits base s; base \<le> 16\<rbrakk> \<Longrightarrow> CHR '','' \<notin> set s"
proof
  assume "digits base s" "base \<le> 16" "CHR '','' \<in> set s"
  then obtain d where "d < 16" "CHR '','' = digit_char d" unfolding digits_def by (meson less_le_trans)
  then have "digit_val (CHR '','') = Some d" by simp
  then show False by (simp add: digit_val_def)
qed

lemma quiet_umask_cut:
  assumes p: "cut_of (CHR ''0'' # padded 8 3 (x :: u16) @ CHR '','' # l) p" and f: "\<And>v q. cut_of l q \<Longrightarrow> quiet (f (v, q))"
  shows "quiet (ses_umask p \<bind> f)"
proof -
  let ?w = "padded 8 3 x"
  have "cut_of l q" if "drop 4 p = CHR '','' # q" for q
  proof -
    have "prefix (drop 4 p) (drop 3 ?w @ CHR '','' # l)"
    proof -
      obtain r where "CHR ''0'' # ?w @ CHR '','' # l = p @ r" using p by (auto simp: cut_of_def elim: prefixE)
      then have "drop 4 (CHR ''0'' # ?w @ CHR '','' # l) = drop 4 p @ drop (4 - length p) r" by simp
      moreover have "3 \<le> length ?w" by (simp add: padded_def Let_def)
      ultimately show ?thesis by (simp add: prefix_def)
    qed
    moreover have "digits 8 ?w" unfolding padded_def Let_def by (rule digits_padded) simp_all
    then have "CHR '','' \<notin> set ?w" by (rule digits_comma) simp
    then have "CHR '','' \<notin> set (drop 3 ?w)" by (meson in_set_dropD)
    ultimately have "prefix q l" using that by (cases "drop 3 ?w") auto
    moreover have "unclosed_line (drop 4 p)" using p by (intro open_drop) (simp add: cut_of_def)
    ultimately show ?thesis using that by (simp add: cut_of_def unclosed_line_def)
  qed
  then have "quiet (eat (CHR '','') (drop 4 p) \<bind> (\<lambda>p. f (v, p)))" for v
    using f by (cases "drop 4 p") (auto simp: eat_def quiet_simps)
  moreover have "quiet (f (0, p))" if "at p \<noteq> CHR ''0''"
    using that p f by (cases p) auto
  ultimately show ?thesis by (auto simp: ses_umask_def Let_def quiet_simps Option.bind_assoc)
qed

lemma groups_cut:
  assumes "cut_of (CHR ''0'' # CHR ''x'' # l) p" "ses_groups p = Some (g, q)"
  shows "g \<noteq> None"
proof (cases "at p = CHR ''0'' \<and> at (tl p) = CHR ''x''")
  case True
  with assms(2) show ?thesis by (auto simp: ses_groups_def Option.bind_eq_Some_conv split: if_splits)
next
  case False
  with assms(1) have "p = [] \<or> p = ''0''" by (cases p; cases "tl p") auto
  moreover have "getu32 [] = Some (0, [])" "getu32 ''0'' = Some (0, [])"
    by (simp_all add: getu32_def strtoul_def skip_0x_def isspace_def digit_val_def)
  ultimately show ?thesis using assms(2) False by (auto simp: ses_groups_def eat_def)
qed

lemma keeps_open_groups: "keeps_open ses_groups"
  unfolding keeps_open_def
proof (intro allI impI)
  fix p v q assume p: "unclosed_line p" and g: "ses_groups p = Some (v, q)"
  have n: "unclosed_line t" if "getu32 r = Some (x, t) \<or> getx32 r = Some (x, t)" "unclosed_line r" for r x t
    using that keeps_open_numbers(3,4) unfolding keeps_open_def by blast
  show "unclosed_line q"
  proof (cases "at p = CHR ''0'' \<and> at (tl p) = CHR ''x''")
    case True
    with g obtain w where "getx32 (drop 2 p) = Some (w, q)"
      by (auto simp: ses_groups_def Option.bind_eq_Some_conv split: if_splits)
    with open_drop [OF p] show ?thesis using n by blast
  next
    case False
    with g obtain a p1 b where "getu32 p = Some (a, p1)" "getu32 (tl p1) = Some (b, q)"
      by (auto simp: ses_groups_def eat_def Option.bind_eq_Some_conv split: if_splits)
    with p show ?thesis using n open_tl by blast
  qed
qed

lemma quiet_groups_cut:
  assumes "cut_of (CHR ''0'' # CHR ''x'' # l) p" "\<And>v q. unclosed_line q \<Longrightarrow> quiet (f (Some v) q)"
  shows "quiet (ses_groups p \<bind> (\<lambda>(g, q). f g q))"
proof (cases "ses_groups p")
  case (Some r)
  then obtain g q where r: "ses_groups p = Some (g, q)" by (cases r) auto
  then have "unclosed_line q" using keeps_open_groups assms(1) unfolding keeps_open_def cut_of_def by blast
  moreover obtain v where "g = Some v" using groups_cut [OF assms(1) r] by auto
  ultimately show ?thesis using r assms(2) by simp
qed (simp add: quiet_simps)

lemma session_text_fields:
  "\<exists>tail. session_text a =
     CHR ''#'' # dec (sa_exportscsum a) @ CHR '','' # dec (sa_rootinode a) @ CHR '','' # dec (sa_sesflags a) @ CHR '','' #
     CHR ''0'' # padded 8 3 (sa_umask a) @ CHR '','' # dec (sa_rootuid a) @ CHR '','' # dec (sa_rootgid a) @ CHR '','' #
     dec (sa_mapalluid a) @ CHR '','' # dec (sa_mapallgid a) @ CHR '','' # CHR ''0'' # CHR ''x'' # tail"
  by (simp add: session_text_def)

lemma quiet_seschanged:
  assumes "cut_of (CHR ''('' # dec (sessionid :: u32) @ CHR '','' # session_text a) p"
  shows "quiet (do_seschanged p)"
proof -
  obtain tail where fields: "session_text a =
     CHR ''#'' # dec (sa_exportscsum a) @ CHR '','' # dec (sa_rootinode a) @ CHR '','' # dec (sa_sesflags a) @ CHR '','' #
     CHR ''0'' # padded 8 3 (sa_umask a) @ CHR '','' # dec (sa_rootuid a) @ CHR '','' # dec (sa_rootgid a) @ CHR '','' #
     dec (sa_mapalluid a) @ CHR '','' # dec (sa_mapallgid a) @ CHR '','' # CHR ''0'' # CHR ''x'' # tail"
    using session_text_fields by blast
  have paren: "\<lbrakk>cut_of (CHR ''('' # l) p; \<And>q. cut_of l q \<Longrightarrow> quiet (f q)\<rbrakk> \<Longrightarrow> quiet (eat (CHR ''('') p \<bind> f)"
    and comma: "\<lbrakk>cut_of (CHR '','' # l) p; \<And>q. cut_of l q \<Longrightarrow> quiet (f q)\<rbrakk> \<Longrightarrow> quiet (eat (CHR '','') p \<bind> f)" for l p f
    by (erule quiet_eat_cut; simp)+
  have num: "\<lbrakk>cut_of (dec x @ CHR '','' # l) p; \<And>v q. cut_of (CHR '','' # l) q \<Longrightarrow> quiet (f (v, q))\<rbrakk> \<Longrightarrow> quiet (getu32 p \<bind> f)"
    for l p f and x :: u32 by (erule quiet_number_cut(1)) simp_all
  have num8: "\<lbrakk>cut_of (dec x @ CHR '','' # l) p; \<And>v q. cut_of (CHR '','' # l) q \<Longrightarrow> quiet (f (v, q))\<rbrakk> \<Longrightarrow> quiet (getu32 p \<bind> f)"
    for l p f and x :: u8 by (erule quiet_number_cut(1)) simp_all
  show ?thesis
    using assms unfolding fields do_seschanged_def ses_fields_def
    by - ((simp only: prod.case | erule paren comma num num8 quiet_csum_cut quiet_umask_cut)+, erule quiet_groups_cut,
        simp only: option.case ses_disables_def, (simp only: prod.case | rule quiet_rules | assumption)+)
qed

subsection \<open>Cut lines\<close>

lemma find_in: "List.find P xs = Some x \<Longrightarrow> x \<in> set xs \<and> P x"
  by (induction xs) (auto split: if_splits)

lemma cases_quiet:
  "list_all (\<lambda>(k, alts). list_all (\<lambda>(kw, f). kw \<in> {''CREATE'', ''SESADD''} \<or> (kw, f) = (''SESCHANGED'', do_seschanged) \<or>
     (\<forall>q. unclosed_line q \<longrightarrow> quiet (f q))) alts) (restore_cases big)"
  by (simp add: restore_cases_def quiet_do quiet_flock quiet_posixlock)

lemma restore_change_cut:
  assumes "unclosed_line p" "\<not> prefix ''CREATE'' p" "\<not> prefix ''SESADD'' p"
    and "prefix ''SESCHANGED'' p \<Longrightarrow> quiet (do_seschanged (drop 10 p))"
  shows "quiet (restore_change big p)"
proof -
  have "quiet (f (drop (length kw) p))"
    if "(k, alts) \<in> set (restore_cases big)" "(kw, f) \<in> set alts" "take (length kw) p = kw" for k alts kw f
  proof -
    have "prefix kw p" using that(3) take_is_prefix [of "length kw" p] by simp
    moreover have "kw \<in> {''CREATE'', ''SESADD''} \<or> (kw, f) = (''SESCHANGED'', do_seschanged) \<or> (\<forall>q. unclosed_line q \<longrightarrow> quiet (f q))"
      using that(1,2) cases_quiet [of big] by (fastforce simp: list_all_iff)
    ultimately show ?thesis using assms open_drop [OF assms(1)] by (auto simp: numeral_eq_Suc)
  qed
  then show ?thesis unfolding restore_change_def
    by (auto simp: quiet_simps split: option.splits prod.splits dest!: find_in)
qed

lemma digits_open: "CHR '')'' \<notin> set (dec x)"
proof
  assume "CHR '')'' \<in> set (dec x)"
  moreover have "digits 10 (dec x)" unfolding dec_def by (rule num_digits) simp_all
  ultimately obtain d where "d < 10" "CHR '')'' = digit_char d" by (auto simp: digits_def)
  then have "digit_val (CHR '')'') = Some d" by simp
  then show False by (simp add: digit_val_def)
qed

text \<open>Lines with a result behind the parenthesis are not among those that end with it.\<close>

lemma only_close: "\<lbrakk>x @ CHR '')'' # y = s @ '')''; CHR '')'' \<notin> set s\<rbrakk> \<Longrightarrow> y = []"
  by (cases y rule: rev_cases) auto

lemmas log_text_defs = sclass_make_changelog_def
  log_access_def log_addattr_def log_append_def log_archchg_def log_amtime_def log_autoarch_def log_attr_def
  log_link_def log_length_def log_move_def log_symlink_def log_unlink_def log_undel_def log_purge_def log_setpath_def
  log_trash_recover_def log_trash_remove_def log_trunc_def log_write_def log_rollback_def log_unlock_def
  log_repair_def log_setfilechunk_def log_emptytrash_def log_emptysustained_def log_freeinodes_def log_renumedges_def
  log_quota_def log_seteattr_def log_setsclass_def log_settrashretention_def log_setxattr_def log_setacl_def
  log_snapshot_def log_chunkadd_def log_chunkdel_def log_chunkflagsclr_def log_setversion_def log_csdbop_def
  log_patadd_def log_patdel_def log_setmetaid_def log_sesconnected_def log_sesdisconnected_def log_sesdel_def
  log_scecversion_def log_scdel_def log_scdup_def log_scren_def

lemma lock_keyword: "\<not> prefix ''CREATE'' (lock_text e)" "\<not> prefix ''SESADD'' (lock_text e)" "\<not> prefix ''SESCHANGED'' (lock_text e)"
  by (cases e; simp)+

lemma change_keyword:
  "prefix ''CREATE'' (change_text c) \<Longrightarrow> \<exists>p n t m cu u g r i. change_text c = log_create p n t m cu u g r i"
  "prefix ''SESADD'' (change_text c) \<Longrightarrow> \<exists>a sessionid. change_text c = log_sesadd a sessionid"
  "prefix ''SESCHANGED'' (change_text c) \<Longrightarrow> \<exists>sessionid a. change_text c = log_seschanged sessionid a"
proof -
  note kw = lock_keyword log_text_defs Let_def
  show "prefix ''CREATE'' (change_text c) \<Longrightarrow> \<exists>p n t m cu u g r i. change_text c = log_create p n t m cu u g r i"
    by (cases c) (auto simp: kw log_sesadd_def log_seschanged_def, (rule exI)+, rule refl)
  show "prefix ''SESADD'' (change_text c) \<Longrightarrow> \<exists>a sessionid. change_text c = log_sesadd a sessionid"
    by (cases c) (auto simp: kw log_create_def log_seschanged_def)
  show "prefix ''SESCHANGED'' (change_text c) \<Longrightarrow> \<exists>sessionid a. change_text c = log_seschanged sessionid a"
    by (cases c) (auto simp: kw log_create_def log_sesadd_def)
qed

lemma result_behind:
  assumes "CHR '')'' \<notin> set s"
  shows "log_create p n t m cu u g r i \<noteq> s @ '')''" "log_sesadd a sessionid \<noteq> s @ '')''"
proof -
  have "\<exists>x. log_create p n t m cu u g r i = x @ CHR '')'' # CHR '':'' # dec i" unfolding log_create_def by (simp flip: append_assoc append_Cons)
  then show "log_create p n t m cu u g r i \<noteq> s @ '')''" using only_close [OF _ assms] by (metis list.distinct(1))
  have "\<exists>x. session_text a = x @ '')''" unfolding session_text_def by (simp flip: append_assoc)
  then have "\<exists>x. log_sesadd a sessionid = x @ CHR '')'' # CHR '':'' # dec sessionid" unfolding log_sesadd_def by force
  then show "log_sesadd a sessionid \<noteq> s @ '')''" using only_close [OF _ assms] by (metis list.distinct(1))
qed

lemma cut_change_quiet:
  assumes "change_text c = s @ '')''" "CHR '')'' \<notin> set s" "prefix p s"
  shows "quiet (restore_change big p)"
proof (rule restore_change_cut)
  have p: "prefix p (change_text c)" using assms(1,3) by (auto simp: prefix_def)
  show o: "unclosed_line p" using assms(2,3) set_mono_prefix unfolding unclosed_line_def by blast
  show "\<not> prefix ''CREATE'' p"
    using change_keyword(1) [of c] result_behind(1) [OF assms(2)] prefix_order.trans [OF _ p] unfolding assms(1) by metis
  show "\<not> prefix ''SESADD'' p"
    using change_keyword(2) [of c] result_behind(2) [OF assms(2)] prefix_order.trans [OF _ p] unfolding assms(1) by metis
  assume kw: "prefix ''SESCHANGED'' p"
  then obtain sessionid a where "change_text c = log_seschanged sessionid a"
    using change_keyword(3) [of c] prefix_order.trans [OF _ p] by blast
  moreover from kw obtain q where q: "p = ''SESCHANGED'' @ q" by (auto elim: prefixE)
  ultimately have "prefix q (CHR ''('' # dec sessionid @ CHR '','' # session_text a)"
    using p by (simp add: log_seschanged_def)
  moreover have "unclosed_line q" using o q by (simp add: unclosed_line_def)
  ultimately show "quiet (do_seschanged (drop 10 p))" using quiet_seschanged [of sessionid a q] q by (simp add: cut_of_def)
qed

text \<open>
  A new file is different: a line that was cut before the type is read over its end, and with the right text of an earlier line there a
  file is created.
\<close>

lemma create_reads_behind:
  "\<exists>f. restore_change big ''CREATE(1,a,'' = Some (Behind f) \<and>
     f '',8,9,2,3,4):5'' = Some (Call (Fs_mr_create 1 ''a'' 0 8 9 2 3 4 5))"
  by (simp add: restore_change_def restore_cases_def HASHCODESTR_def do_create_def eat_def getu32_def getu16_def strtoul_def
      isspace_def skip_0x_def digit_val_def getname_def getname_loop.simps getbyte_def cstr_def)

subsection \<open>Property\<close>

text \<open>The lines of the lock service end with their only closing parenthesis.\<close>

definition cmd_char :: "changelog_entry \<Rightarrow> char" where
  "cmd_char e = (case e of FLOCK i s own c \<Rightarrow> c | POSIXLOCK i s own c b e pid \<Rightarrow> c | _ \<Rightarrow> CHR ''U'')"

lemma lock_text_closes:
  "cmd_char e \<noteq> CHR '')'' \<Longrightarrow> lock_text e = butlast (lock_text e) @ '')'' \<and> CHR '')'' \<notin> set (butlast (lock_text e))"
  by (cases e) (simp_all add: butlast_append digits_open cmd_char_def)

text \<open>
  C26. A line that was cut: when the text of a change ends with its only closing parenthesis, as the lines of the lock
  service and most others do, no proper prefix of its line has an effect in \<^verbatim>\<open>restore_line\<close>. It is refused
  without any call; or, where a line of a lock was cut just before its letter, the code goes on to read the buffer behind the end of the
  line, and whatever stands there, the only call that can follow is one that \<^verbatim>\<open>flock_mr_change\<close> or
  \<^verbatim>\<open>posix_lock_mr_change\<close> refuses with EINVAL, leaving the table as it is. (Lines with a result behind the
  parenthesis are not meant: \<^verbatim>\<open>do_create\<close>, cut before its type, goes on with what an earlier line left in
  the buffer.)
\<close>

theorem cut_line_refused:
  fixes ts :: u32
  assumes "change_text c = s @ '')''" "CHR '')'' \<notin> set s" "n < length (dec ts @ ''|'' @ change_text c)"
  shows "quiet (map_option snd (restore_line big (take n (dec ts @ ''|'' @ change_text c))))"
proof -
  let ?p = "take n (dec ts @ ''|'' @ change_text c)"
  obtain v q where st: "strtoul 10 ?p = (v, q)" by fastforce
  then have q: "getu32 ?p = Some (ucast v, q)" by (simp only: getu32_def Let_def prod.case)
  have "prefix ?p (dec ts @ CHR ''|'' # s)"
  proof -
    have line: "dec ts @ ''|'' @ change_text c = (dec ts @ CHR ''|'' # s) @ '')''" using assms(1) by simp
    moreover from assms(3) line have "n - length (dec ts @ CHR ''|'' # s) = 0" by simp
    ultimately have "?p = take n (dec ts @ CHR ''|'' # s)" by (simp only: take_append take_0 append_Nil2)
    then show ?thesis using take_is_prefix by metis
  qed
  then have "prefix q (CHR ''|'' # s)"
    using strtoul_cut [of ?p ts "CHR ''|'' # s" v q] st by (simp add: digit_in_def digit_val_def)
  then have "at q = CHR ''|'' \<Longrightarrow> quiet (restore_change big (tl q))"
    using cut_change_quiet [OF assms(1,2)] by (cases q) auto
  moreover have "restore_line big ?p =
      (if at q = CHR ''|'' then map_option (Pair (ucast v)) (restore_change big (tl q)) else None)"
    using q by (auto simp: restore_line_def eat_def map_conv_bind_option comp_def)
  ultimately show ?thesis by (simp add: quiet_simps option.map_comp comp_def option.map_ident)
qed

text \<open>The line \<open>7|FLOCK(1,5,9,W)\<close>, cut before the letter and before the parenthesis.\<close>

theorem cut_line_refused_witness:
  "quiet (map_option snd (restore_line False (take 14 (dec (7 :: u32) @ ''|'' @
     change_text (Lock_mr (FLOCK 1 5 9 (CHR ''W''))))))) \<and>
   quiet (map_option snd (restore_line False (take 15 (dec (7 :: u32) @ ''|'' @
     change_text (Lock_mr (FLOCK 1 5 9 (CHR ''W'')))))))"
proof -
  let ?s = "''FLOCK('' @ dec (1 :: u32) @ '','' @ dec (5 :: u32) @ '','' @ dec (9 :: u64) @ '','' @ [CHR ''W'']"
  have s: "change_text (Lock_mr (FLOCK 1 5 9 (CHR ''W''))) = ?s @ '')''" "CHR '')'' \<notin> set ?s"
    by (simp_all add: digits_open)
  have "15 < length (dec (7 :: u32) @ ''|'' @ change_text (Lock_mr (FLOCK 1 5 9 (CHR ''W''))))"
    by (simp add: dec_def num.simps)
  then show ?thesis
    using cut_line_refused [OF s, of 14 7 False] cut_line_refused [OF s, of 15 7 False] by simp
qed

end
