(* ===== verification/Binary_Heap.thy ===== *)
theory Binary_Heap
  imports MFS_Prelude
begin

text \<open>
  The binary min-heap in an array that \<^verbatim>\<open>mfsmaster/merger.c\<close> and \<^verbatim>\<open>mfsclient/heapsorter.c\<close> both contain: the loops
  that move an element down from the root and up from the end. The theory proves that they restore the
  heap order and keep the elements, and offers this to their users as the interface \<open>min_heap\<close>.
\<close>

subsection \<open>The loops\<close>

text \<open>
  \<open>key\<close> gives the number by which elements are compared. Indices stay below the size of the array, so
  they do not overflow.
\<close>

definition swap_entries :: "nat \<Rightarrow> nat \<Rightarrow> 'a list \<Rightarrow> 'a list" where
  "swap_entries i j xs = xs[i := xs ! j, j := xs ! i]"

lemma length_swap_entries [simp]: "length (swap_entries i j xs) = length xs"
  by (simp add: swap_entries_def)

definition min_child :: "('a \<Rightarrow> 'k :: linorder) \<Rightarrow> nat \<Rightarrow> 'a list \<Rightarrow> nat" where
  "min_child key pos heap =
     (let l = pos * 2 + 1; r = l + 1
      in if r < length heap \<and> key (heap ! r) < key (heap ! l) then r else l)"

function heap_down :: "('a \<Rightarrow> 'k :: linorder) \<Rightarrow> nat \<Rightarrow> 'a list \<Rightarrow> 'a list" where
  "heap_down key pos heap =
     (if pos * 2 + 1 \<ge> length heap then heap
      else let m = min_child key pos heap
           in if key (heap ! pos) \<le> key (heap ! m) then heap
              else heap_down key m (swap_entries pos m heap))"
  by auto
termination by (relation "measure (\<lambda>(key, pos, heap). length heap - pos)") (auto simp: Let_def min_child_def)

fun heap_up :: "('a \<Rightarrow> 'k :: linorder) \<Rightarrow> nat \<Rightarrow> 'a list \<Rightarrow> 'a list" where
  "heap_up key pos heap =
     (if pos = 0 then heap
      else let p = (pos - 1) div 2
           in if key (heap ! pos) \<ge> key (heap ! p) then heap
              else heap_up key p (swap_entries pos p heap))"

declare heap_down.simps [simp del] heap_up.simps [simp del]

subsection \<open>Elements\<close>

lemma mset_swap_entries:
  "\<lbrakk>i < length xs; j < length xs\<rbrakk> \<Longrightarrow> mset (swap_entries i j xs) = mset xs"
  unfolding swap_entries_def by (rule mset_swap)

lemma min_child_less: "pos * 2 + 1 < length heap \<Longrightarrow> min_child key pos heap < length heap"
  by (simp add: min_child_def Let_def)

lemma mset_heap_down: "pos < length heap \<Longrightarrow> mset (heap_down key pos heap) = mset heap"
proof (induction key pos heap rule: heap_down.induct)
  case (1 key pos heap)
  then show ?case
    by (subst heap_down.simps) (auto simp: Let_def min_child_less mset_swap_entries)
qed

lemma parent_less: "pos < n \<Longrightarrow> (pos - 1) div 2 < (n :: nat)"
  by (simp add: less_imp_diff_less order_le_less_trans [OF div_le_dividend])

lemma mset_heap_up: "pos < length heap \<Longrightarrow> mset (heap_up key pos heap) = mset heap"
proof (induction key pos heap rule: heap_up.induct)
  case (1 key pos heap)
  with parent_less [of pos "length heap"] show ?case
    by (subst heap_up.simps) (auto simp: Let_def mset_swap_entries)
qed

subsection \<open>Order\<close>

text \<open>Every element is at most as small as its parent; during the loops this fails at one index.\<close>

definition heap_ok :: "('a \<Rightarrow> 'k :: linorder) \<Rightarrow> 'a list \<Rightarrow> bool" where
  "heap_ok key h \<longleftrightarrow> (\<forall>i. 0 < i \<and> i < length h \<longrightarrow> key (h ! ((i - 1) div 2)) \<le> key (h ! i))"

definition heap_but_down :: "('a \<Rightarrow> 'k :: linorder) \<Rightarrow> nat \<Rightarrow> 'a list \<Rightarrow> bool" where
  "heap_but_down key p h \<longleftrightarrow> (\<forall>i. 0 < i \<and> i < length h \<longrightarrow>
     ((i - 1) div 2 \<noteq> p \<longrightarrow> key (h ! ((i - 1) div 2)) \<le> key (h ! i)) \<and>
     ((i - 1) div 2 = p \<and> 0 < p \<longrightarrow> key (h ! ((p - 1) div 2)) \<le> key (h ! i)))"

definition heap_but_up :: "('a \<Rightarrow> 'k :: linorder) \<Rightarrow> nat \<Rightarrow> 'a list \<Rightarrow> bool" where
  "heap_but_up key p h \<longleftrightarrow> (\<forall>i. 0 < i \<and> i < length h \<longrightarrow>
     (i \<noteq> p \<longrightarrow> key (h ! ((i - 1) div 2)) \<le> key (h ! i)) \<and>
     ((i - 1) div 2 = p \<and> 0 < p \<longrightarrow> key (h ! ((p - 1) div 2)) \<le> key (h ! i)))"

lemma nth_swap_entries:
  "\<lbrakk>i < length xs; j < length xs\<rbrakk> \<Longrightarrow>
   swap_entries i j xs ! k = (if k = j then xs ! i else if k = i then xs ! j else xs ! k)"
  by (auto simp: swap_entries_def nth_list_update)

lemma children: "\<lbrakk>0 < i; (i - 1) div 2 = p\<rbrakk> \<Longrightarrow> i = p * 2 + 1 \<or> i = p * 2 + (2 :: nat)"
  by presburger

lemma parent_before: "0 < i \<Longrightarrow> (i - 1) div 2 < (i :: nat)"
  by presburger

lemma min_child_le:
  assumes "0 < i" "i < length h" "(i - 1) div 2 = pos"
  shows "key (h ! min_child key pos h) \<le> key (h ! i)"
  using children [OF assms(1,3)] assms(2) by (auto simp: min_child_def Let_def not_less)

lemma min_child_parent: "0 < min_child key pos h \<and> (min_child key pos h - 1) div 2 = pos \<and> pos < min_child key pos h"
  by (simp add: min_child_def Let_def)

lemma heap_but_downD:
  assumes "heap_but_down key p h" "0 < i" "i < length h"
  shows "(i - 1) div 2 \<noteq> p \<Longrightarrow> key (h ! ((i - 1) div 2)) \<le> key (h ! i)"
    and "\<lbrakk>(i - 1) div 2 = p; 0 < p\<rbrakk> \<Longrightarrow> key (h ! ((p - 1) div 2)) \<le> key (h ! i)"
  using assms by (auto simp: heap_but_down_def)

lemma heap_but_down_done:
  assumes "heap_but_down key pos h"
    and "pos * 2 + 1 < length h \<longrightarrow> key (h ! pos) \<le> key (h ! min_child key pos h)"
  shows "heap_ok key h"
  unfolding heap_ok_def
proof (intro allI impI, elim conjE)
  fix i assume i: "0 < i" "i < length h"
  show "key (h ! ((i - 1) div 2)) \<le> key (h ! i)"
  proof (cases "(i - 1) div 2 = pos")
    case True
    with children [OF i(1) True] i have "pos * 2 + 1 < length h" by auto
    with True min_child_le [OF i True, of key] assms(2) show ?thesis by simp
  next
    case False
    then show ?thesis by (rule heap_but_downD(1) [OF assms(1) i])
  qed
qed

lemma heap_but_down_step:
  assumes h: "heap_but_down key pos h" and l: "pos * 2 + 1 < length h"
    and lt: "key (h ! min_child key pos h) < key (h ! pos)"
  shows "heap_but_down key (min_child key pos h) (swap_entries pos (min_child key pos h) h)"
proof -
  define m where "m = min_child key pos h"
  have m: "m < length h" "0 < m" "(m - 1) div 2 = pos" "pos < m" "pos < length h"
    using min_child_less [OF l] min_child_parent [of key pos h] l by (auto simp: m_def)
  have swap: "swap_entries pos m h ! k = (if k = m then h ! pos else if k = pos then h ! m else h ! k)" for k
    by (rule nth_swap_entries [OF m(5,1)])
  have up: "key (h ! ((pos - 1) div 2)) \<le> key (h ! m)" if "0 < pos"
    using heap_but_downD(2) [OF h m(2,1,3) that] .
  show ?thesis
    unfolding heap_but_down_def m_def [symmetric] length_swap_entries
  proof (intro allI impI conjI; elim conjE)
    fix i assume i: "0 < i" "i < length h" and ne: "(i - 1) div 2 \<noteq> m"
    show "key (swap_entries pos m h ! ((i - 1) div 2)) \<le> key (swap_entries pos m h ! i)"
    proof (cases "(i - 1) div 2 = pos")
      case True
      then have "i \<noteq> pos" using parent_before [OF i(1)] by auto
      with True ne m lt min_child_le [OF i True, of key] show ?thesis by (auto simp: swap m_def [symmetric])
    next
      case False
      have "i \<noteq> m" using False m(3) by auto
      with False ne heap_but_downD(1) [OF h i False] up i show ?thesis by (auto simp: swap)
    qed
  next
    fix i assume i: "0 < i" "i < length h" and eq: "(i - 1) div 2 = m"
    have "i \<noteq> m" "i \<noteq> pos" using parent_before [OF i(1)] eq m(4) by auto
    with heap_but_downD(1) [OF h i] eq m show "key (swap_entries pos m h ! ((m - 1) div 2)) \<le> key (swap_entries pos m h ! i)"
      by (auto simp: swap)
  qed
qed

lemma heap_down_ok: "\<lbrakk>heap_but_down key pos h; pos < length h\<rbrakk> \<Longrightarrow> heap_ok key (heap_down key pos h)"
proof (induction key pos h rule: heap_down.induct)
  case (1 key pos h)
  show ?case
  proof (cases "pos * 2 + 1 < length h \<and> key (h ! min_child key pos h) < key (h ! pos)")
    case True
    with 1 heap_but_down_step [OF 1(2)] show ?thesis
      by (subst heap_down.simps) (auto simp: Let_def min_child_less)
  next
    case False
    with heap_but_down_done [OF 1(2)] show ?thesis
      by (subst heap_down.simps) (auto simp: Let_def not_less not_le)
  qed
qed

lemma heap_but_upD:
  assumes "heap_but_up key p h" "0 < i" "i < length h"
  shows "i \<noteq> p \<Longrightarrow> key (h ! ((i - 1) div 2)) \<le> key (h ! i)"
    and "\<lbrakk>(i - 1) div 2 = p; 0 < p\<rbrakk> \<Longrightarrow> key (h ! ((p - 1) div 2)) \<le> key (h ! i)"
  using assms by (auto simp: heap_but_up_def)

lemma heap_but_up_done:
  assumes "heap_but_up key pos h" "0 < pos \<longrightarrow> key (h ! ((pos - 1) div 2)) \<le> key (h ! pos)"
  shows "heap_ok key h"
  using assms unfolding heap_ok_def heap_but_up_def by metis

lemma heap_but_up_step:
  assumes h: "heap_but_up key pos h" and pos: "pos < length h" "0 < pos"
    and lt: "key (h ! pos) < key (h ! ((pos - 1) div 2))"
  shows "heap_but_up key ((pos - 1) div 2) (swap_entries pos ((pos - 1) div 2) h)"
proof -
  define p where "p = (pos - 1) div 2"
  have p: "p < length h" "p < pos" "(pos - 1) div 2 = p"
    using parent_less [OF pos(1)] pos by (auto simp: p_def)
  have swap: "swap_entries pos p h ! k = (if k = p then h ! pos else if k = pos then h ! p else h ! k)" for k
    by (rule nth_swap_entries [OF pos(1) p(1)])
  show ?thesis
    unfolding heap_but_up_def p_def [symmetric] length_swap_entries
  proof (intro allI impI conjI; elim conjE)
    fix i assume i: "0 < i" "i < length h" and ne: "i \<noteq> p"
    consider "i = pos" | "i \<noteq> pos" "(i - 1) div 2 = pos" | "i \<noteq> pos" "(i - 1) div 2 = p"
      | "i \<noteq> pos" "(i - 1) div 2 \<noteq> pos" "(i - 1) div 2 \<noteq> p" by blast
    then show "key (swap_entries pos p h ! ((i - 1) div 2)) \<le> key (swap_entries pos p h ! i)"
    proof cases
      case 1 with p lt show ?thesis by (auto simp: swap)
    next
      case 2 with ne p heap_but_upD(2) [OF h i 2(2) pos(2)] show ?thesis by (auto simp: swap)
    next
      case 3 with ne p lt heap_but_upD(1) [OF h i 3(1)] show ?thesis by (auto simp: swap)
    next
      case 4 with ne heap_but_upD(1) [OF h i 4(1)] show ?thesis by (simp add: swap)
    qed
  next
    fix i assume i: "0 < i" "i < length h" and eq: "(i - 1) div 2 = p" and p0: "0 < p"
    have ip: "i \<noteq> p" "(p - 1) div 2 \<noteq> p" "(p - 1) div 2 \<noteq> pos"
      using parent_before [OF i(1)] parent_before [OF p0] eq p(2) by auto
    have up: "key (h ! ((p - 1) div 2)) \<le> key (h ! p)" using heap_but_upD(1) [OF h p0 p(1)] p by simp
    from up heap_but_upD(1) [OF h i] eq ip
    show "key (swap_entries pos p h ! ((p - 1) div 2)) \<le> key (swap_entries pos p h ! i)"
      by (auto simp: swap intro: order_trans)
  qed
qed

lemma heap_up_ok: "\<lbrakk>heap_but_up key pos h; pos < length h\<rbrakk> \<Longrightarrow> heap_ok key (heap_up key pos h)"
proof (induction key pos h rule: heap_up.induct)
  case (1 key pos h)
  show ?case
  proof (cases "0 < pos \<and> key (h ! pos) < key (h ! ((pos - 1) div 2))")
    case True
    with 1 heap_but_up_step [OF 1(2)] parent_less [OF 1(3)] show ?thesis
      by (subst heap_up.simps) (auto simp: Let_def not_le)
  next
    case False
    with heap_but_up_done [OF 1(2)] show ?thesis
      by (subst heap_up.simps) (auto simp: Let_def not_less not_le)
  qed
qed

lemma heap_ok_root: "\<lbrakk>heap_ok key h; i < length h\<rbrakk> \<Longrightarrow> key (h ! 0) \<le> key (h ! i)"
proof (induction i rule: less_induct)
  case (less i)
  show ?case
  proof (cases "i = 0")
    case False
    then have lt: "(i - 1) div 2 < i" by presburger
    have "key (h ! 0) \<le> key (h ! ((i - 1) div 2))" using less lt by simp
    also have "\<dots> \<le> key (h ! i)" using less(2,3) False by (simp add: heap_ok_def)
    finally show ?thesis .
  qed simp
qed

subsection \<open>The interface\<close>

text \<open>
  What the users of the heap rely on: the elements are kept, the order is restored after appending an
  element or after overwriting the root, and the root is minimal.
\<close>

locale min_heap =
  fixes key :: "'a \<Rightarrow> 'k :: linorder"
    and sort_up :: "'a list \<Rightarrow> 'a list"
    and sort_down :: "'a list \<Rightarrow> 'a list"
    and ok :: "'a list \<Rightarrow> bool"
  assumes ok_empty: "ok []"
    and ok_butlast: "ok h \<Longrightarrow> ok (butlast h)"
    and up_mset: "mset (sort_up h) = mset h"
    and down_mset: "mset (sort_down h) = mset h"
    and up_ok: "ok h \<Longrightarrow> ok (sort_up (h @ [x]))"
    and down_ok: "ok (x # h) \<Longrightarrow> ok (sort_down (y # h))"
    and root_min: "\<lbrakk>ok (x # h); y \<in> set h\<rbrakk> \<Longrightarrow> key x \<le> key y"
begin

lemma up_length: "length (sort_up h) = length h"
  by (rule mset_eq_length) (rule up_mset)

lemma down_length: "length (sort_down h) = length h"
  by (rule mset_eq_length) (rule down_mset)

lemma remove_ok:
  assumes "ok (x # h)" "h \<noteq> []"
  shows "ok (sort_down (last h # butlast h))"
  using down_ok [of x "butlast h" "last h"] ok_butlast [OF assms(1)] assms(2) by simp

lemma remove_mset: "h \<noteq> [] \<Longrightarrow> mset (sort_down (last h # butlast h)) = mset h"
  by (cases h rule: rev_cases) (simp_all add: down_mset)

end

lemma heap_up_last_mset: "mset (heap_up key (length h - 1) h) = mset h"
  by (cases h) (auto simp: mset_heap_up, simp add: heap_up.simps)

lemma heap_down_root_mset: "mset (heap_down key 0 h) = mset h"
  by (cases h) (auto simp: mset_heap_down, simp add: heap_down.simps)

lemma min_heap_generic:
  "min_heap key (\<lambda>h. heap_up key (length h - 1) h) (heap_down key 0) (heap_ok key)"
proof
  show "heap_ok key []" by (simp add: heap_ok_def)
next
  fix h :: "'a list" assume "heap_ok key h"
  then show "heap_ok key (butlast h)"
    by (auto simp: heap_ok_def nth_butlast parent_less)
next
  fix h :: "'a list"
  show "mset (heap_up key (length h - 1) h) = mset h" by (rule heap_up_last_mset)
  show "mset (heap_down key 0 h) = mset h" by (rule heap_down_root_mset)
next
  fix h :: "'a list" and x assume "heap_ok key h"
  then have "heap_but_up key (length h) (h @ [x])"
    by (auto simp: heap_ok_def heap_but_up_def nth_append parent_less)
  then show "heap_ok key (heap_up key (length (h @ [x]) - 1) (h @ [x]))"
    by (simp add: heap_up_ok)
next
  fix x y and h :: "'a list" assume "heap_ok key (x # h)"
  then have "heap_but_down key 0 (y # h)"
    by (auto simp: heap_ok_def heap_but_down_def nth_Cons')
  then show "heap_ok key (heap_down key 0 (y # h))" by (simp add: heap_down_ok)
next
  fix x y and h :: "'a list" assume "heap_ok key (x # h)" "y \<in> set h"
  then show "key x \<le> key y" using heap_ok_root [of key "x # h" "Suc _"] by (auto simp: in_set_conv_nth)
qed

end
