(* ===== verification/Changelog_Replay.thy ===== *)
theory Changelog_Replay
  imports Changelog_Lines Binary_Heap
begin

text \<open>
  Replaying changelog files: \<^verbatim>\<open>restore_net\<close> and \<^verbatim>\<open>restore_file\<close> of \<^verbatim>\<open>mfsmaster/restore.c\<close>, and \<^verbatim>\<open>mfsmaster/merger.c\<close>,
  which merges several changelog files by the numbers of their lines with a binary heap. The functions that repeat
  changes and the metadata version are parameters; \<^const>\<open>None\<close> is undefined behaviour.
\<close>

subsection \<open>restore.c\<close>

record 'st restorer =
  rs_big :: bool                                    \<comment> \<open>byte order of the machine\<close>
  rs_mr :: "u32 \<Rightarrow> mr_call \<Rightarrow> 'st \<Rightarrow> u8 \<times> 'st"        \<comment> \<open>the called function, with the time stamp\<close>
  rs_meta_version :: "'st \<Rightarrow> u64"

text \<open>
  The status and the new state after a line; a parse error is the status -1. What a line does that is read over its end depends
  on the buffer and is left open here.
\<close>

definition repeat_line :: "'st restorer \<Rightarrow> string \<Rightarrow> 'st \<Rightarrow> (int \<times> 'st) option" where
  "repeat_line rs line st =
     (case restore_line (rs_big rs) line of
        None \<Rightarrow> Some (- 1, st)
      | Some (ts, Return status) \<Rightarrow> Some (uint status, st)
      | Some (ts, Call c) \<Rightarrow> (let (status, st') = rs_mr rs ts c st in Some (uint status, st'))
      | Some (ts, Behind f) \<Rightarrow> None
      | Some (ts, Undefined) \<Rightarrow> None)"

definition restore_net :: "'st restorer \<Rightarrow> u64 \<Rightarrow> string \<Rightarrow> 'st \<Rightarrow> (int \<times> 'st) option" where
  "restore_net rs lv line st =
     (if lv \<noteq> rs_meta_version rs st then Some (- 1, st)
      else case repeat_line rs line st of
        None \<Rightarrow> None
      | Some (status, st') \<Rightarrow>
          (if status < 0 \<or> status \<noteq> 0 then Some (- 1, st')
           else if lv + 1 \<noteq> rs_meta_version rs st' then Some (- 1, st')
           else Some (0, st')))"

text \<open>The static variables of \<^verbatim>\<open>restore_file\<close>; \<open>rp_file\<close> says that \<^verbatim>\<open>lastshfn\<close> is not NULL.\<close>

record 'st replayer =
  rp_v :: u64
  rp_lastv :: u64
  rp_file :: bool
  rp_st :: 'st

definition restore_file :: "'st restorer \<Rightarrow> u64 \<Rightarrow> string \<Rightarrow> 'st replayer \<Rightarrow> (int \<times> 'st replayer) option" where
  "restore_file rs lv line rp0 =
     (let rp = (if rp_lastv rp0 = 0 \<or> rp_v rp0 = 0 \<or> \<not> rp_file rp0
                then rp0\<lparr>rp_v := rs_meta_version rs (rp_st rp0), rp_lastv := lv - 1\<rparr> else rp0);
          done = (\<lambda>rp. Some (0, rp\<lparr>rp_lastv := lv, rp_file := True\<rparr>))
      in if lv < rp_lastv rp then Some (0, rp)
         else if lv \<ge> rp_v rp then
           (if lv = rp_lastv rp then done rp
            else if lv > rp_lastv rp + 1 then Some (- 2, rp)
            else case repeat_line rs line (rp_st rp) of
              None \<Rightarrow> None
            | Some (status, st') \<Rightarrow>
                (if status < 0 then Some (0, rp\<lparr>rp_st := st'\<rparr>)
                 else if status > 0 then Some (- 1, rp\<lparr>rp_st := st'\<rparr>)
                 else let rp = rp\<lparr>rp_st := st', rp_v := rs_meta_version rs st'\<rparr>
                      in if lv + 1 \<noteq> rp_v rp then Some (- 1, rp) else done rp))
         else done rp)"

subsection \<open>merger.c\<close>

text \<open>An entry of the heap: the lines of the file that were not read yet, the text of the current line and its number.\<close>

record hentry =
  h_lines :: "string list"
  h_ptr :: string
  h_nextid :: int

definition merger_heap_sort_down :: "hentry list \<Rightarrow> hentry list" where
  "merger_heap_sort_down heap = heap_down h_nextid 0 heap"

definition merger_heap_sort_up :: "hentry list \<Rightarrow> hentry list" where
  "merger_heap_sort_up heap = heap_up h_nextid (length heap - 1) heap"

interpretation mh: min_heap h_nextid merger_heap_sort_up merger_heap_sort_down "heap_ok h_nextid"
  using min_heap_generic [of h_nextid]
  by (simp add: merger_heap_sort_up_def [abs_def] merger_heap_sort_down_def [abs_def])

text \<open>
  A sum of two numbers of the type \<^verbatim>\<open>int64_t\<close>; an overflow is undefined. The limit \<^verbatim>\<open>maxidhole\<close> is only
  looked at when the entry has a number already.
\<close>

definition int64 :: "int \<Rightarrow> int option" where
  "int64 i = (if - (2 ^ 63) \<le> i \<and> i < 2 ^ 63 then Some i else None)"

definition merger_nextentry :: "int \<Rightarrow> hentry \<Rightarrow> hentry option" where
  "merger_nextentry maxidhole h =
     (case h_lines h of
        [] \<Rightarrow> Some (h\<lparr>h_nextid := - 1\<rparr>)
      | line # ls \<Rightarrow>
          (let (nextid, p) = strtoll 10 line;
               p = (if at p = CHR '':'' \<and> at (tl p) = CHR '' '' then drop 2 p else p);
               h' = h\<lparr>h_lines := ls, h_ptr := p\<rparr>
           in if h_nextid h < 0 then Some (h'\<lparr>h_nextid := nextid\<rparr>)
              else if nextid > h_nextid h then
                (case int64 (h_nextid h + maxidhole) of
                   None \<Rightarrow> None
                 | Some limit \<Rightarrow> Some (h'\<lparr>h_nextid := (if nextid < limit then nextid else - 1)\<rparr>))
              else Some (h'\<lparr>h_nextid := - 1\<rparr>)))"

text \<open>A file is the list of its lines, or \<^const>\<open>None\<close> when it cannot be opened.\<close>

definition merger_new_entry :: "int \<Rightarrow> string list option \<Rightarrow> hentry option" where
  "merger_new_entry maxidhole file =
     (case file of
        Some ls \<Rightarrow> merger_nextentry maxidhole \<lparr>h_lines = ls, h_ptr = [], h_nextid = - 1\<rparr>
      | None \<Rightarrow> Some \<lparr>h_lines = [], h_ptr = [], h_nextid = - 1\<rparr>)"

text \<open>The heap is filled before \<^verbatim>\<open>maxidhole\<close> is set; \<open>maxidhole\<close> here is the value from before.\<close>

primrec merger_start :: "int \<Rightarrow> string list option list \<Rightarrow> hentry list \<Rightarrow> hentry list option" where
  "merger_start maxidhole [] heap = Some heap"
| "merger_start maxidhole (file # files) heap =
     (case merger_new_entry maxidhole file of
        None \<Rightarrow> None
      | Some h \<Rightarrow> merger_start maxidhole files (if h_nextid h < 0 then heap else merger_heap_sort_up (heap @ [h])))"

text \<open>
  The progress report divides by the distance to the first change, which is zero for the first change itself.
\<close>

definition progress_crash :: "u64 \<Rightarrow> u64 \<Rightarrow> int \<Rightarrow> bool" where
  "progress_crash firstlv lastlv nextid \<longleftrightarrow>
     nextid mod 2497 = 0 \<and> lastlv > firstlv \<and> \<not> nextid < sint firstlv \<and> \<not> nextid > sint lastlv \<and> of_int nextid - firstlv = 0"

text \<open>The main loop; the number of lines that are still to be read decreases.\<close>

definition lines_left :: "hentry list \<Rightarrow> nat" where
  "lines_left heap = sum_list (map (\<lambda>h. Suc (length (h_lines h))) heap)"

definition heap_next :: "int \<Rightarrow> hentry \<Rightarrow> hentry list \<Rightarrow> hentry list option" where
  "heap_next maxidhole h hs =
     map_option (\<lambda>h'. merger_heap_sort_down
         (if h_nextid h' < 0 then (if hs = [] then [] else last hs # butlast hs) else h' # hs))
       (merger_nextentry maxidhole h)"

lemma lines_left_mset: "lines_left heap = (\<Sum>h\<in>#mset heap. Suc (length (h_lines h)))"
  unfolding lines_left_def by (metis mset_map sum_mset_sum_list)

lemma merger_nextentry_lines:
  "\<lbrakk>merger_nextentry maxidhole h = Some h'; h_nextid h' \<ge> 0\<rbrakk> \<Longrightarrow> Suc (length (h_lines h')) = length (h_lines h)"
  by (auto simp: merger_nextentry_def Let_def split: list.splits prod.splits if_splits option.splits)

lemma mset_heap_next:
  assumes "merger_nextentry maxidhole h = Some h'"
  obtains heap' where "heap_next maxidhole h hs = Some heap'"
    "mset heap' = (if h_nextid h' < 0 then mset hs else add_mset h' (mset hs))"
  using that assms mh.remove_mset [of hs] by (simp add: heap_next_def mh.down_mset)

lemma lines_left_next: "heap_next maxidhole h hs = Some heap' \<Longrightarrow> lines_left heap' < lines_left (h # hs)"
proof -
  assume n: "heap_next maxidhole h hs = Some heap'"
  then obtain h' where h': "merger_nextentry maxidhole h = Some h'" by (auto simp: heap_next_def)
  obtain heap2 where "heap_next maxidhole h hs = Some heap2"
    "mset heap2 = (if h_nextid h' < 0 then mset hs else add_mset h' (mset hs))" by (rule mset_heap_next [OF h'])
  with n merger_nextentry_lines [OF h'] show ?thesis by (simp add: lines_left_mset)
qed

function merger_loop ::
  "'st restorer \<Rightarrow> int \<Rightarrow> u64 \<Rightarrow> u64 \<Rightarrow> hentry list \<Rightarrow> 'st replayer \<Rightarrow> (int \<times> 'st replayer) option" where
  "merger_loop rs maxidhole firstlv lastlv [] rp = Some (0, rp)"
| "merger_loop rs maxidhole firstlv lastlv (h # hs) rp =
     (if progress_crash firstlv lastlv (h_nextid h) then None
      else case restore_file rs (of_int (h_nextid h)) (h_ptr h) rp of
        None \<Rightarrow> None
      | Some (status, rp') \<Rightarrow>
          (if status < 0 then Some (status, rp')
           else case heap_next maxidhole h hs of
             None \<Rightarrow> None
           | Some heap' \<Rightarrow> merger_loop rs maxidhole firstlv lastlv heap' rp'))"
  by pat_completeness auto
termination
  by (relation "measure (\<lambda>(rs, maxidhole, firstlv, lastlv, heap, rp). lines_left heap)") (auto simp: lines_left_next)

end
