(* ===== verification/Changelog_Merge.thy ===== *)
theory Changelog_Merge
  imports Changelog_Replay Changelog_Roundtrip
begin

text \<open>
  Replaying the changelog files of a history: the changes of a master, written by \<^verbatim>\<open>changelog\<close> and
  \<^verbatim>\<open>changelog_mr\<close> of \<^verbatim>\<open>mfsmaster/changelog.c\<close> to files that overlap, are merged by \<^verbatim>\<open>merger_start\<close> and
  \<^verbatim>\<open>merger_loop\<close> and repeated once each.
\<close>

subsection \<open>Files\<close>

definition changelog_mr_line :: "u64 \<Rightarrow> string \<Rightarrow> string" where
  "changelog_mr_line version data = dec version @ '': '' @ data @ [CHR 0x0A]"

text \<open>The file with the changes from \<open>a\<close> up to \<open>b\<close>, of which \<open>data n\<close> is the text of the change \<open>n\<close>.\<close>

definition log_file :: "(nat \<Rightarrow> string) \<Rightarrow> nat \<Rightarrow> nat \<Rightarrow> string list" where
  "log_file data a b = map (\<lambda>n. changelog_mr_line (of_nat n) (data n)) [a..<b]"

text \<open>The heap entry of such a file when the change \<open>n\<close> is its current line.\<close>

definition entry_at :: "(nat \<Rightarrow> string) \<Rightarrow> nat \<Rightarrow> nat \<Rightarrow> hentry" where
  "entry_at data b n = \<lparr>h_lines = log_file data (Suc n) b, h_ptr = data n @ [CHR 0x0A], h_nextid = int n\<rparr>"

lemma entry_at_simps [simp]:
  "h_nextid (entry_at data b n) = int n" "h_ptr (entry_at data b n) = data n @ [CHR 0x0A]"
  "h_lines (entry_at data b n) = log_file data (Suc n) b"
  by (simp_all add: entry_at_def)

lemma log_file_Nil [simp]: "b \<le> a \<Longrightarrow> log_file data a b = []"
  by (simp add: log_file_def)

lemma log_file_Cons: "a < b \<Longrightarrow> log_file data a b = changelog_mr_line (of_nat a) (data a) # log_file data (Suc a) b"
  by (simp add: log_file_def upt_conv_Cons)

lemma strtoll_line:
  assumes "n < 2 ^ 63"
  shows "strtoll 10 (changelog_mr_line (of_nat n) s) = (int n, '': '' @ s @ [CHR 0x0A])"
proof -
  have "dec (of_nat n :: u64) = num 10 n"
    using assms by (simp add: dec_def unat_of_nat take_bit_nat_eq_self)
  then show ?thesis using strtoll_printed [of "'': '' @ s @ [CHR 0x0A]" n] assms by (simp add: changelog_mr_line_def)
qed

lemma nextentry_end: "b \<le> Suc n \<Longrightarrow> \<exists>h'. merger_nextentry maxidhole (entry_at data b n) = Some h' \<and> h_nextid h' = - 1"
  by (simp add: merger_nextentry_def)

lemma nextentry_next:
  assumes "Suc n < b" "int b + maxidhole \<le> 2 ^ 63" "2 \<le> maxidhole"
  shows "merger_nextentry maxidhole (entry_at data b n) = Some (entry_at data b (Suc n))"
  using assms strtoll_line [of "Suc n" "data (Suc n)"]
  by (simp add: merger_nextentry_def log_file_Cons entry_at_def int64_def)

lemma new_entry_log:
  assumes "a < b" "b \<le> 2 ^ 63"
  shows "merger_new_entry maxidhole (Some (log_file data a b)) = Some (entry_at data b a)"
  using assms strtoll_line [of a "data a"]
  by (simp add: merger_new_entry_def merger_nextentry_def log_file_Cons entry_at_def)

subsection \<open>The heap of files\<close>

text \<open>
  After the change \<open>k\<close> was taken from an ordered heap: all entries stand at changes from \<open>k\<close> on, and every later
  change before \<open>hi\<close> is still in one of the files.
\<close>

definition heap_after :: "(nat \<Rightarrow> string) \<Rightarrow> nat \<Rightarrow> nat \<Rightarrow> hentry list \<Rightarrow> bool" where
  "heap_after data hi k heap \<longleftrightarrow> heap_ok h_nextid heap \<and>
     (\<forall>h\<in>set heap. \<exists>n b. h = entry_at data b n \<and> k \<le> n \<and> n < b \<and> b \<le> hi) \<and>
     (\<forall>m. k < m \<and> m < hi \<longrightarrow> (\<exists>n b. entry_at data b n \<in> set heap \<and> n \<le> m \<and> m < b))"

lemma heap_after_root:
  assumes "heap_after data hi k (h # hs)" "k < hi"
  obtains n b where "h = entry_at data b n" "n < b" "b \<le> hi" "n = k \<or> n = Suc k"
proof -
  from assms(1) obtain n b where h: "h = entry_at data b n" "k \<le> n" "n < b" "b \<le> hi"
    by (auto simp: heap_after_def)
  have "n \<le> Suc k"
  proof (cases "Suc k < hi")
    case True
    then obtain n' b' where e: "entry_at data b' n' \<in> set (h # hs)" "n' \<le> Suc k"
      using assms(1) unfolding heap_after_def by (meson lessI)
    have "heap_ok h_nextid (h # hs)" using assms(1) by (simp add: heap_after_def)
    then have "h_nextid h \<le> h_nextid (entry_at data b' n')"
      using e(1) mh.root_min [of h hs "entry_at data b' n'"] by (cases "entry_at data b' n' = h") auto
    with e(2) h(1) show ?thesis by simp
  qed (use h in linarith)
  with h that show ?thesis by (cases "n = k") auto
qed

lemma heap_next_entry:
  assumes "heap_ok h_nextid (h # hs)" "merger_nextentry maxidhole h = Some h'"
  obtains heap' where "heap_next maxidhole h hs = Some heap'" "heap_ok h_nextid heap'"
    "set heap' = (if h_nextid h' < 0 then set hs else insert h' (set hs))"
proof -
  obtain heap' where n: "heap_next maxidhole h hs = Some heap'"
    "mset heap' = (if h_nextid h' < 0 then mset hs else add_mset h' (mset hs))" by (rule mset_heap_next [OF assms(2)])
  from arg_cong [OF n(2), of set_mset] have "set heap' = (if h_nextid h' < 0 then set hs else insert h' (set hs))" by simp
  moreover have "heap_ok h_nextid heap'"
    using n(1) mh.down_ok [OF assms(1)] mh.remove_ok [OF assms(1)] mh.down_mset [of "[]"] assms(2)
    by (auto simp: heap_next_def heap_ok_def [of _ "[]"])
  ultimately show ?thesis using that n(1) by blast
qed

lemma heap_after_next:
  assumes a: "heap_after data hi k (entry_at data b n # hs)" and n: "k \<le> n" "n < b" "b \<le> hi"
    and "int hi + maxidhole \<le> 2 ^ 63" "2 \<le> maxidhole"
  shows "\<exists>heap. heap_next maxidhole (entry_at data b n) hs = Some heap \<and> heap_after data hi n heap"
proof -
  from a have ok: "heap_ok h_nextid (entry_at data b n # hs)" by (simp add: heap_after_def)
  obtain h' where h': "merger_nextentry maxidhole (entry_at data b n) = Some h'"
    "if Suc n < b then h' = entry_at data b (Suc n) else h_nextid h' = - 1"
    using nextentry_next [of n b maxidhole data] nextentry_end [of b n maxidhole data] assms by force
  obtain heap where heap: "heap_next maxidhole (entry_at data b n) hs = Some heap" "heap_ok h_nextid heap"
    and "set heap = (if h_nextid h' < 0 then set hs else insert h' (set hs))" by (rule heap_next_entry [OF ok h'(1)])
  with h'(2) have set: "set heap = (if Suc n < b then insert (entry_at data b (Suc n)) (set hs) else set hs)"
    by (auto split: if_splits)
  have "\<exists>n' b'. h = entry_at data b' n' \<and> n \<le> n' \<and> n' < b' \<and> b' \<le> hi" if "h \<in> set heap" for h
  proof (cases "h \<in> set hs")
    case True
    then obtain n' b' where "h = entry_at data b' n'" "n' < b'" "b' \<le> hi"
      using a by (auto simp: heap_after_def)
    moreover have "h_nextid (entry_at data b n) \<le> h_nextid h" by (rule mh.root_min [OF ok True])
    ultimately show ?thesis by auto
  next
    case False
    with that n have "h = entry_at data b (Suc n)" "Suc n < b" by (auto simp: set split: if_splits)
    with n show ?thesis by (intro exI [of _ "Suc n"] exI [of _ b]) simp
  qed
  moreover have "\<exists>n' b'. entry_at data b' n' \<in> set heap \<and> n' \<le> m \<and> m < b'" if m: "n < m" "m < hi" for m
  proof -
    from a m n obtain n' b' where e: "entry_at data b' n' \<in> set (entry_at data b n # hs)" "n' \<le> m" "m < b'"
      unfolding heap_after_def by (meson le_less_trans)
    show ?thesis
    proof (cases "entry_at data b' n' \<in> set hs")
      case True
      with e set show ?thesis by (cases "Suc n < b") auto
    next
      case False
      with e(1) have "entry_at data b' n' = entry_at data b n" by simp
      then have eq: "n' = n" "log_file data (Suc n) b' = log_file data (Suc n) b" by (auto simp: entry_at_def)
      then have "b' - Suc n = b - Suc n" by (metis diff_diff_left length_map length_upt log_file_def)
      with m e(3) have "m < b" by linarith
      with m set show ?thesis by (intro exI [of _ "Suc n"] exI [of _ b]) auto
    qed
  qed
  ultimately have "heap_after data hi n heap" using heap(2) unfolding heap_after_def by blast
  with heap(1) show ?thesis by blast
qed

subsection \<open>Replaying\<close>

text \<open>
  A history: \<open>S n\<close> is the state of the master with metadata version \<open>n\<close>, and the text of the change \<open>n\<close> leads from
  it to the next one.
\<close>

definition history :: "'st restorer \<Rightarrow> (nat \<Rightarrow> string) \<Rightarrow> (nat \<Rightarrow> 'st) \<Rightarrow> nat \<Rightarrow> nat \<Rightarrow> bool" where
  "history rs data S v0 hi \<longleftrightarrow> (\<forall>n. v0 \<le> n \<and> n \<le> hi \<longrightarrow> rs_meta_version rs (S n) = of_nat n) \<and>
     (\<forall>n. v0 \<le> n \<and> n < hi \<longrightarrow> repeat_line rs (data n @ [CHR 0x0A]) (S n) = Some (0, S (Suc n)))"

text \<open>The replay stands behind the change \<open>k\<close>; changes before \<open>v0\<close> are already in the metadata file.\<close>

definition replayed :: "(nat \<Rightarrow> 'st) \<Rightarrow> nat \<Rightarrow> nat \<Rightarrow> 'st replayer \<Rightarrow> bool" where
  "replayed S v0 k rp \<longleftrightarrow> rp_st rp = S (max v0 (Suc k)) \<and> rp_file rp \<and> rp_lastv rp = of_nat k \<and>
     rp_v rp = of_nat (max v0 (Suc k))"

lemma of_nat_u64:
  assumes "m \<le> 2 ^ 63" "n \<le> 2 ^ 63"
  shows "(of_nat m :: u64) < of_nat n \<longleftrightarrow> m < n" "(of_nat m :: u64) \<le> of_nat n \<longleftrightarrow> m \<le> n"
    "(of_nat m :: u64) = of_nat n \<longleftrightarrow> m = n"
  using assms by (simp_all add: word_less_nat_alt word_le_nat_alt unat_of_nat take_bit_nat_eq_self word_unat_eq_iff)

lemma first_change:
  assumes "history rs data S v0 hi" "1 \<le> lo" "lo \<le> v0" "v0 \<le> hi" "lo < hi" "hi \<le> 2 ^ 63"
    and "\<not> rp_file rp" "rp_st rp = S v0"
  shows "\<exists>rp'. restore_file rs (of_nat lo) (data lo @ [CHR 0x0A]) rp = Some (0, rp') \<and> replayed S v0 lo rp'"
proof -
  have ver: "rs_meta_version rs (S v0) = of_nat v0" and
    line: "lo = v0 \<Longrightarrow> repeat_line rs (data lo @ [CHR 0x0A]) (S lo) = Some (0, S (Suc lo))" and
    ver': "lo = v0 \<Longrightarrow> rs_meta_version rs (S (Suc lo)) = of_nat (Suc lo)"
    using assms by (simp_all add: history_def)
  have eq: "(of_nat lo :: u64) = of_nat (lo - 1) + 1" using assms(2) by (cases lo) (simp_all add: add.commute)
  then have "of_nat lo - 1 = (of_nat (lo - 1) :: u64)" by simp
  moreover note eq [symmetric]
  moreover have "\<not> (of_nat lo :: u64) < of_nat (lo - 1)" "(of_nat lo :: u64) \<noteq> of_nat (lo - 1)"
    "(of_nat v0 :: u64) \<le> of_nat lo \<longleftrightarrow> v0 \<le> lo"
    using assms of_nat_u64 [of lo "lo - 1"] of_nat_u64 [of v0 lo] by simp_all
  moreover have "max v0 (Suc lo) = (if lo = v0 then Suc lo else v0)" using assms(3) by auto
  ultimately show ?thesis using assms ver line ver'
    by (cases "lo = v0") (simp_all add: restore_file_def Let_def replayed_def add.commute)
qed

lemma next_change:
  assumes "history rs data S v0 hi" "1 \<le> v0" "v0 \<le> hi" "n < hi" "hi \<le> 2 ^ 63"
    and "replayed S v0 k rp" "1 \<le> k" "n = k \<or> n = Suc k"
  shows "\<exists>rp'. restore_file rs (of_nat n) (data n @ [CHR 0x0A]) rp = Some (0, rp') \<and> replayed S v0 n rp'"
proof -
  have b: "k \<le> 2 ^ 63" "Suc k \<le> 2 ^ 63" "v0 \<le> 2 ^ 63" "n \<le> 2 ^ 63" "max v0 (Suc k) \<le> 2 ^ 63" using assms by auto
  have nz: "rp_lastv rp \<noteq> 0" "rp_v rp \<noteq> 0" "rp_file rp"
    using of_nat_u64(3) [OF b(1), of 0] of_nat_u64(3) [OF b(5), of 0] assms by (auto simp: replayed_def)
  have suc: "rp_lastv rp + 1 = of_nat (Suc k)" using assms(6) by (simp add: replayed_def add.commute)
  have cmp: "\<not> of_nat n < rp_lastv rp" "rp_v rp \<le> of_nat n \<longleftrightarrow> max v0 (Suc k) \<le> n"
    "of_nat n = rp_lastv rp \<longleftrightarrow> n = k" "\<not> of_nat (Suc k) < (of_nat n :: u64)"
    using assms(6,8) b by (auto simp: replayed_def of_nat_u64 simp del: of_nat_Suc)
  show ?thesis
  proof (cases "max v0 (Suc k) \<le> n")
    case True
    then have n: "n = Suc k" "v0 \<le> n" "max v0 (Suc k) = n" "n \<noteq> k" using assms(8) by auto
    then have "repeat_line rs (data n @ [CHR 0x0A]) (rp_st rp) = Some (0, S (Suc n))"
      "rs_meta_version rs (S (Suc n)) = of_nat n + 1"
      using assms by (auto simp: history_def replayed_def)
    with nz suc cmp n True show ?thesis
      by (simp add: restore_file_def Let_def replayed_def max_def add.commute)
  next
    case False
    then have "max v0 (Suc n) = max v0 (Suc k)" "\<not> rp_v rp \<le> of_nat n" using assms(8) cmp(2) by auto
    with nz cmp(1) assms(6) show ?thesis by (simp add: restore_file_def Let_def replayed_def)
  qed
qed

lemma merger_loop_replays:
  assumes h: "history rs data S v0 hi" "1 \<le> v0" "v0 \<le> hi" "hi \<le> 2 ^ 63" "int hi + maxidhole \<le> 2 ^ 63" "2 \<le> maxidhole"
    and crash: "\<And>n. n < hi \<Longrightarrow> \<not> progress_crash firstlv lastlv (int n)"
  shows "\<lbrakk>heap_after data hi k heap; replayed S v0 k rp; 1 \<le> k; k < hi\<rbrakk> \<Longrightarrow>
    \<exists>rp'. merger_loop rs maxidhole firstlv lastlv heap rp = Some (0, rp') \<and> rp_st rp' = S hi"
proof (induction "lines_left heap" arbitrary: heap k rp rule: less_induct)
  case less
  show ?case
  proof (cases heap)
    case Nil
    then have "\<not> Suc k < hi" using less.prems(1) unfolding heap_after_def by (metis empty_iff lessI list.set(1))
    with less.prems h(3) have "max v0 (Suc k) = hi" by auto
    with Nil less.prems(2) show ?thesis by (simp add: replayed_def)
  next
    case (Cons x hs)
    obtain n b where e: "x = entry_at data b n" "n < b" "b \<le> hi" "n = k \<or> n = Suc k"
      using heap_after_root less.prems(1,4) unfolding Cons by blast
    then have n: "n < hi" "k \<le> n" "1 \<le> n" using less.prems by auto
    obtain rp' where rp': "restore_file rs (of_nat n) (data n @ [CHR 0x0A]) rp = Some (0, rp')" "replayed S v0 n rp'"
      using next_change [OF h(1-3) n(1) h(4) less.prems(2,3) e(4)] by blast
    obtain heap' where heap': "heap_next maxidhole x hs = Some heap'" "heap_after data hi n heap'"
      using heap_after_next [of data hi k b n hs] less.prems(1) e n h(5,6) unfolding Cons by blast
    have "\<exists>rp''. merger_loop rs maxidhole firstlv lastlv heap' rp' = Some (0, rp'') \<and> rp_st rp'' = S hi"
      using less.hyps [OF _ heap'(2) rp'(2) n(3,1)] lines_left_next [OF heap'(1)] unfolding Cons by blast
    with rp'(1) crash [OF n(1)] e(1) heap'(1) show ?thesis by (simp add: Cons)
  qed
qed

text \<open>The heap that \<^verbatim>\<open>merger_start\<close> builds; \<^const>\<open>None\<close> stands for a file that cannot be opened.\<close>

definition log_files :: "(nat \<Rightarrow> string) \<Rightarrow> (nat \<times> nat) option list \<Rightarrow> string list option list" where
  "log_files data ranges = map (map_option (\<lambda>(a, b). log_file data a b)) ranges"

lemma new_entry_file:
  assumes "\<And>a b. \<lbrakk>r = Some (a, b); a < b\<rbrakk> \<Longrightarrow> b \<le> 2 ^ 63"
  obtains h where "merger_new_entry maxidhole (map_option (\<lambda>(a, b). log_file data a b) r) = Some h"
    "if h_nextid h < 0 then \<nexists>a b. r = Some (a, b) \<and> a < b else \<exists>a b. r = Some (a, b) \<and> a < b \<and> h = entry_at data b a"
proof (cases "\<exists>a b. r = Some (a, b) \<and> a < b")
  case True
  then obtain a b where "r = Some (a, b)" "a < b" by blast
  with that [of "entry_at data b a"] assms show ?thesis by (simp add: new_entry_log)
next
  case False
  then have "merger_new_entry maxidhole (map_option (\<lambda>(a, b). log_file data a b) r) = Some \<lparr>h_lines = [], h_ptr = [], h_nextid = - 1\<rparr>"
    by (cases r) (auto simp: not_less merger_new_entry_def merger_nextentry_def)
  with False that show ?thesis by simp
qed

lemma merger_start_heap:
  assumes "heap_ok h_nextid heap" "\<forall>a b. Some (a, b) \<in> set ranges \<longrightarrow> a < b \<longrightarrow> b \<le> 2 ^ 63"
  shows "\<exists>heap'. merger_start maxidhole (log_files data ranges) heap = Some heap' \<and> heap_ok h_nextid heap' \<and>
    set heap' = set heap \<union> {entry_at data b a |a b. Some (a, b) \<in> set ranges \<and> a < b}"
  using assms
proof (induction ranges arbitrary: heap)
  case Nil
  then show ?case by (simp add: log_files_def)
next
  case (Cons r ranges)
  have "b \<le> 2 ^ 63" if "r = Some (a, b)" "a < b" for a b using Cons.prems(2) that by simp
  then obtain h where h: "merger_new_entry maxidhole (map_option (\<lambda>(a, b). log_file data a b) r) = Some h"
    "if h_nextid h < 0 then \<nexists>a b. r = Some (a, b) \<and> a < b else \<exists>a b. r = Some (a, b) \<and> a < b \<and> h = entry_at data b a"
    by (rule new_entry_file)
  define heap' where "heap' = (if h_nextid h < 0 then heap else merger_heap_sort_up (heap @ [h]))"
  have "set (merger_heap_sort_up (heap @ [h])) = insert h (set heap)"
    using arg_cong [OF mh.up_mset [of "heap @ [h]"], of set_mset] by simp
  with h(2) have set: "set heap' = set heap \<union> {entry_at data b a |a b. r = Some (a, b) \<and> a < b}"
    by (auto simp: heap'_def split: if_splits)
  have ok: "heap_ok h_nextid heap'" using mh.up_ok [OF Cons.prems(1)] Cons.prems(1) by (simp add: heap'_def)
  have "merger_start maxidhole (log_files data (r # ranges)) heap = merger_start maxidhole (log_files data ranges) heap'"
    by (simp add: log_files_def h(1) heap'_def)
  moreover have "\<forall>a b. Some (a, b) \<in> set ranges \<longrightarrow> a < b \<longrightarrow> b \<le> 2 ^ 63" using Cons.prems(2) by simp
  note Cons.IH [OF ok this]
  moreover have "set heap' \<union> {entry_at data b a |a b. Some (a, b) \<in> set ranges \<and> a < b} =
      set heap \<union> {entry_at data b a |a b. Some (a, b) \<in> set (r # ranges) \<and> a < b}" unfolding set by auto
  ultimately show ?case by simp
qed

lemma start_covers:
  assumes "{n. \<exists>a b. Some (a, b) \<in> set ranges \<and> a \<le> n \<and> n < b} = {lo..<hi}" "1 \<le> lo" "hi \<le> 2 ^ 63"
  obtains heap where "merger_start maxidhole (log_files data ranges) [] = Some heap"
    "heap_after data hi (lo - 1) heap" "\<forall>h\<in>set heap. int lo \<le> h_nextid h"
proof -
  have rng: "lo \<le> a \<and> b \<le> hi" if r: "Some (a, b) \<in> set ranges" "a < b" for a b
  proof -
    have "m \<in> {lo..<hi}" if "a \<le> m" "m < b" for m unfolding assms(1) [symmetric] using that r by blast
    from this [of a] this [of "b - 1"] r have "a \<in> {lo..<hi}" "b - 1 \<in> {lo..<hi}" by fastforce+
    then show ?thesis by auto
  qed
  have "\<forall>a b. Some (a, b) \<in> set ranges \<longrightarrow> a < b \<longrightarrow> b \<le> 2 ^ 63" using order_trans [OF _ assms(3)] rng by blast
  from merger_start_heap [OF mh.ok_empty this, of maxidhole data]
  obtain heap where start: "merger_start maxidhole (log_files data ranges) [] = Some heap"
    and heap: "heap_ok h_nextid heap" "set heap = {entry_at data b a |a b. Some (a, b) \<in> set ranges \<and> a < b}" by auto
  have ge: "\<forall>h\<in>set heap. int lo \<le> h_nextid h" using rng by (auto simp: heap(2))
  have "\<exists>n b. h = entry_at data b n \<and> lo - 1 \<le> n \<and> n < b \<and> b \<le> hi" if "h \<in> set heap" for h
  proof -
    from that obtain a b where "h = entry_at data b a" "Some (a, b) \<in> set ranges" "a < b" unfolding heap(2) by blast
    with rng [of a b] show ?thesis by (metis diff_le_self le_trans)
  qed
  moreover have "\<exists>n b. entry_at data b n \<in> set heap \<and> n \<le> m \<and> m < b" if "lo - 1 < m" "m < hi" for m
  proof -
    from that have "m \<in> {lo..<hi}" by auto
    then obtain a b where "Some (a, b) \<in> set ranges" "a \<le> m" "m < b" unfolding assms(1) [symmetric] by blast
    then show ?thesis unfolding heap(2) by (metis (mono_tags, lifting) le_less_trans mem_Collect_eq)
  qed
  ultimately have "heap_after data hi (lo - 1) heap" using heap(1) unfolding heap_after_def by blast
  from that [OF start this ge] show ?thesis .
qed

lemma no_progress_crash:
  assumes "\<not> 2497 dvd unat firstlv \<or> lastlv \<le> firstlv" "n < 2 ^ 63"
  shows "\<not> progress_crash firstlv lastlv (int n)"
proof
  assume c: "progress_crash firstlv lastlv (int n)"
  then have "firstlv = of_nat n" "2497 dvd int n" by (auto simp: progress_crash_def)
  moreover from this assms(2) have "unat firstlv = n" by (simp add: unat_of_nat take_bit_nat_eq_self)
  moreover have "2497 dvd n" using \<open>2497 dvd int n\<close> by presburger
  ultimately show False using assms(1) c by (auto simp: progress_crash_def)
qed

lemma history_of_changes:
  assumes "\<forall>n\<in>{v0..hi}. rs_meta_version rs (S n) = of_nat n"
    and "\<forall>n\<in>{v0..<hi}. loggable (c n) \<and> length (dec (ts n) @ ''|'' @ change_text (c n)) < MAXLOGLINESIZE \<and>
      rs_mr rs (ts n) (c n) (S n) = (MFS_STATUS_OK, S (Suc n))"
  shows "history rs (\<lambda>n. change_line (ts n) (c n)) S v0 hi"
proof -
  have "restore_line (rs_big rs) (change_line (ts n) (c n) @ [CHR 0x0A]) = Some (ts n, Call (c n))" if "v0 \<le> n" "n < hi" for n
  proof -
    from assms(2) that have "loggable (c n)" "length (dec (ts n) @ ''|'' @ change_text (c n)) < MAXLOGLINESIZE" by auto
    then show ?thesis by (rule changelog_line_read) simp
  qed
  then show ?thesis using assms by (auto simp: history_def repeat_line_def)
qed

text \<open>
  C27. Replaying a history from changelog files: let a metadata file hold the state with version \<open>v0\<close>, and let the
  changes from \<open>lo\<close> up to \<open>hi\<close>, among them all since \<open>v0\<close>, stand as \<^verbatim>\<open>changelog\<close> wrote them in files that may overlap,
  repeat each other, be empty or missing in any order. If each change, repeated on the state in which it was made, succeeds and gives
  the next state, then \<^verbatim>\<open>merger_start\<close> and \<^verbatim>\<open>merger_loop\<close> end with success in the last state of the
  history: every change is repeated exactly once, in order. The numbers of the changes together with the largest hole that is allowed
  must stay below \<open>2^63\<close> (otherwise a signed sum overflows), and the first number of the progress report must not be a multiple of 2497,
  unless the last one is not larger (otherwise the report divides by zero at that change).
\<close>

theorem merger_replays_history:
  assumes files: "{n. \<exists>a b. Some (a, b) \<in> set ranges \<and> a \<le> n \<and> n < b} = {lo..<hi}"
    and bounds: "1 \<le> lo" "lo \<le> v0" "v0 \<le> hi" "lo < hi" "int hi + maxidhole \<le> 2 ^ 63" "2 \<le> maxidhole"
    and progress: "\<not> 2497 dvd unat firstlv \<or> lastlv \<le> firstlv"
    and versions: "\<forall>n\<in>{v0..hi}. rs_meta_version rs (S n) = of_nat n"
    and changes: "\<forall>n\<in>{v0..<hi}. loggable (c n) \<and> length (dec (ts n) @ ''|'' @ change_text (c n)) < MAXLOGLINESIZE \<and>
      rs_mr rs (ts n) (c n) (S n) = (MFS_STATUS_OK, S (Suc n))"
    and start: "\<not> rp_file rp" "rp_st rp = S v0"
  shows "\<exists>heap rp'. merger_start maxidhole0 (log_files (\<lambda>n. change_line (ts n) (c n)) ranges) [] = Some heap \<and>
    merger_loop rs maxidhole firstlv lastlv heap rp = Some (0, rp') \<and> rp_st rp' = S hi"
proof -
  let ?data = "\<lambda>n. change_line (ts n) (c n)"
  have "int hi \<le> 2 ^ 63" using bounds(5,6) by linarith
  then have hi: "hi \<le> 2 ^ 63" by simp
  note hist = history_of_changes [OF versions changes]
  obtain heap where st: "merger_start maxidhole0 (log_files ?data ranges) [] = Some heap"
    and after: "heap_after ?data hi (lo - 1) heap" and ge: "\<forall>h\<in>set heap. int lo \<le> h_nextid h"
    by (rule start_covers [OF files bounds(1) hi])
  have "lo - 1 < lo" using bounds(1) by simp
  then have "heap \<noteq> []" using after bounds(4) unfolding heap_after_def by (metis empty_iff list.set(1))
  then obtain h hs where Cons: "heap = h # hs" by (cases heap) auto
  obtain n b where "h = entry_at ?data b n" "n < b" "b \<le> hi" "n = lo - 1 \<or> n = Suc (lo - 1)"
    by (rule heap_after_root [OF after [unfolded Cons]]) (use bounds(4) in auto)
  with ge Cons bounds(1) have h: "h = entry_at ?data b lo" "lo < b" "b \<le> hi" by auto
  obtain rp1 where rp1: "restore_file rs (of_nat lo) (?data lo @ [CHR 0x0A]) rp = Some (0, rp1)" "replayed S v0 lo rp1"
    using first_change [OF hist bounds(1-4) hi start] by blast
  have crash: "\<And>n. n < hi \<Longrightarrow> \<not> progress_crash firstlv lastlv (int n)"
    using no_progress_crash [OF progress] hi by simp
  obtain heap' where heap': "heap_next maxidhole h hs = Some heap'" "heap_after ?data hi lo heap'"
    using heap_after_next [of ?data hi "lo - 1" b lo hs] after h bounds unfolding Cons by auto
  then have "\<exists>rp'. merger_loop rs maxidhole firstlv lastlv heap' rp1 = Some (0, rp') \<and> rp_st rp' = S hi"
    using merger_loop_replays [OF hist _ bounds(3) hi bounds(5,6) crash heap'(2) rp1(2) bounds(1,4)] bounds by simp
  with crash [OF bounds(4)] rp1(1) h(1) heap'(1) st show ?thesis by (simp add: Cons)
qed

theorem merger_replays_history_witness:
  "\<exists>heap rp'. merger_start 0 (log_files (\<lambda>n. change_line 7 (Fs_mr_access (of_nat n))) [Some (6, 8), None, Some (5, 7)]) [] = Some heap \<and>
    merger_loop \<lparr>rs_big = False, rs_mr = \<lambda>ts c v. (MFS_STATUS_OK, v + 1), rs_meta_version = id\<rparr> 10000 6 8 heap
      \<lparr>rp_v = 0, rp_lastv = 0, rp_file = False, rp_st = 6 :: u64\<rparr> = Some (0, rp') \<and> rp_st rp' = of_nat 8"
proof -
  let ?rs = "\<lparr>rs_big = False, rs_mr = \<lambda>ts c v. (MFS_STATUS_OK, v + 1), rs_meta_version = id\<rparr> :: u64 restorer"
  have "{n. \<exists>a b. Some (a, b) \<in> set [Some (6, 8), None, Some (5, 7)] \<and> a \<le> n \<and> n < b} = {5..<8 :: nat}" (is "?L = _")
  proof
    have "n \<in> ?L" if "n \<in> {5..<8}" for n
      using that by (cases "n < 6") (auto intro: exI [of _ "5 :: nat"] exI [of _ "6 :: nat"])
    then show "{5..<8} \<subseteq> ?L" by blast
  qed auto
  moreover have "rs_mr ?rs 7 (Fs_mr_access (of_nat n)) (of_nat n) = (MFS_STATUS_OK, of_nat (Suc n))" for n
    by (simp add: add.commute)
  moreover have "length (dec (7 :: u32) @ ''|'' @ change_text (Fs_mr_access (of_nat n))) < MAXLOGLINESIZE" if "n \<in> {6..<8}" for n
  proof -
    from that have "n = 6 \<or> n = 7" by auto
    then show ?thesis by (elim disjE) (simp_all add: log_access_def dec_def num.simps)
  qed
  ultimately show ?thesis
    by (intro merger_replays_history [where lo = 5 and ?v0.0 = 6 and S = of_nat and c = "\<lambda>n. Fs_mr_access (of_nat n)" and ts = "\<lambda>n. 7"])
      simp_all
qed

end
