(* ===== verification/Interval_Tree.thy ===== *)
theory Interval_Tree
  imports MFS_Prelude
begin

text \<open>
  The interval tree of \<^verbatim>\<open>mfsmaster/itree.c\<close>: a search tree of disjoint intervals of IP addresses, each with
  the number of a rack. The pointers to subtrees that the C code passes become results; the list that the code links through the
  left pointers while it rebalances is a list of nodes.
\<close>

unbundle bit_operations_syntax

subsection \<open>The tree\<close>

record itnode =
  it_from :: u32
  it_to :: u32
  it_id :: u32

datatype itree = Leaf | Node itree itnode itree

fun itree_right_depth :: "itree \<Rightarrow> nat" where
  "itree_right_depth Leaf = 0"
| "itree_right_depth (Node l n r) = Suc (itree_right_depth r)"

fun itree_left_depth :: "itree \<Rightarrow> nat" where
  "itree_left_depth Leaf = 0"
| "itree_left_depth (Node l n r) = Suc (itree_left_depth l)"

text \<open>The node at the left (right) end of a subtree that is not empty, and the subtree without it.\<close>

fun itree_pull_left :: "itree \<Rightarrow> itnode \<Rightarrow> itree \<Rightarrow> itnode \<times> itree" where
  "itree_pull_left Leaf n r = (n, r)"
| "itree_pull_left (Node ll ln lr) n r = (let (nit, l) = itree_pull_left ll ln lr in (nit, Node l n r))"

fun itree_pull_right :: "itree \<Rightarrow> itnode \<Rightarrow> itree \<Rightarrow> itnode \<times> itree" where
  "itree_pull_right l n Leaf = (n, l)"
| "itree_pull_right l n (Node rl rn rr) = (let (nit, r) = itree_pull_right rl rn rr in (nit, Node l n r))"

fun itree_remove :: "itree \<Rightarrow> itnode \<Rightarrow> itree \<Rightarrow> itree" where
  "itree_remove Leaf n r = r"
| "itree_remove l n Leaf = l"
| "itree_remove (Node ll ln lr) n (Node rl rn rr) =
     (let l = itree_right_depth lr; r = itree_left_depth rl;
          l = (if l = r then l + unat ((it_from n XOR it_to n) AND 1) else l)
      in if r > l then (let (nit, right) = itree_pull_left rl rn rr in Node (Node ll ln lr) nit right)
         else (let (nit, left) = itree_pull_right ll ln lr in Node left nit (Node rl rn rr)))"

fun itree_delete :: "itree \<Rightarrow> u32 \<Rightarrow> u32 \<Rightarrow> itree"
  and itree_add :: "itree \<Rightarrow> u32 \<Rightarrow> u32 \<Rightarrow> u32 \<Rightarrow> itree" where
  "itree_delete Leaf f t = Leaf"
| "itree_delete (Node l n r) f t =
     (if t < it_from n then Node (itree_delete l f t) n r
      else if f > it_to n then Node l n (itree_delete r f t)
      else if f \<le> it_from n \<and> t \<ge> it_to n then
        itree_remove (if f < it_from n then itree_delete l f (it_from n - 1) else l) n
          (if t > it_to n then itree_delete r (it_to n + 1) t else r)
      else if f \<ge> it_from n \<and> t \<le> it_to n then
        (if f = it_from n then Node l (n\<lparr>it_from := t + 1\<rparr>) r
         else if t = it_to n then Node l (n\<lparr>it_to := f - 1\<rparr>) r
         else if (t XOR f) AND 1 \<noteq> 0 then Node l (n\<lparr>it_to := f - 1\<rparr>) (itree_add r (t + 1) (it_to n) (it_id n))
         else Node (itree_add l (it_from n) (f - 1) (it_id n)) (n\<lparr>it_from := t + 1\<rparr>) r)
      else if f < it_from n then Node (itree_delete l f t) (n\<lparr>it_from := t + 1\<rparr>) r
      else if t > it_to n then Node l (n\<lparr>it_to := f - 1\<rparr>) (itree_delete r f t)
      else Node l n r)"
| "itree_add Leaf f t i = Node Leaf \<lparr>it_from = f, it_to = t, it_id = i\<rparr> Leaf"
| "itree_add (Node l n r) f t i =
     (if t < it_from n then Node (itree_add l f t i) n r
      else if f > it_to n then Node l n (itree_add r f t i)
      else if f \<le> it_from n \<and> t \<ge> it_to n then
        Node (if f < it_from n then itree_delete l f (it_from n - 1) else l) \<lparr>it_from = f, it_to = t, it_id = i\<rparr>
          (if t > it_to n then itree_delete r (it_to n + 1) t else r)
      else if f \<ge> it_from n \<and> t \<le> it_to n then
        Node (if f > it_from n then itree_add l (it_from n) (f - 1) (it_id n) else l) \<lparr>it_from = f, it_to = t, it_id = i\<rparr>
          (if t < it_to n then itree_add r (t + 1) (it_to n) (it_id n) else r)
      else if f < it_from n then Node (itree_add l f t i) (n\<lparr>it_from := t + 1\<rparr>) r
      else if t > it_to n then Node l (n\<lparr>it_to := f - 1\<rparr>) (itree_add r f t i)
      else Node l n r)"

definition itree_add_interval :: "itree \<Rightarrow> u32 \<Rightarrow> u32 \<Rightarrow> u32 \<Rightarrow> itree" where
  "itree_add_interval root f t i =
     (if i = 0 then (if t < f then itree_delete root t f else itree_delete root f t)
      else (if t < f then itree_add root t f i else itree_add root f t i))"

fun itree_find :: "itree \<Rightarrow> u32 \<Rightarrow> u32" where
  "itree_find Leaf v = 0"
| "itree_find (Node l n r) v =
     (if v \<ge> it_from n \<and> v \<le> it_to n then it_id n
      else if v < it_from n then itree_find l v else itree_find r v)"

subsection \<open>Rebalancing\<close>

text \<open>The argument \<open>tail\<close> is what the code appends to the list afterwards.\<close>

fun itree_tolist :: "itree \<Rightarrow> itnode list \<Rightarrow> itnode list" where
  "itree_tolist Leaf tail = tail"
| "itree_tolist (Node l n r) tail = itree_tolist l (n # itree_tolist r tail)"

fun itree_simplify :: "itnode list \<Rightarrow> itnode list" where
  "itree_simplify (n # m # ns) =
     (if it_id n = it_id m \<and> it_to n + 1 = it_from m then itree_simplify (n\<lparr>it_to := it_to m\<rparr> # ns)
      else n # itree_simplify (m # ns))"
| "itree_simplify ns = ns"

text \<open>The index of the middle node: it advances by one node while another pointer advances by two.\<close>

fun itree_middle :: "nat \<Rightarrow> itnode list \<Rightarrow> nat" where
  "itree_middle m (x # y # ns) = itree_middle (Suc m) ns"
| "itree_middle m ns = m"

lemma itree_middle: "itree_middle m ns = m + length ns div 2"
  by (induction m ns rule: itree_middle.induct) auto

function itree_totree :: "itnode list \<Rightarrow> itree" where
  "itree_totree [] = Leaf"
| "itree_totree (n # ns) =
     (let m = itree_middle 0 (n # ns)
      in Node (itree_totree (take m (n # ns))) ((n # ns) ! m) (itree_totree (drop (Suc m) (n # ns))))"
  by pat_completeness auto
termination by (relation "measure length") (auto simp: itree_middle)

definition itree_rebalance :: "itree \<Rightarrow> itree" where
  "itree_rebalance root = itree_totree (itree_simplify (itree_tolist root []))"

subsection \<open>Invariant\<close>

text \<open>The addresses of a tree; every interval is not empty and lies between those of the subtrees.\<close>

fun itree_dom :: "itree \<Rightarrow> u32 set" where
  "itree_dom Leaf = {}"
| "itree_dom (Node l n r) = itree_dom l \<union> {it_from n..it_to n} \<union> itree_dom r"

fun itree_ok :: "itree \<Rightarrow> bool" where
  "itree_ok Leaf = True"
| "itree_ok (Node l n r) \<longleftrightarrow> itree_ok l \<and> itree_ok r \<and> it_from n \<le> it_to n \<and>
     (\<forall>v\<in>itree_dom l. v < it_from n) \<and> (\<forall>v\<in>itree_dom r. it_to n < v)"

lemma find_outside [simp]: "v \<notin> itree_dom t \<Longrightarrow> itree_find t v = 0"
  by (induction t) auto

subsection \<open>The list of intervals\<close>

primrec segs_dom :: "itnode list \<Rightarrow> u32 set" where
  "segs_dom [] = {}"
| "segs_dom (n # ns) = {it_from n..it_to n} \<union> segs_dom ns"

primrec segs_ok :: "itnode list \<Rightarrow> bool" where
  "segs_ok [] = True"
| "segs_ok (n # ns) \<longleftrightarrow> it_from n \<le> it_to n \<and> (\<forall>v\<in>segs_dom ns. it_to n < v) \<and> segs_ok ns"

primrec segs_find :: "itnode list \<Rightarrow> u32 \<Rightarrow> u32" where
  "segs_find [] v = 0"
| "segs_find (n # ns) v = (if v \<ge> it_from n \<and> v \<le> it_to n then it_id n else segs_find ns v)"

lemma segs_dom_append [simp]: "segs_dom (xs @ ys) = segs_dom xs \<union> segs_dom ys"
  by (induction xs) auto

lemma segs_find_append [simp]: "segs_find (xs @ ys) v = (if v \<in> segs_dom xs then segs_find xs v else segs_find ys v)"
  by (induction xs) auto

lemma segs_find_outside [simp]: "v \<notin> segs_dom xs \<Longrightarrow> segs_find xs v = 0"
  by (induction xs) auto

lemma segs_ok_append [simp]:
  "segs_ok (xs @ ys) \<longleftrightarrow> segs_ok xs \<and> segs_ok ys \<and> (\<forall>v\<in>segs_dom xs. \<forall>w\<in>segs_dom ys. v < w)"
proof (induction xs)
  case (Cons n xs)
  have "(\<forall>v\<in>{it_from n..it_to n}. \<forall>w\<in>segs_dom ys. v < w) \<longleftrightarrow> (\<forall>w\<in>segs_dom ys. it_to n < w)" if "it_from n \<le> it_to n"
    using that by (meson atLeastAtMost_iff order_le_less_trans order_refl)
  with Cons show ?case by auto
qed simp

abbreviation inorder :: "itree \<Rightarrow> itnode list" where
  "inorder t \<equiv> itree_tolist t []"

lemma tolist_append: "itree_tolist t tail = inorder t @ tail"
proof (induction t arbitrary: tail)
  case (Node l n r)
  from Node(1) [of "n # itree_tolist r tail"] Node(2) [of tail] Node(1) [of "n # inorder r"] show ?case by simp
qed simp

lemma inorder_Node: "inorder (Node l n r) = inorder l @ n # inorder r"
  using tolist_append [of l "n # inorder r"] by simp

lemma segs_dom_inorder: "segs_dom (inorder t) = itree_dom t"
  by (induction t) (auto simp: inorder_Node simp del: itree_tolist.simps(2))

lemma itree_ok_inorder: "itree_ok t \<longleftrightarrow> segs_ok (inorder t)"
proof (induction t)
  case (Node l n r)
  have "(\<forall>v\<in>itree_dom l. \<forall>w\<in>{it_from n..it_to n} \<union> itree_dom r. v < w) \<longleftrightarrow> (\<forall>v\<in>itree_dom l. v < it_from n)"
    if "it_from n \<le> it_to n" "\<forall>v\<in>itree_dom r. it_to n < v"
    using that by (fastforce dest: order_less_le_trans)
  with Node show ?case by (auto simp: inorder_Node segs_dom_inorder simp del: itree_tolist.simps(2))
qed simp

lemma find_inorder: "itree_ok t \<Longrightarrow> itree_find t v = segs_find (inorder t) v"
proof (induction t)
  case (Node l n r)
  have "v \<notin> itree_dom r" if "v < it_from n" using that Node.prems by (auto dest: order_less_trans)
  moreover have "v \<notin> itree_dom l" if "\<not> v < it_from n" using that Node.prems by auto
  ultimately show ?case using Node
    by (auto simp: inorder_Node segs_dom_inorder not_le simp del: itree_tolist.simps(2))
qed simp

subsection \<open>Removing a node\<close>

lemma pull_left_inorder: "itree_pull_left l n r = (nit, t) \<Longrightarrow> inorder (Node l n r) = nit # inorder t"
  by (induction l n r arbitrary: nit t rule: itree_pull_left.induct)
    (auto simp: inorder_Node split: prod.splits simp del: itree_tolist.simps(2))

lemma pull_right_inorder: "itree_pull_right l n r = (nit, t) \<Longrightarrow> inorder (Node l n r) = inorder t @ [nit]"
  by (induction l n r arbitrary: nit t rule: itree_pull_right.induct)
    (auto simp: inorder_Node split: prod.splits simp del: itree_tolist.simps(2))

lemma remove_inorder: "inorder (itree_remove l n r) = inorder l @ inorder r"
  by (cases "(l, n, r)" rule: itree_remove.cases)
    (auto simp: Let_def inorder_Node split: prod.splits simp del: itree_tolist.simps(2)
      dest!: pull_left_inorder pull_right_inorder)

lemma remove_map:
  assumes "itree_ok l" "itree_ok r" "\<forall>v\<in>itree_dom l. \<forall>w\<in>itree_dom r. v < w"
  shows "itree_ok (itree_remove l n r)" "itree_dom (itree_remove l n r) = itree_dom l \<union> itree_dom r"
    "itree_find (itree_remove l n r) v = (if v \<in> itree_dom l then itree_find l v else itree_find r v)"
proof -
  show ok: "itree_ok (itree_remove l n r)" and "itree_dom (itree_remove l n r) = itree_dom l \<union> itree_dom r"
    using assms by (simp_all add: itree_ok_inorder segs_dom_inorder [symmetric] remove_inorder)
  show "itree_find (itree_remove l n r) v = (if v \<in> itree_dom l then itree_find l v else itree_find r v)"
    using assms ok by (simp add: find_inorder remove_inorder segs_dom_inorder)
qed

subsection \<open>Adding and deleting intervals\<close>

lemma word_pred_le: "(x :: u32) < y \<Longrightarrow> v \<le> y - 1 \<longleftrightarrow> v < y"
proof -
  assume "x < y"
  then have "y \<noteq> 0" by auto
  with unat_minus_one [of y] show ?thesis using \<open>x < y\<close> by (auto simp: word_le_nat_alt word_less_nat_alt)
qed

lemma word_suc_le: "(x :: u32) < y \<Longrightarrow> x + 1 \<le> v \<longleftrightarrow> x < v"
proof -
  assume "x < y"
  then have "unat (x + 1) = Suc (unat x)"
    using unsigned_less [of y, where ?'a = nat] by (simp add: word_less_nat_alt unat_word_ariths)
  then show ?thesis by (simp add: word_le_nat_alt word_less_nat_alt Suc_le_eq)
qed

text \<open>What the two mutually recursive functions do to the addresses and their numbers.\<close>

definition deleted :: "itree \<Rightarrow> u32 \<Rightarrow> u32 \<Rightarrow> itree \<Rightarrow> bool" where
  "deleted T f t T' \<longleftrightarrow> itree_ok T' \<and> itree_dom T' = itree_dom T - {f..t} \<and>
     (\<forall>v. itree_find T' v = (if f \<le> v \<and> v \<le> t then 0 else itree_find T v))"

definition added :: "itree \<Rightarrow> u32 \<Rightarrow> u32 \<Rightarrow> u32 \<Rightarrow> itree \<Rightarrow> bool" where
  "added T f t i T' \<longleftrightarrow> itree_ok T' \<and> itree_dom T' = itree_dom T \<union> {f..t} \<and>
     (\<forall>v. itree_find T' v = (if f \<le> v \<and> v \<le> t then i else itree_find T v))"

lemma deletedD:
  assumes "deleted T f t T'"
  shows "itree_ok T'" "itree_dom T' = itree_dom T - {f..t}"
    "itree_find T' v = (if f \<le> v \<and> v \<le> t then 0 else itree_find T v)"
  using assms by (simp_all add: deleted_def)

lemma addedD:
  assumes "added T f t i T'"
  shows "itree_ok T'" "itree_dom T' = itree_dom T \<union> {f..t}"
    "itree_find T' v = (if f \<le> v \<and> v \<le> t then i else itree_find T v)"
  using assms by (simp_all add: added_def)

text \<open>The facts about a node that the cases below share.\<close>

lemma node_facts:
  assumes "itree_ok (Node l n r)"
  shows "itree_ok l" "itree_ok r" "it_from n \<le> it_to n"
    "\<And>v. v \<in> itree_dom l \<Longrightarrow> v < it_from n" "\<And>v. v \<in> itree_dom r \<Longrightarrow> it_to n < v"
    "\<And>v. it_from n \<le> v \<Longrightarrow> itree_find l v = 0" "\<And>v. v \<le> it_to n \<Longrightarrow> itree_find r v = 0"
  using assms by (auto simp: not_less [symmetric] intro!: find_outside)

lemma node_left:
  assumes "itree_ok (Node l n r)" "f \<le> t" "t < it_from n"
  shows "deleted l f t l' \<Longrightarrow> deleted (Node l n r) f t (Node l' n r)"
    and "added l f t i l' \<Longrightarrow> added (Node l n r) f t i (Node l' n r)"
  using assms node_facts [OF assms(1)] by (force simp: deleted_def added_def)+

lemma node_right:
  assumes "itree_ok (Node l n r)" "f \<le> t" "it_to n < f"
  shows "deleted r f t r' \<Longrightarrow> deleted (Node l n r) f t (Node l n r')"
    and "added r f t i r' \<Longrightarrow> added (Node l n r) f t i (Node l n r')"
  using assms node_facts [OF assms(1)] by (force simp: deleted_def added_def)+

text \<open>An interval that covers the node cuts the subtrees.\<close>

lemma left_cut:
  assumes "itree_ok (Node l n r)" "f \<le> it_from n" "f < it_from n \<Longrightarrow> deleted l f (it_from n - 1) l'" "f = it_from n \<Longrightarrow> l' = l"
  shows "itree_ok l'" "itree_dom l' = {v \<in> itree_dom l. v < f}" "itree_find l' v = (if v < f then itree_find l v else 0)"
  using assms node_facts [OF assms(1)]
  by (cases "f < it_from n"; force simp: deleted_def word_pred_le not_le)+

lemma right_cut:
  assumes "itree_ok (Node l n r)" "it_to n \<le> t" "it_to n < t \<Longrightarrow> deleted r (it_to n + 1) t r'" "t = it_to n \<Longrightarrow> r' = r"
  shows "itree_ok r'" "itree_dom r' = {v \<in> itree_dom r. t < v}" "itree_find r' v = (if t < v then itree_find r v else 0)"
  using assms node_facts [OF assms(1)]
  by (cases "it_to n < t"; force simp: deleted_def word_suc_le not_le)+

lemma node_over:
  assumes ok: "itree_ok (Node l n r)" and "f \<le> it_from n" "it_to n \<le> t"
    and l': "itree_ok l'" "itree_dom l' = {v \<in> itree_dom l. v < f}" "\<And>v. itree_find l' v = (if v < f then itree_find l v else 0)"
    and r': "itree_ok r'" "itree_dom r' = {v \<in> itree_dom r. t < v}" "\<And>v. itree_find r' v = (if t < v then itree_find r v else 0)"
  shows "deleted (Node l n r) f t (itree_remove l' n r')"
    and "added (Node l n r) f t i (Node l' \<lparr>it_from = f, it_to = t, it_id = i\<rparr> r')"
proof -
  note facts = node_facts [OF ok]
  have ft: "f \<le> t" using assms(2,3) facts(3) by force
  have lt: "\<forall>v\<in>itree_dom l'. \<forall>w\<in>itree_dom r'. v < w" using l' r' ft by force
  note rm = remove_map [OF l'(1) r'(1) lt, of n]
  have "itree_find (itree_remove l' n r') v = (if f \<le> v \<and> v \<le> t then 0 else itree_find (Node l n r) v)" for v
    using facts assms(2,3) ft by (force simp: rm l' r')
  moreover have "itree_dom (itree_remove l' n r') = itree_dom (Node l n r) - {f..t}"
    using facts assms(2,3) by (force simp: rm l' r')
  ultimately show "deleted (Node l n r) f t (itree_remove l' n r')" by (simp add: deleted_def rm)
  show "added (Node l n r) f t i (Node l' \<lparr>it_from = f, it_to = t, it_id = i\<rparr> r')"
    using facts assms(2,3) ft by (force simp: added_def l' r')
qed

text \<open>An interval inside the node: the rest of the node goes to the subtrees.\<close>

lemma left_rest:
  assumes "itree_ok (Node l n r)" "it_from n \<le> f" "f \<le> it_to n"
    and "it_from n < f \<Longrightarrow> added l (it_from n) (f - 1) (it_id n) l'" "f = it_from n \<Longrightarrow> l' = l"
  shows "itree_ok l'" "itree_dom l' = itree_dom l \<union> {it_from n..<f}"
    "itree_find l' v = (if it_from n \<le> v \<and> v < f then it_id n else itree_find l v)"
  using assms node_facts [OF assms(1)]
  by (cases "it_from n < f"; force simp: added_def word_pred_le not_le)+

lemma right_rest:
  assumes "itree_ok (Node l n r)" "t \<le> it_to n" "it_from n \<le> t"
    and "t < it_to n \<Longrightarrow> added r (t + 1) (it_to n) (it_id n) r'" "t = it_to n \<Longrightarrow> r' = r"
  shows "itree_ok r'" "itree_dom r' = itree_dom r \<union> {t<..it_to n}"
    "itree_find r' v = (if t < v \<and> v \<le> it_to n then it_id n else itree_find r v)"
  using assms node_facts [OF assms(1)]
  by (cases "t < it_to n"; force simp: added_def word_suc_le not_le)+

lemma node_inside_add:
  assumes ok: "itree_ok (Node l n r)" and b: "it_from n \<le> f" "f \<le> t" "t \<le> it_to n"
    and l': "itree_ok l'" "itree_dom l' = itree_dom l \<union> {it_from n..<f}"
      "\<And>v. itree_find l' v = (if it_from n \<le> v \<and> v < f then it_id n else itree_find l v)"
    and r': "itree_ok r'" "itree_dom r' = itree_dom r \<union> {t<..it_to n}"
      "\<And>v. itree_find r' v = (if t < v \<and> v \<le> it_to n then it_id n else itree_find r v)"
  shows "added (Node l n r) f t i (Node l' \<lparr>it_from = f, it_to = t, it_id = i\<rparr> r')"
  using node_facts [OF ok] b by (force simp: added_def l' r')

text \<open>A node that loses its lower or its upper part.\<close>

lemma node_from:
  assumes ok: "itree_ok (Node l n r)" and t: "it_from n \<le> t" "t < it_to n"
    and l': "itree_ok l'" "\<forall>v\<in>itree_dom l'. v \<le> t"
  shows "itree_ok (Node l' (n\<lparr>it_from := t + 1\<rparr>) r)"
    and "itree_dom (Node l' (n\<lparr>it_from := t + 1\<rparr>) r) = itree_dom l' \<union> {t<..it_to n} \<union> itree_dom r"
    and "itree_find (Node l' (n\<lparr>it_from := t + 1\<rparr>) r) v =
      (if v \<le> t then itree_find l' v else if v \<le> it_to n then it_id n else itree_find r v)"
proof -
  note suc = word_suc_le [OF t(2)]
  have lt: "v < t + 1 \<longleftrightarrow> v \<le> t" for v using suc [of v] leD leI by metis
  show "itree_ok (Node l' (n\<lparr>it_from := t + 1\<rparr>) r)" using node_facts [OF ok] t l' by (auto simp: suc lt)
  show "itree_dom (Node l' (n\<lparr>it_from := t + 1\<rparr>) r) = itree_dom l' \<union> {t<..it_to n} \<union> itree_dom r" by (auto simp: suc)
  show "itree_find (Node l' (n\<lparr>it_from := t + 1\<rparr>) r) v =
      (if v \<le> t then itree_find l' v else if v \<le> it_to n then it_id n else itree_find r v)"
    by (auto simp: suc lt)
qed

lemma node_to:
  assumes ok: "itree_ok (Node l n r)" and f: "it_from n < f" "f \<le> it_to n"
    and r': "itree_ok r'" "\<forall>v\<in>itree_dom r'. f \<le> v"
  shows "itree_ok (Node l (n\<lparr>it_to := f - 1\<rparr>) r')"
    and "itree_dom (Node l (n\<lparr>it_to := f - 1\<rparr>) r') = itree_dom l \<union> {it_from n..<f} \<union> itree_dom r'"
    and "itree_find (Node l (n\<lparr>it_to := f - 1\<rparr>) r') v =
      (if f \<le> v then itree_find r' v else if it_from n \<le> v then it_id n else itree_find l v)"
proof -
  note pred = word_pred_le [OF f(1)]
  have lt: "f - 1 < v \<longleftrightarrow> f \<le> v" for v using pred [of v] leD leI by metis
  show "itree_ok (Node l (n\<lparr>it_to := f - 1\<rparr>) r')" using node_facts [OF ok] f r' by (auto simp: pred lt)
  show "itree_dom (Node l (n\<lparr>it_to := f - 1\<rparr>) r') = itree_dom l \<union> {it_from n..<f} \<union> itree_dom r'" by (auto simp: pred)
  show "itree_find (Node l (n\<lparr>it_to := f - 1\<rparr>) r') v =
      (if f \<le> v then itree_find r' v else if it_from n \<le> v then it_id n else itree_find l v)"
    using f by (auto simp: pred not_le)
qed

lemma deletedI:
  "\<lbrakk>itree_ok T'; itree_dom T' = itree_dom T - {f..t}; \<And>v. itree_find T' v = (if f \<le> v \<and> v \<le> t then 0 else itree_find T v)\<rbrakk> \<Longrightarrow>
   deleted T f t T'"
  by (simp add: deleted_def)

lemma addedI:
  "\<lbrakk>itree_ok T'; itree_dom T' = itree_dom T \<union> {f..t}; \<And>v. itree_find T' v = (if f \<le> v \<and> v \<le> t then i else itree_find T v)\<rbrakk> \<Longrightarrow>
   added T f t i T'"
  by (simp add: added_def)

lemma node_left_end:
  assumes ok: "itree_ok (Node l n r)" and b: "f < it_from n" "it_from n \<le> t" "t < it_to n"
  shows "deleted l f t l' \<Longrightarrow> deleted (Node l n r) f t (Node l' (n\<lparr>it_from := t + 1\<rparr>) r)"
    and "added l f t i l' \<Longrightarrow> added (Node l n r) f t i (Node l' (n\<lparr>it_from := t + 1\<rparr>) r)"
proof -
  note facts = node_facts [OF ok]
  { assume d: "deleted l f t l'"
    have le: "\<forall>v\<in>itree_dom l'. v \<le> t" using facts(4) b by (force simp: deletedD [OF d])
    note nf = node_from [OF ok b(2,3) deletedD(1) [OF d] le]
    show "deleted (Node l n r) f t (Node l' (n\<lparr>it_from := t + 1\<rparr>) r)"
    proof (rule deletedI [OF nf(1)], unfold nf(2,3))
      show "itree_dom l' \<union> {t<..it_to n} \<union> itree_dom r = itree_dom (Node l n r) - {f..t}"
        using facts(4,5) b by (force simp: deletedD [OF d])
      show "(if v \<le> t then itree_find l' v else if v \<le> it_to n then it_id n else itree_find r v) =
          (if f \<le> v \<and> v \<le> t then 0 else itree_find (Node l n r) v)" for v
        using b by (auto simp: deletedD [OF d] not_le)
    qed }
  assume a: "added l f t i l'"
  have le: "\<forall>v\<in>itree_dom l'. v \<le> t" using facts(4) b by (force simp: addedD [OF a])
  note nf = node_from [OF ok b(2,3) addedD(1) [OF a] le]
  show "added (Node l n r) f t i (Node l' (n\<lparr>it_from := t + 1\<rparr>) r)"
  proof (rule addedI [OF nf(1)], unfold nf(2,3))
    show "itree_dom l' \<union> {t<..it_to n} \<union> itree_dom r = itree_dom (Node l n r) \<union> {f..t}"
      using facts(4,5) b by (force simp: addedD [OF a])
    show "(if v \<le> t then itree_find l' v else if v \<le> it_to n then it_id n else itree_find r v) =
        (if f \<le> v \<and> v \<le> t then i else itree_find (Node l n r) v)" for v
      using b by (auto simp: addedD [OF a] not_le)
  qed
qed

lemma node_right_end:
  assumes ok: "itree_ok (Node l n r)" and b: "it_from n < f" "f \<le> it_to n" "it_to n < t"
  shows "deleted r f t r' \<Longrightarrow> deleted (Node l n r) f t (Node l (n\<lparr>it_to := f - 1\<rparr>) r')"
    and "added r f t i r' \<Longrightarrow> added (Node l n r) f t i (Node l (n\<lparr>it_to := f - 1\<rparr>) r')"
proof -
  note facts = node_facts [OF ok]
  { assume d: "deleted r f t r'"
    have le: "\<forall>v\<in>itree_dom r'. f \<le> v" using facts(5) b by (force simp: deletedD [OF d])
    note nt = node_to [OF ok b(1,2) deletedD(1) [OF d] le]
    show "deleted (Node l n r) f t (Node l (n\<lparr>it_to := f - 1\<rparr>) r')"
    proof (rule deletedI [OF nt(1)], unfold nt(2,3))
      show "itree_dom l \<union> {it_from n..<f} \<union> itree_dom r' = itree_dom (Node l n r) - {f..t}"
        using facts(4,5) b by (force simp: deletedD [OF d])
      show "(if f \<le> v then itree_find r' v else if it_from n \<le> v then it_id n else itree_find l v) =
          (if f \<le> v \<and> v \<le> t then 0 else itree_find (Node l n r) v)" for v
        using b by (auto simp: deletedD [OF d] not_le)
    qed }
  assume a: "added r f t i r'"
  have le: "\<forall>v\<in>itree_dom r'. f \<le> v" using facts(5) b by (force simp: addedD [OF a])
  note nt = node_to [OF ok b(1,2) addedD(1) [OF a] le]
  show "added (Node l n r) f t i (Node l (n\<lparr>it_to := f - 1\<rparr>) r')"
  proof (rule addedI [OF nt(1)], unfold nt(2,3))
    show "itree_dom l \<union> {it_from n..<f} \<union> itree_dom r' = itree_dom (Node l n r) \<union> {f..t}"
      using facts(4,5) b by (force simp: addedD [OF a])
    show "(if f \<le> v then itree_find r' v else if it_from n \<le> v then it_id n else itree_find l v) =
        (if f \<le> v \<and> v \<le> t then i else itree_find (Node l n r) v)" for v
      using b by (auto simp: addedD [OF a] not_le)
  qed
qed

lemma node_inside_from:
  assumes ok: "itree_ok (Node l n r)" and b: "it_from n \<le> f" "f \<le> t" "t < it_to n"
    and l': "itree_ok l'" "itree_dom l' = itree_dom l \<union> {it_from n..<f}"
      "\<And>v. itree_find l' v = (if it_from n \<le> v \<and> v < f then it_id n else itree_find l v)"
  shows "deleted (Node l n r) f t (Node l' (n\<lparr>it_from := t + 1\<rparr>) r)"
proof -
  note facts = node_facts [OF ok]
  have t: "it_from n \<le> t" using b by simp
  have le: "\<forall>v\<in>itree_dom l'. v \<le> t" using facts(4) b by (force simp: l'(2))
  note nf = node_from [OF ok t b(3) l'(1) le]
  show ?thesis
  proof (rule deletedI [OF nf(1)], unfold nf(2,3))
    show "itree_dom l' \<union> {t<..it_to n} \<union> itree_dom r = itree_dom (Node l n r) - {f..t}"
      using facts(4,5) b by (force simp: l'(2))
    show "(if v \<le> t then itree_find l' v else if v \<le> it_to n then it_id n else itree_find r v) =
        (if f \<le> v \<and> v \<le> t then 0 else itree_find (Node l n r) v)" for v
      using b facts(6) by (auto simp: l'(3) not_le)
  qed
qed

lemma node_inside_to:
  assumes ok: "itree_ok (Node l n r)" and b: "it_from n < f" "f \<le> t" "t \<le> it_to n"
    and r': "itree_ok r'" "itree_dom r' = itree_dom r \<union> {t<..it_to n}"
      "\<And>v. itree_find r' v = (if t < v \<and> v \<le> it_to n then it_id n else itree_find r v)"
  shows "deleted (Node l n r) f t (Node l (n\<lparr>it_to := f - 1\<rparr>) r')"
proof -
  note facts = node_facts [OF ok]
  have f: "f \<le> it_to n" using b by simp
  have le: "\<forall>v\<in>itree_dom r'. f \<le> v" using facts(5) b by (force simp: r'(2))
  note nt = node_to [OF ok b(1) f r'(1) le]
  show ?thesis
  proof (rule deletedI [OF nt(1)], unfold nt(2,3))
    show "itree_dom l \<union> {it_from n..<f} \<union> itree_dom r' = itree_dom (Node l n r) - {f..t}"
      using facts(4,5) b by (force simp: r'(2))
    show "(if f \<le> v then itree_find r' v else if it_from n \<le> v then it_id n else itree_find l v) =
        (if f \<le> v \<and> v \<le> t then 0 else itree_find (Node l n r) v)" for v
      using b facts(7) by (auto simp: r'(3) not_le)
  qed
qed

text \<open>The induction step for each function, from what holds for the subtrees.\<close>

abbreviation deletes :: "itree \<Rightarrow> bool" where
  "deletes T \<equiv> \<forall>f t. f \<le> t \<longrightarrow> deleted T f t (itree_delete T f t)"

abbreviation adds :: "itree \<Rightarrow> bool" where
  "adds T \<equiv> \<forall>f t i. f \<le> t \<longrightarrow> added T f t i (itree_add T f t i)"

lemma cover_step:
  assumes ok: "itree_ok (Node l n r)" and IH: "deletes l" "deletes r" and b: "f \<le> it_from n" "it_to n \<le> t"
  defines "l' \<equiv> if f < it_from n then itree_delete l f (it_from n - 1) else l"
    and "r' \<equiv> if it_to n < t then itree_delete r (it_to n + 1) t else r"
  shows "deleted (Node l n r) f t (itree_remove l' n r')" "added (Node l n r) f t i (Node l' \<lparr>it_from = f, it_to = t, it_id = i\<rparr> r')"
proof -
  have "f < it_from n \<Longrightarrow> deleted l f (it_from n - 1) l'" "f = it_from n \<Longrightarrow> l' = l"
    using IH(1) by (simp_all add: l'_def word_pred_le)
  note l' = left_cut [OF ok b(1) this]
  have "it_to n < t \<Longrightarrow> deleted r (it_to n + 1) t r'" "t = it_to n \<Longrightarrow> r' = r"
    using IH(2) by (simp_all add: r'_def word_suc_le)
  note r' = right_cut [OF ok b(2) this]
  show "deleted (Node l n r) f t (itree_remove l' n r')" by (rule node_over(1) [OF ok b l' r'])
  show "added (Node l n r) f t i (Node l' \<lparr>it_from = f, it_to = t, it_id = i\<rparr> r')" by (rule node_over(2) [OF ok b l' r'])
qed

lemma add_step:
  assumes ok: "itree_ok (Node l n r)" and IH: "deletes l" "deletes r" "adds l" "adds r" and ft: "f \<le> t"
  shows "added (Node l n r) f t i (itree_add (Node l n r) f t i)"
proof -
  note facts = node_facts [OF ok]
  consider "t < it_from n" | "it_to n < f" "\<not> t < it_from n" | "f \<le> it_from n" "it_to n \<le> t"
    | "it_from n \<le> f" "t \<le> it_to n" "\<not> (f \<le> it_from n \<and> it_to n \<le> t)"
    | "f < it_from n" "it_from n \<le> t" "t < it_to n" | "it_from n < f" "f \<le> it_to n" "it_to n < t" by force
  then show ?thesis
  proof cases
    case 1
    have "added (Node l n r) f t i (Node (itree_add l f t i) n r)" by (rule node_left(2) [OF ok ft 1]) (use IH(3) ft in blast)
    with 1 show ?thesis by simp
  next
    case 2
    have "added (Node l n r) f t i (Node l n (itree_add r f t i))" by (rule node_right(2) [OF ok ft 2(1)]) (use IH(4) ft in blast)
    with 2 show ?thesis by simp
  next
    case 3
    then have "\<not> t < it_from n" "\<not> it_to n < f" using facts(3) by force+
    with 3 cover_step(2) [OF ok IH(1,2) 3, of i] show ?thesis by simp
  next
    case 4
    let ?l = "if f > it_from n then itree_add l (it_from n) (f - 1) (it_id n) else l"
    let ?r = "if t < it_to n then itree_add r (t + 1) (it_to n) (it_id n) else r"
    have b: "f \<le> it_to n" "it_from n \<le> t" using 4 ft by simp_all
    have "added (Node l n r) f t i (Node ?l \<lparr>it_from = f, it_to = t, it_id = i\<rparr> ?r)"
      by (rule node_inside_add [OF ok 4(1) ft 4(2) left_rest [OF ok 4(1) b(1)] right_rest [OF ok 4(2) b(2)]])
        (use IH 4 in \<open>auto simp: word_pred_le word_suc_le\<close>)
    moreover have "\<not> t < it_from n" "\<not> it_to n < f" using b by auto
    ultimately show ?thesis using 4 by simp blast
  next
    case 5
    have "added (Node l n r) f t i (Node (itree_add l f t i) (n\<lparr>it_from := t + 1\<rparr>) r)"
      by (rule node_left_end(2) [OF ok 5]) (use IH(3) ft in blast)
    moreover have "\<not> t < it_from n" "\<not> it_to n < f" "\<not> it_to n \<le> t" "\<not> it_from n \<le> f" using 5 by auto
    ultimately show ?thesis using 5 by simp
  next
    case 6
    have "added (Node l n r) f t i (Node l (n\<lparr>it_to := f - 1\<rparr>) (itree_add r f t i))"
      by (rule node_right_end(2) [OF ok 6]) (use IH(4) ft in blast)
    moreover have "\<not> t < it_from n" "\<not> it_to n < f" "\<not> t \<le> it_to n" "\<not> f \<le> it_from n" "\<not> f < it_from n" using 6 by auto
    ultimately show ?thesis using 6 by simp
  qed
qed

lemma delete_step:
  assumes ok: "itree_ok (Node l n r)" and IH: "deletes l" "deletes r" "adds l" "adds r" and ft: "f \<le> t"
  shows "deleted (Node l n r) f t (itree_delete (Node l n r) f t)"
proof -
  note facts = node_facts [OF ok]
  consider "t < it_from n" | "it_to n < f" "\<not> t < it_from n" | "f \<le> it_from n" "it_to n \<le> t"
    | "f = it_from n" "t < it_to n" | "it_from n < f" "f \<le> t" "t \<le> it_to n"
    | "f < it_from n" "it_from n \<le> t" "t < it_to n" | "it_from n < f" "f \<le> it_to n" "it_to n < t" using ft by force
  then show ?thesis
  proof cases
    case 1
    have "deleted (Node l n r) f t (Node (itree_delete l f t) n r)" by (rule node_left(1) [OF ok ft 1]) (use IH(1) ft in blast)
    with 1 show ?thesis by simp
  next
    case 2
    have "deleted (Node l n r) f t (Node l n (itree_delete r f t))" by (rule node_right(1) [OF ok ft 2(1)]) (use IH(2) ft in blast)
    with 2 show ?thesis by simp
  next
    case 3
    then have "\<not> t < it_from n" "\<not> it_to n < f" using facts(3) by force+
    with 3 cover_step(1) [OF ok IH(1,2) 3] show ?thesis by simp
  next
    case 4
    have "deleted (Node l n r) f t (Node l (n\<lparr>it_from := t + 1\<rparr>) r)"
      by (rule node_inside_from [OF ok _ ft 4(2) facts(1)]) (use 4 in auto)
    moreover have "\<not> t < it_from n" "\<not> it_to n < f" "\<not> it_to n \<le> t" "it_from n \<le> f" "t \<le> it_to n" using 4 ft by auto
    ultimately show ?thesis using 4 by simp
  next
    case 5
    have b: "f \<le> it_to n" "it_from n \<le> f" "it_from n \<le> t" using 5 by simp_all
    have "deleted (Node l n r) f t (Node l (n\<lparr>it_to := f - 1\<rparr>) (if t < it_to n then itree_add r (t + 1) (it_to n) (it_id n) else r))"
      by (rule node_inside_to [OF ok 5 right_rest [OF ok 5(3) b(3)]]) (use IH in \<open>auto simp: word_suc_le\<close>)
    moreover have "deleted (Node l n r) f t (Node (itree_add l (it_from n) (f - 1) (it_id n)) (n\<lparr>it_from := t + 1\<rparr>) r)" if "t < it_to n"
      by (rule node_inside_from [OF ok b(2) ft that left_rest [OF ok b(2,1)]]) (use IH 5 in \<open>auto simp: word_pred_le\<close>)
    moreover have "\<not> t < it_from n" "\<not> it_to n < f" "\<not> f \<le> it_from n" "f \<noteq> it_from n" "t = it_to n \<or> t < it_to n" using 5 b by auto
    ultimately show ?thesis using 5 b by (cases "t = it_to n") simp_all
  next
    case 6
    have "deleted (Node l n r) f t (Node (itree_delete l f t) (n\<lparr>it_from := t + 1\<rparr>) r)"
      by (rule node_left_end(1) [OF ok 6]) (use IH(1) ft in blast)
    moreover have "\<not> t < it_from n" "\<not> it_to n < f" "\<not> it_to n \<le> t" "\<not> it_from n \<le> f" using 6 by auto
    ultimately show ?thesis using 6 by simp
  next
    case 7
    have "deleted (Node l n r) f t (Node l (n\<lparr>it_to := f - 1\<rparr>) (itree_delete r f t))"
      by (rule node_right_end(1) [OF ok 7]) (use IH(2) ft in blast)
    moreover have "\<not> t < it_from n" "\<not> it_to n < f" "\<not> t \<le> it_to n" "\<not> f \<le> it_from n" "\<not> f < it_from n" using 7 by auto
    ultimately show ?thesis using 7 by simp
  qed
qed

lemma delete_add: "itree_ok T \<Longrightarrow> deletes T \<and> adds T"
proof (induction T)
  case Leaf
  then show ?case by (simp add: deleted_def added_def)
next
  case (Node l n r)
  then have "deletes l" "deletes r" "adds l" "adds r" by simp_all
  with add_step [OF Node.prems] delete_step [OF Node.prems] show ?case by blast
qed

subsection \<open>Rebalancing keeps the intervals\<close>

lemma simplify_segs:
  "segs_ok ns \<Longrightarrow> segs_ok (itree_simplify ns) \<and> segs_dom (itree_simplify ns) = segs_dom ns \<and>
   segs_find (itree_simplify ns) v = segs_find ns v"
proof (induction ns rule: itree_simplify.induct)
  case (1 n m ns)
  show ?case
  proof (cases "it_id n = it_id m \<and> it_to n + 1 = it_from m")
    case True
    have lt: "it_to n < it_from m" and m: "it_from m \<le> it_to m" using 1(3) by auto
    have n: "it_from n \<le> it_to n" and rest: "\<And>w. w \<in> segs_dom ns \<Longrightarrow> it_to m < w" "segs_ok ns" using 1(3) by auto
    have suc: "it_from m \<le> w \<longleftrightarrow> it_to n < w" for w using word_suc_le [OF lt, of w] True by simp
    have join: "it_from n \<le> w \<and> w \<le> it_to m \<longleftrightarrow> it_from n \<le> w \<and> w \<le> it_to n \<or> it_from m \<le> w \<and> w \<le> it_to m" for w
      using n lt m unfolding suc by (cases "w \<le> it_to n") auto
    have "segs_dom (n\<lparr>it_to := it_to m\<rparr> # ns) = segs_dom (n # m # ns)"
      using join by (simp add: set_eq_iff)
    moreover have "segs_find (n\<lparr>it_to := it_to m\<rparr> # ns) v = segs_find (n # m # ns) v"
      using join [of v] True by simp
    moreover have "it_from n \<le> it_to m" using n lt m by simp
    then have "segs_ok (n\<lparr>it_to := it_to m\<rparr> # ns)" using rest by simp
    ultimately show ?thesis using 1(1) [OF True] True by simp
  next
    case False
    with 1(2,3) show ?thesis by auto
  qed
qed auto

lemma totree_inorder: "inorder (itree_totree ns) = ns"
proof (induction ns rule: itree_totree.induct)
  case (2 n ns)
  define m where "m = itree_middle 0 (n # ns)"
  have "m < length (n # ns)" by (simp add: m_def itree_middle)
  then have "take m (n # ns) @ (n # ns) ! m # drop (Suc m) (n # ns) = n # ns" by (rule id_take_nth_drop [symmetric])
  with 2 [OF m_def] show ?case
    by (simp add: inorder_Node m_def [symmetric] Let_def del: itree_tolist.simps(2))
qed simp

fun itree_height :: "itree \<Rightarrow> nat" where
  "itree_height Leaf = 0"
| "itree_height (Node l n r) = Suc (max (itree_height l) (itree_height r))"

lemma totree_height: "ns \<noteq> [] \<Longrightarrow> 2 ^ itree_height (itree_totree ns) \<le> 2 * length ns"
proof (induction ns rule: itree_totree.induct)
  case (2 n ns)
  define m where "m = itree_middle 0 (n # ns)"
  have m: "m = length (n # ns) div 2" by (simp add: m_def itree_middle)
  have small: "2 ^ itree_height (itree_totree xs) \<le> length (n # ns)"
    if "length xs \<le> m" "xs \<noteq> [] \<Longrightarrow> 2 ^ itree_height (itree_totree xs) \<le> 2 * length xs" for xs
  proof (cases "xs = []")
    case False
    with that m show ?thesis by linarith
  qed simp
  have "2 ^ itree_height (itree_totree (take m (n # ns))) \<le> length (n # ns)"
    by (rule small) (use 2(1) [OF m_def] in simp_all)
  moreover have "2 ^ itree_height (itree_totree (drop (Suc m) (n # ns))) \<le> length (n # ns)"
    by (rule small) (use 2(2) [OF m_def] m in auto)
  ultimately show ?case by (simp add: m_def [symmetric] Let_def max_def)
qed simp

lemma simplify_nonempty: "ns \<noteq> [] \<Longrightarrow> itree_simplify ns \<noteq> []"
  by (induction ns rule: itree_simplify.induct) auto

lemma simplify_length: "length (itree_simplify ns) \<le> length ns"
  by (induction ns rule: itree_simplify.induct) auto

subsection \<open>The interface\<close>

definition between :: "u32 \<Rightarrow> u32 \<Rightarrow> u32 \<Rightarrow> bool" where
  "between f t v \<longleftrightarrow> min f t \<le> v \<and> v \<le> max f t"

text \<open>What the users of the tree rely on.\<close>

locale address_map =
  fixes nothing :: 'm
    and add_interval :: "'m \<Rightarrow> u32 \<Rightarrow> u32 \<Rightarrow> u32 \<Rightarrow> 'm"
    and find :: "'m \<Rightarrow> u32 \<Rightarrow> u32"
    and rebalance :: "'m \<Rightarrow> 'm"
    and ok :: "'m \<Rightarrow> bool"
  assumes ok_nothing: "ok nothing"
    and find_nothing: "find nothing v = 0"
    and ok_add: "ok m \<Longrightarrow> ok (add_interval m f t i)"
    and find_add: "ok m \<Longrightarrow> find (add_interval m f t i) v = (if between f t v then i else find m v)"
    and ok_rebalance: "ok m \<Longrightarrow> ok (rebalance m)"
    and find_rebalance: "ok m \<Longrightarrow> find (rebalance m) v = find m v"
begin

text \<open>After a list of intervals was added, the last one that holds an address counts.\<close>

definition add_all :: "'m \<Rightarrow> (u32 \<times> u32 \<times> u32) list \<Rightarrow> 'm" where
  "add_all m rs = fold (\<lambda>(f, t, i) m. add_interval m f t i) rs m"

lemma ok_add_all: "ok m \<Longrightarrow> ok (add_all m rs)"
  by (induction rs arbitrary: m) (auto simp: add_all_def ok_add)

lemma find_add_all:
  "ok m \<Longrightarrow> find (add_all m rs) v =
     (case List.find (\<lambda>(f, t, i). between f t v) (rev rs) of Some (f, t, i) \<Rightarrow> i | None \<Rightarrow> find m v)"
proof (induction rs rule: rev_induct)
  case (snoc r rs)
  then show ?case using ok_add_all [OF snoc.prems, of rs] by (cases r) (simp add: add_all_def find_add)
qed (simp add: add_all_def)

lemma find_table:
  "find (rebalance (add_all nothing rs)) v =
     (case List.find (\<lambda>(f, t, i). between f t v) (rev rs) of Some (f, t, i) \<Rightarrow> i | None \<Rightarrow> 0)"
  using find_add_all [OF ok_nothing, of rs v] by (simp add: find_rebalance ok_add_all ok_nothing find_nothing cong: option.case_cong)

end

lemma add_interval_map:
  assumes "itree_ok root"
  shows "itree_ok (itree_add_interval root f t i)"
    and "itree_find (itree_add_interval root f t i) v = (if between f t v then i else itree_find root v)"
proof -
  have d: "deleted root (min f t) (max f t) (itree_delete root (min f t) (max f t))"
    and a: "added root (min f t) (max f t) i (itree_add root (min f t) (max f t) i)"
    using delete_add [OF assms] min_le_iff_disj [of f t "max f t"] by (simp_all add: le_max_iff_disj)
  have "itree_add_interval root f t i =
      (if i = 0 then itree_delete root (min f t) (max f t) else itree_add root (min f t) (max f t) i)"
    by (cases "f \<le> t") (auto simp: itree_add_interval_def min_def max_def not_le)
  then show "itree_ok (itree_add_interval root f t i)"
    and "itree_find (itree_add_interval root f t i) v = (if between f t v then i else itree_find root v)"
    using deletedD [OF d] addedD [OF a] by (simp_all add: between_def)
qed

lemma rebalance_map:
  assumes "itree_ok root"
  shows "itree_ok (itree_rebalance root)" "itree_find (itree_rebalance root) v = itree_find root v"
proof -
  have s: "segs_ok (inorder root)" using assms by (simp add: itree_ok_inorder)
  then show ok: "itree_ok (itree_rebalance root)"
    using simplify_segs by (simp add: itree_rebalance_def itree_ok_inorder totree_inorder)
  show "itree_find (itree_rebalance root) v = itree_find root v"
    using simplify_segs [OF s, of v] find_inorder [OF ok] find_inorder [OF assms] by (simp add: itree_rebalance_def totree_inorder)
qed

interpretation ia: address_map Leaf itree_add_interval itree_find itree_rebalance itree_ok
  by unfold_locales (simp_all add: add_interval_map rebalance_map)

subsection \<open>Properties\<close>

text \<open>
  C28. Adding an interval: in a tree of disjoint intervals, \<^verbatim>\<open>itree_add_interval\<close> with any two ends gives a
  tree of disjoint intervals again, in which \<^verbatim>\<open>itree_find\<close> gives the new number for every address
  between the ends (both included, in either order; zero deletes) and the old one for every other address.
\<close>

theorem itree_add_interval_correct:
  assumes "itree_ok root"
  shows "itree_ok (itree_add_interval root f t i) \<and>
    (\<forall>v. itree_find (itree_add_interval root f t i) v = (if min f t \<le> v \<and> v \<le> max f t then i else itree_find root v))"
  using ia.ok_add [OF assms] ia.find_add [OF assms] by (simp add: between_def)

theorem itree_add_interval_correct_witness:
  "itree_find (itree_add_interval (itree_add_interval Leaf 10 90 1) 60 40 2) 50 = 2 \<and>
   itree_find (itree_add_interval (itree_add_interval Leaf 10 90 1) 60 40 2) 70 = 1"
proof -
  have "itree_ok (itree_add_interval Leaf 10 90 1)" by (simp add: itree_add_interval_def)
  note correct = itree_add_interval_correct [OF this, of 60 40 2]
  have "itree_find (itree_add_interval Leaf 10 90 1) 70 = 1" by (simp add: itree_add_interval_def)
  with correct show ?thesis by (simp add: min_def max_def)
qed

text \<open>
  C29. Rebalancing: \<^verbatim>\<open>itree_rebalance\<close> gives a tree of disjoint intervals with the same number for every
  address, and its height is at most one more than the binary logarithm of the number of old nodes.
\<close>

theorem itree_rebalance_correct:
  assumes "itree_ok root"
  shows "itree_ok (itree_rebalance root) \<and> (\<forall>v. itree_find (itree_rebalance root) v = itree_find root v) \<and>
    (root \<noteq> Leaf \<longrightarrow> 2 ^ itree_height (itree_rebalance root) \<le> 2 * length (itree_tolist root []))"
proof -
  have "2 ^ itree_height (itree_rebalance root) \<le> 2 * length (inorder root)" if "root \<noteq> Leaf"
  proof -
    have "inorder root \<noteq> []" using that by (cases root) (simp_all add: inorder_Node del: itree_tolist.simps(2))
    then have "itree_simplify (inorder root) \<noteq> []" by (rule simplify_nonempty)
    from totree_height [OF this] simplify_length [of "inorder root"] show ?thesis
      unfolding itree_rebalance_def by linarith
  qed
  with rebalance_map [OF assms] show ?thesis by blast
qed

theorem itree_rebalance_correct_witness:
  "itree_find (itree_rebalance (itree_add_interval (itree_add_interval Leaf 10 90 1) 60 40 2)) 50 = 2"
proof -
  have "itree_ok (itree_add_interval (itree_add_interval Leaf 10 90 1) 60 40 2)" by (intro add_interval_map) simp
  from itree_rebalance_correct [OF this] show ?thesis by (simp add: itree_add_interval_def)
qed

end
