(* ===== verification/Topology.thy ===== *)
theory Topology
  imports Interval_Tree C_Text "HOL-Library.Monad_Syntax"
begin

text \<open>
  The network topology of \<^verbatim>\<open>mfsmaster/topology.c\<close>: names of racks with their numbers, lines that give a
  range of addresses a rack, the table that is built from a file of such lines, and the distance between two addresses. Lines
  are C strings; the file is an argument. Log messages are left out.
\<close>

unbundle bit_operations_syntax

subsection \<open>Names and numbers of racks\<close>

definition HASHTABSIZE :: u32 where [simp]: "HASHTABSIZE = 4096"

definition hashstr_poly :: "string \<Rightarrow> u32 \<Rightarrow> u32" where
  "hashstr_poly key hash = fold (\<lambda>p hash. hash * 29791 + of_char p) key (hash XOR 1000000007)"

definition topology_rackname_hash :: "string \<Rightarrow> u32" where
  "topology_rackname_hash rackname = hashstr_poly rackname 0"

record rackhashentry =
  rh_rackname :: string
  rh_rackid :: u32
  rh_hash :: u32

text \<open>The chains of the hash table, the table of numbers (\<^verbatim>\<open>rackidtabsize\<close> is its length) and the next number.\<close>

record racknames =
  rackhashtab :: "u32 \<Rightarrow> rackhashentry list"
  rackidtab :: "rackhashentry option list"
  rackidnext :: u32

definition topology_rackname_init :: racknames where
  "topology_rackname_init = \<lparr>rackhashtab = (\<lambda>i. []), rackidtab = [], rackidnext = 0\<rparr>"

definition topology_get_next_free_rackid :: "racknames \<Rightarrow> u32 \<times> racknames" where
  "topology_get_next_free_rackid rn =
     (let i = length (rackidtab rn);
          next = (if i = 0 then 1 else rackidnext rn);
          size = (if i = 0 then 1024 else if unat (rackidnext rn) \<ge> i then i * 3 div 2 else i)
      in (next, rn\<lparr>rackidtab := rackidtab rn @ replicate (size - i) None, rackidnext := next + 1\<rparr>))"

definition topology_rackname_to_rackid :: "string \<Rightarrow> racknames \<Rightarrow> u32 \<times> racknames" where
  "topology_rackname_to_rackid rackname rn =
     (let hash = topology_rackname_hash rackname; hashpos = hash mod HASHTABSIZE
      in case List.find (\<lambda>rhe. rh_hash rhe = hash \<and> rh_rackname rhe = rackname) (rackhashtab rn hashpos) of
           Some rhe \<Rightarrow> (rh_rackid rhe, rn)
         | None \<Rightarrow>
             (let (rackid, rn1) = topology_get_next_free_rackid rn;
                  rhe = \<lparr>rh_rackname = rackname, rh_rackid = rackid, rh_hash = hash\<rparr>
              in (rackid, rn1\<lparr>rackhashtab := (rackhashtab rn1)(hashpos := rhe # rackhashtab rn1 hashpos),
                    rackidtab := (rackidtab rn1)[unat rackid := Some rhe]\<rparr>)))"

text \<open>\<^const>\<open>None\<close> is NULL; a number below the next one has an entry in the table.\<close>

definition topology_rackid_to_rackname :: "racknames \<Rightarrow> u32 \<Rightarrow> string option" where
  "topology_rackid_to_rackname rn rackid =
     (if rackid = 0 then Some '''' else if rackid < rackidnext rn then map_option rh_rackname (rackidtab rn ! unat rackid) else None)"

subsection \<open>Ranges of addresses\<close>

definition isdigit :: "char \<Rightarrow> bool" where
  "isdigit c \<longleftrightarrow> 48 \<le> code c \<and> code c \<le> 57"

fun octet_loop :: "u32 \<Rightarrow> string \<Rightarrow> (u32 \<times> string) option" where
  "octet_loop octet [] = Some (octet, [])"
| "octet_loop octet (c # net) =
     (if isdigit c then
        (let octet = octet * 10 + of_nat (code c - 48) in if octet > 255 then None else octet_loop octet net)
      else Some (octet, c # net))"

definition parse_octet :: "string \<Rightarrow> (u32 \<times> string) option" where
  "parse_octet net = (if isdigit (at net) then octet_loop 0 net else None)"

text \<open>The loop over the octets from the one with number \<open>i\<close>.\<close>

function parse_ip :: "nat \<Rightarrow> u32 \<Rightarrow> string \<Rightarrow> (u32 \<times> string) option" where
  "parse_ip i ip net =
     (if i \<ge> 4 then Some (ip, net)
      else do {
        (octet, net) \<leftarrow> parse_octet net;
        if i < 3 \<and> at net \<noteq> CHR ''.'' then None
        else parse_ip (Suc i) (ip * 256 + octet) (if i < 3 then tl net else net)
      })"
  by auto
termination by (relation "measure (\<lambda>(i, ip, net). 4 - i)") auto

declare parse_ip.simps [simp del]

text \<open>
  The mask after a slash: a number of bits that ends the text, or four octets. For zero bits the code shifts by the width
  of the type, which C leaves undefined; \<open>shl32\<close> is what the machine makes of it.
\<close>

definition parse_mask :: "u32 \<Rightarrow> string \<Rightarrow> (u32 \<times> string) option" where
  "parse_mask shl32 net = do {
     (octet, net) \<leftarrow> parse_octet net;
     if net = [] \<and> octet \<le> 32 then
       Some (if octet = 0 then shl32 else if octet < 32 then push_bit (32 - unat octet) 0xFFFFFFFF else 0xFFFFFFFF, net)
     else if at net \<noteq> CHR ''.'' then None
     else parse_ip 1 octet (tl net)
   }"

definition topology_parsenet :: "u32 \<Rightarrow> string \<Rightarrow> (u32 \<times> u32) option" where
  "topology_parsenet shl32 net =
     (if net = ''*'' then Some (0, 0xFFFFFFFF)
      else do {
        (ip, net) \<leftarrow> parse_ip 0 0 net;
        if net = [] then Some (ip, ip)
        else if at net = CHR ''/'' then do {
          (mask, net) \<leftarrow> parse_mask shl32 (tl net);
          if net \<noteq> [] then None else Some (ip AND mask, (ip AND mask) OR (mask XOR 0xFFFFFFFF))
        }
        else if at net = CHR ''-'' then do {
          (ip2, net) \<leftarrow> parse_ip 0 0 (tl net);
          if net \<noteq> [] then None else Some (ip, ip2)
        }
        else None
      })"

subsection \<open>Lines and files\<close>

definition blank :: "char \<Rightarrow> bool" where
  "blank c \<longleftrightarrow> c = CHR '' '' \<or> c = CHR 0x09"

text \<open>The result of the line with the names after it: a name is registered even when something follows it.\<close>

definition topology_parseline :: "u32 \<Rightarrow> string \<Rightarrow> racknames \<Rightarrow> (u32 \<times> u32 \<times> u32) option \<times> racknames" where
  "topology_parseline shl32 line rn =
     (let p = dropWhile blank line
      in if p = [] \<or> at p = CHR ''#'' then (None, rn)
         else let net = takeWhile (\<lambda>c. \<not> blank c) p; p = dropWhile (\<lambda>c. \<not> blank c) p
         in if p = [] then (None, rn)
            else case topology_parsenet shl32 net of
              None \<Rightarrow> (None, rn)
            | Some (fip, tip) \<Rightarrow>
                (let p = dropWhile blank (tl p)
                 in if p = [] \<or> at p = CHR ''#'' then (None, rn)
                    else let rackname = takeWhile (\<lambda>c. \<not> blank c) p;
                             p = dropWhile blank (dropWhile (\<lambda>c. \<not> blank c) p);
                             (rid, rn) = topology_rackname_to_rackid rackname rn
                         in (if p \<noteq> [] \<and> at p \<noteq> CHR ''#'' then None else Some (fip, tip, rid), rn)))"

definition strip_end :: "string \<Rightarrow> string" where
  "strip_end line = rev (dropWhile (\<lambda>c. c \<in> {CHR 0x0D, CHR 0x0A, CHR 0x09, CHR '' ''}) (rev line))"

definition topology_load_line :: "u32 \<Rightarrow> string \<Rightarrow> itree \<times> racknames \<Rightarrow> itree \<times> racknames" where
  "topology_load_line shl32 line = (\<lambda>(newtree, rn).
     (let linebuff = strip_end line
      in if linebuff = [] then (newtree, rn)
         else case topology_parseline shl32 linebuff rn of
           (Some (fip, tip, rid), rn) \<Rightarrow> (itree_add_interval newtree fip tip rid, rn)
         | (None, rn) \<Rightarrow> (newtree, rn)))"

record topology =
  racktree :: itree
  names :: racknames

definition topology_init :: topology where
  "topology_init = \<lparr>racktree = Leaf, names = topology_rackname_init\<rparr>"

text \<open>
  The file: \<^const>\<open>None\<close> when it cannot be opened, otherwise its lines and whether reading failed at the end. The
  names are put aside and come back when reading fails.
\<close>

definition topology_load :: "u32 \<Rightarrow> (string list \<times> bool) option \<Rightarrow> topology \<Rightarrow> topology" where
  "topology_load shl32 file tp =
     (case file of
        None \<Rightarrow> tp
      | Some (linebuffs, ferror) \<Rightarrow>
          (let (newtree, rn) = fold (topology_load_line shl32) linebuffs (Leaf, topology_rackname_init)
           in if ferror then tp
              else \<lparr>racktree = (if newtree = Leaf then Leaf else itree_rebalance newtree), names = rn\<rparr>))"

definition topology_get_rackid :: "topology \<Rightarrow> u32 \<Rightarrow> u32" where
  "topology_get_rackid tp ip = itree_find (racktree tp) ip"

subsection \<open>Distance\<close>

text \<open>
  The loop that compares two names: \<open>(pos, lastbar)\<close> stay positions in the first arguments, which are the complete names;
  the result is \<^verbatim>\<open>lastbar\<close>, or \<^const>\<open>None\<close> for equal names.
\<close>

fun last_common_bar :: "nat \<Rightarrow> nat \<Rightarrow> string \<Rightarrow> string \<Rightarrow> nat option" where
  "last_common_bar pos lastbar [] [] = None"
| "last_common_bar pos lastbar [] (d # r2) = Some (if d = CHR ''|'' then pos else lastbar)"
| "last_common_bar pos lastbar (c # r1) [] = Some (if c = CHR ''|'' then pos else lastbar)"
| "last_common_bar pos lastbar (c # r1) (d # r2) =
     (if c \<noteq> d then Some lastbar else last_common_bar (Suc pos) (if c = CHR ''|'' then pos else lastbar) r1 r2)"

definition bars_after :: "nat \<Rightarrow> string \<Rightarrow> u8" where
  "bars_after lastbar rname =
     (let pos = (if at (drop lastbar rname) = CHR ''|'' then lastbar + 1 else lastbar)
      in of_nat (length (filter (\<lambda>c. c = CHR ''|'') (drop pos rname))))"

definition topology_distance :: "topology \<Rightarrow> u32 \<Rightarrow> u32 \<Rightarrow> u8" where
  "topology_distance tp ip1 ip2 =
     (if ip1 = ip2 then 0
      else let rid1 = itree_find (racktree tp) ip1; rid2 = itree_find (racktree tp) ip2
      in if rid1 = rid2 then 1
         else let rname1 = topology_rackid_to_rackname (names tp) rid1; rname2 = topology_rackid_to_rackname (names tp) rid2;
                  bars = (\<lambda>lastbar rname. case rname of None \<Rightarrow> 0 | Some s \<Rightarrow> bars_after lastbar s)
         in if rname1 = None \<and> rname2 = None then 1
            else case (case (rname1, rname2) of (Some s1, Some s2) \<Rightarrow> last_common_bar 0 0 s1 s2 | _ \<Rightarrow> Some 0) of
              None \<Rightarrow> 1
            | Some lastbar \<Rightarrow> 2 + max (bars lastbar rname1) (bars lastbar rname2))"

subsection \<open>Names keep their numbers\<close>

definition names_ok :: "racknames \<Rightarrow> bool" where
  "names_ok rn \<longleftrightarrow> (rackidtab rn = [] \<and> rackidnext rn = 0 \<or> 1024 \<le> length (rackidtab rn) \<and> 0 < rackidnext rn) \<and>
     unat (rackidnext rn) \<le> length (rackidtab rn) \<and>
     (\<forall>h. \<forall>rhe\<in>set (rackhashtab rn h). 0 < rh_rackid rhe \<and> rh_rackid rhe < rackidnext rn \<and>
        rackidtab rn ! unat (rh_rackid rhe) = Some rhe)"

lemma names_ok_init: "names_ok topology_rackname_init"
  by (simp add: names_ok_def topology_rackname_init_def)

lemma next_free_rackid:
  assumes "topology_get_next_free_rackid rn = (i, rn1)" "names_ok rn" "unat (rackidnext rn) < 2 ^ 31"
  shows "0 < i" "rackidnext rn \<le> i" "rackidnext rn1 = i + 1" "unat i < length (rackidtab rn1)" "1024 \<le> length (rackidtab rn1)"
    "unat (i + 1) = Suc (unat i)" "rackhashtab rn1 = rackhashtab rn" "unat i \<le> Suc (unat (rackidnext rn))"
    "\<And>j. j < length (rackidtab rn) \<Longrightarrow> rackidtab rn1 ! j = rackidtab rn ! j"
proof -
  let ?n = "length (rackidtab rn)"
  let ?size = "if ?n = 0 then 1024 else if unat (rackidnext rn) \<ge> ?n then ?n * 3 div 2 else ?n"
  have i: "i = (if ?n = 0 then 1 else rackidnext rn)" and follows: "rackidnext rn1 = i + 1"
    and tab: "rackidtab rn1 = rackidtab rn @ replicate (?size - ?n) None" and h: "rackhashtab rn1 = rackhashtab rn"
    using assms(1) by (auto simp: topology_get_next_free_rackid_def Let_def)
  have ok: "?n = 0 \<and> rackidnext rn = 0 \<or> 1024 \<le> ?n \<and> 0 < rackidnext rn" and le: "unat (rackidnext rn) \<le> ?n"
    using assms(2) by (auto simp: names_ok_def)
  show "rackidnext rn1 = i + 1" "rackhashtab rn1 = rackhashtab rn" by fact+
  show "0 < i" "rackidnext rn \<le> i" using i ok by auto
  show ui: "unat i \<le> Suc (unat (rackidnext rn))" using i by auto
  with assms(3) show "unat (i + 1) = Suc (unat i)" by (simp add: unat_word_ariths)
  show "rackidtab rn1 ! j = rackidtab rn ! j" if "j < ?n" for j using that by (simp add: tab nth_append)
  have "length (rackidtab rn1) = ?size" by (auto simp: tab)
  then show "unat i < length (rackidtab rn1)" "1024 \<le> length (rackidtab rn1)" using ok le by (auto simp: i)
qed

text \<open>Looking up a name gives its number; all other names keep theirs.\<close>

definition keeps_names :: "racknames \<Rightarrow> racknames \<Rightarrow> bool" where
  "keeps_names rn rn' \<longleftrightarrow> (\<forall>i s. topology_rackid_to_rackname rn i = Some s \<longrightarrow> topology_rackid_to_rackname rn' i = Some s)"

lemma rackname_to_rackid:
  assumes "topology_rackname_to_rackid s rn = (i, rn')" "names_ok rn" "unat (rackidnext rn) < 2 ^ 31"
  shows "names_ok rn' \<and> topology_rackid_to_rackname rn' i = Some s \<and> keeps_names rn rn' \<and>
    unat (rackidnext rn') \<le> unat (rackidnext rn) + 2"
proof -
  let ?hash = "topology_rackname_hash s" let ?pos = "?hash mod HASHTABSIZE"
  show ?thesis
  proof (cases "List.find (\<lambda>rhe. rh_hash rhe = ?hash \<and> rh_rackname rhe = s) (rackhashtab rn ?pos)")
    case (Some rhe)
    then have "rhe \<in> set (rackhashtab rn ?pos)" "rh_rackname rhe = s" by (auto simp: find_Some_iff)
    moreover from this assms(2) have "0 < rh_rackid rhe" "rh_rackid rhe < rackidnext rn"
      "rackidtab rn ! unat (rh_rackid rhe) = Some rhe" unfolding names_ok_def by blast+
    moreover have "i = rh_rackid rhe" "rn' = rn" using Some assms(1) by (simp_all add: topology_rackname_to_rackid_def Let_def)
    ultimately show ?thesis using assms(2) by (auto simp: topology_rackid_to_rackname_def keeps_names_def)
  next
    case None
    obtain j rn1 where free: "topology_get_next_free_rackid rn = (j, rn1)" by fastforce
    let ?rhe = "\<lparr>rh_rackname = s, rh_rackid = j, rh_hash = ?hash\<rparr>"
    note nf = next_free_rackid [OF free assms(2,3)]
    have new: "i = j" "rackhashtab rn' = (rackhashtab rn)(?pos := ?rhe # rackhashtab rn ?pos)"
      "rackidtab rn' = (rackidtab rn1)[unat j := Some ?rhe]" "rackidnext rn' = j + 1"
      using assms(1) None nf(3,7) by (auto simp: topology_rackname_to_rackid_def Let_def free)
    have lt: "i < j + 1" if "i \<le> j" for i using that nf(6) by (simp add: word_less_nat_alt word_le_nat_alt)
    have old: "rackidtab rn' ! unat i = rackidtab rn ! unat i \<and> i < j + 1" if "i < rackidnext rn" for i
    proof -
      have "unat i < length (rackidtab rn)" "i < j" using that nf(2) assms(2) by (auto simp: names_ok_def word_less_nat_alt word_le_nat_alt)
      moreover from this have "unat j \<noteq> unat i" by (simp add: word_less_nat_alt)
      ultimately show ?thesis using nf(9) [of "unat i"] lt [of i] by (simp add: new)
    qed
    have "0 < rh_rackid e \<and> rh_rackid e < rackidnext rn' \<and> rackidtab rn' ! unat (rh_rackid e) = Some e"
      if "e \<in> set (rackhashtab rn' h)" for e h
    proof (cases "e \<in> set (rackhashtab rn h)")
      case True
      with assms(2) have "0 < rh_rackid e" "rh_rackid e < rackidnext rn" "rackidtab rn ! unat (rh_rackid e) = Some e"
        unfolding names_ok_def by blast+
      with old show ?thesis by (simp add: new(4))
    next
      case False
      with that have "e = ?rhe" by (auto simp: new(2) split: if_splits)
      with nf(1,4) lt [of j] show ?thesis by (simp add: new)
    qed
    moreover have "0 < j + 1" using lt [of j] by (metis order_refl word_zero_le order_le_less_trans)
    ultimately have "names_ok rn'" using nf(4-6) by (auto simp: names_ok_def new(3,4))
    moreover have "keeps_names rn rn'" using old by (auto simp: keeps_names_def topology_rackid_to_rackname_def new(4))
    moreover have "topology_rackid_to_rackname rn' i = Some s"
      using nf(1,4) lt [of j] by (auto simp: topology_rackid_to_rackname_def new)
    ultimately show ?thesis using nf(6,8) by (simp add: new(4))
  qed
qed

subsection \<open>Ranges in every notation\<close>

text \<open>The octets of an address in dotted notation.\<close>

definition dotted :: "u32 \<Rightarrow> string" where
  "dotted ip =
     num 10 (unat ip div 2 ^ 24) @ ''.'' @ num 10 (unat ip div 2 ^ 16 mod 256) @ ''.'' @
     num 10 (unat ip div 2 ^ 8 mod 256) @ ''.'' @ num 10 (unat ip mod 256)"

lemma isdigit_char [simp]: "d < 10 \<Longrightarrow> isdigit (digit_char d)" "d < 10 \<Longrightarrow> code (digit_char d) = 48 + d"
  by (simp_all add: isdigit_def digit_char_def)

lemma octet_loop_end: "\<not> isdigit (at r) \<Longrightarrow> octet_loop acc r = Some (acc, r)"
  by (cases r) auto

lemma unat_octet: "n < 256 \<Longrightarrow> unat (of_nat n :: u32) = n"
  by (simp add: unat_of_nat)

lemma octet_loop_num: "n < 256 \<Longrightarrow> octet_loop 0 (num 10 n @ r) = octet_loop (of_nat n) r"
proof (induction n arbitrary: r rule: less_induct)
  case (less n)
  have small: "\<not> (255 :: u32) < of_nat n" using less.prems by (simp add: word_less_nat_alt unat_octet)
  show ?case
  proof (cases "n < 10")
    case True
    then show ?thesis using small by (subst num.simps) (simp add: Let_def)
  next
    case False
    have "of_nat (n div 10 * 10 + n mod 10) = (of_nat n :: u32)" by simp
    then have "of_nat (n div 10) * 10 + of_nat (n mod 10) = (of_nat n :: u32)" by (simp only: of_nat_add of_nat_mult of_nat_numeral)
    then show ?thesis using False less.IH [of "n div 10"] less.prems small by (subst num.simps) (simp add: Let_def)
  qed
qed

lemma num_hd: "\<exists>d t. d < 10 \<and> num 10 n = digit_char d # t"
proof (induction n rule: less_induct)
  case (less n)
  show ?case
  proof (cases "n < 10")
    case True
    then show ?thesis by (subst num.simps) auto
  next
    case False
    then obtain d t where "d < 10" "num 10 (n div 10) = digit_char d # t" using less [of "n div 10"] by auto
    then show ?thesis using False by (subst num.simps) auto
  qed
qed

lemma parse_octet_num: "\<lbrakk>n < 256; \<not> isdigit (at r)\<rbrakk> \<Longrightarrow> parse_octet (num 10 n @ r) = Some (of_nat n, r)"
  using num_hd [of n] octet_loop_num [of n r] by (auto simp: parse_octet_def octet_loop_end)

lemma not_isdigit [simp]: "\<not> isdigit NUL" "\<not> isdigit CHR ''.''" "\<not> isdigit CHR ''/''" "\<not> isdigit CHR ''-''"
  by (simp_all add: isdigit_def)

lemma octets: "((of_nat (unat ip div 2 ^ 24) * 256 + of_nat (unat ip div 2 ^ 16 mod 256)) * 256 +
    of_nat (unat ip div 2 ^ 8 mod 256)) * 256 + of_nat (unat ip mod 256) = (ip :: u32)"
proof -
  define n where "n = unat ip"
  have "n div 2 ^ 24 = n div 2 ^ 16 div 256" "n div 2 ^ 16 = n div 2 ^ 8 div 256" "n div 2 ^ 8 = n div 256"
    by (simp_all flip: div_mult2_eq)
  then have "((n div 2 ^ 24 * 256 + n div 2 ^ 16 mod 256) * 256 + n div 2 ^ 8 mod 256) * 256 + n mod 256 = n"
    by (simp only: div_mult_mod_eq)
  then have "of_nat (((n div 2 ^ 24 * 256 + n div 2 ^ 16 mod 256) * 256 + n div 2 ^ 8 mod 256) * 256 + n mod 256) = ip"
    by (simp only: n_def) simp
  then show ?thesis unfolding n_def of_nat_add of_nat_mult by simp
qed

lemma octet_bound: "unat (ip :: u32) div 2 ^ 24 < 256"
  using unsigned_less [of ip] by (intro less_mult_imp_div_less) simp

lemma parse_ip_dotted: "\<not> isdigit (at r) \<Longrightarrow> parse_ip 0 0 (dotted ip @ r) = Some (ip, r)"
  using octets [of ip] octet_bound [of ip]
  by (simp add: dotted_def parse_ip.simps parse_octet_num)

lemma parse_mask_dotted: "parse_mask shl32 (dotted m) = Some (m, [])"
  using octets [of m] octet_bound [of m] parse_octet_num [of "unat m mod 256" "[]"]
  by (simp add: dotted_def parse_mask_def parse_ip.simps parse_octet_num)

lemma all_ones: "(0xFFFFFFFF :: u32) = - 1"
  by simp

lemma parse_mask_bits: "\<lbrakk>0 < b; b \<le> 32\<rbrakk> \<Longrightarrow> parse_mask shl32 (num 10 b) = Some (NOT (mask (32 - b)), [])"
  using parse_octet_num [of b "[]"] unat_octet [of b] unat_eq_zero [of "of_nat b :: u32"]
  by (auto simp: parse_mask_def word_le_nat_alt word_less_nat_alt all_ones simp flip: push_bit_minus_one_eq_not_mask)

lemma dotted_star: "dotted ip @ r \<noteq> ''*''"
  using num_hd [of "unat ip div 2 ^ 24"] by (auto simp: dotted_def)

lemma parsenet_forms:
  "topology_parsenet shl32 (dotted ip) = Some (ip, ip)"
  "topology_parsenet shl32 (dotted ip @ ''-'' @ dotted ip2) = Some (ip, ip2)"
  "topology_parsenet shl32 (dotted ip @ ''/'' @ dotted m) = Some (ip AND m, ip AND m OR (m XOR 0xFFFFFFFF))"
  "\<lbrakk>0 < b; b \<le> 32\<rbrakk> \<Longrightarrow> topology_parsenet shl32 (dotted ip @ ''/'' @ num 10 b) =
     Some (ip AND NOT (mask (32 - b)), ip AND NOT (mask (32 - b)) OR (NOT (mask (32 - b)) XOR 0xFFFFFFFF))"
  using dotted_star [of ip] dotted_star [of ip "[]"] parse_ip_dotted [of "[]"] parse_ip_dotted [of _ ip]
  by (simp_all add: topology_parsenet_def parse_mask_dotted parse_mask_bits)

lemma bits_mask: "m XOR 0xFFFFFFFF = NOT (m :: u32)"
  unfolding all_ones by (rule bit_word_eqI) (simp add: bit_simps)

lemma drop_bit_le: "(a :: u32) \<le> b \<Longrightarrow> drop_bit k a \<le> drop_bit k b"
  unfolding word_le_nat_alt unat_drop_bit_eq by (simp add: drop_bit_eq_div div_le_mono)

lemma same_high_bits:
  fixes ip v :: u32
  shows "ip AND NOT (mask k) \<le> v \<and> v \<le> ip AND NOT (mask k) OR mask k \<longleftrightarrow> drop_bit k v = drop_bit k ip"
proof
  have "drop_bit k (ip AND NOT (mask k)) = drop_bit k ip" "drop_bit k (ip AND NOT (mask k) OR mask k) = drop_bit k ip"
    by (rule bit_word_eqI; auto simp: bit_simps dest: bit_imp_le_length)+
  moreover assume "ip AND NOT (mask k) \<le> v \<and> v \<le> ip AND NOT (mask k) OR mask k"
  ultimately show "drop_bit k v = drop_bit k ip"
    using drop_bit_le [of "ip AND NOT (mask k)" v k] drop_bit_le [of v "ip AND NOT (mask k) OR mask k" k] by simp
next
  assume high: "drop_bit k v = drop_bit k ip"
  have "x AND NOT (mask k) = push_bit k (drop_bit k x)" for x :: u32
    by (rule bit_word_eqI) (auto simp: bit_simps)
  with high have "ip AND NOT (mask k) = v AND NOT (mask k)" by simp
  moreover have "v AND NOT (mask k) OR mask k = v OR mask k" by (rule bit_word_eqI) (auto simp: bit_simps)
  ultimately show "ip AND NOT (mask k) \<le> v \<and> v \<le> ip AND NOT (mask k) OR mask k" by (simp add: word_and_le2 le_word_or2)
qed

lemma parsenet_bits:
  assumes "0 < b" "b \<le> 32"
  shows "\<exists>f t. topology_parsenet shl32 (dotted ip @ ''/'' @ num 10 b) = Some (f, t) \<and>
    (\<forall>v. f \<le> v \<and> v \<le> t \<longleftrightarrow> drop_bit (32 - b) v = drop_bit (32 - b) ip)"
  unfolding parsenet_forms(4) [OF assms] bits_mask by (auto simp: same_high_bits)

lemma parsenet_star: "topology_parsenet shl32 ''*'' = Some (0, 0xFFFFFFFF)"
  by (simp add: topology_parsenet_def)

text \<open>
  C31. Notations of ranges: \<^verbatim>\<open>topology_parsenet\<close> reads a single address in dotted notation, two addresses with a
  dash, an address with a mask, and a star for all addresses; an address with a number of bits from 1 to 32 is read as the range of
  exactly the addresses that agree with it in so many leading bits.
\<close>

theorem topology_parsenet_notations:
  assumes "0 < b" "b \<le> 32"
  shows "topology_parsenet shl32 ''*'' = Some (0, 0xFFFFFFFF) \<and>
    topology_parsenet shl32 (dotted ip) = Some (ip, ip) \<and>
    topology_parsenet shl32 (dotted ip @ ''-'' @ dotted ip2) = Some (ip, ip2) \<and>
    topology_parsenet shl32 (dotted ip @ ''/'' @ dotted m) = Some (ip AND m, (ip AND m) OR NOT m) \<and>
    (\<exists>f t. topology_parsenet shl32 (dotted ip @ ''/'' @ num 10 b) = Some (f, t) \<and>
      (\<forall>v. f \<le> v \<and> v \<le> t \<longleftrightarrow> drop_bit (32 - b) v = drop_bit (32 - b) ip))"
  using parsenet_star parsenet_forms(1-2) parsenet_forms(3) [unfolded bits_mask] parsenet_bits [OF assms] by (intro conjI)

theorem topology_parsenet_notations_witness:
  "dotted 0x0A000001 @ ''/'' @ num 10 8 = ''10.0.0.1/8'' \<and>
   (\<exists>f t. topology_parsenet 0 (dotted 0x0A000001 @ ''/'' @ num 10 8) = Some (f, t) \<and>
     f \<le> 0x0AFFFFFF \<and> 0x0AFFFFFF \<le> t \<and> \<not> (f \<le> 0x0B000000 \<and> 0x0B000000 \<le> t))"
proof
  show "dotted 0x0A000001 @ ''/'' @ num 10 8 = ''10.0.0.1/8''"
    by (simp add: dotted_def num.simps digit_char_def char_of_def bit_0)
  obtain f t where r: "topology_parsenet 0 (dotted 0x0A000001 @ ''/'' @ num 10 8) = Some (f, t)"
    "\<forall>v. f \<le> v \<and> v \<le> t \<longleftrightarrow> drop_bit 24 v = drop_bit 24 (0x0A000001 :: u32)"
    using topology_parsenet_notations [of 8 0 "0x0A000001" 0 0] by (auto simp del: num.simps)
  have "drop_bit 24 (0x0AFFFFFF :: u32) = drop_bit 24 0x0A000001" "drop_bit 24 (0x0B000000 :: u32) \<noteq> drop_bit 24 0x0A000001"
    by (simp_all add: word_unat_eq_iff unat_drop_bit_eq drop_bit_eq_div)
  with r show "\<exists>f t. topology_parsenet 0 (dotted 0x0A000001 @ ''/'' @ num 10 8) = Some (f, t) \<and>
     f \<le> 0x0AFFFFFF \<and> 0x0AFFFFFF \<le> t \<and> \<not> (f \<le> 0x0B000000 \<and> 0x0B000000 \<le> t)"
    by blast
qed

text \<open>
  Zero bits are different: where a shift by 32 leaves a word as it is (as on x86), the range is the single address and not all of
  them.
\<close>

lemma zero_bits: "topology_parsenet 0xFFFFFFFF ''10.0.0.0/0'' = Some (0x0A000000, 0x0A000000)"
  by code_simp

subsection \<open>What a file defines\<close>

text \<open>The fields of a line between blanks, and the range and rack that it defines.\<close>

function fields :: "string \<Rightarrow> string list" where
  "fields s = (let p = dropWhile blank s
     in if p = [] then [] else takeWhile (\<lambda>c. \<not> blank c) p # fields (dropWhile (\<lambda>c. \<not> blank c) p))"
  by auto
termination
proof (relation "measure length")
  fix s p assume p: "p = dropWhile blank s" "p \<noteq> []"
  then have "\<not> blank (hd p)" using hd_dropWhile by blast
  with p(2) have "length (dropWhile (\<lambda>c. \<not> blank c) p) < length p" by (cases p) (auto simp: length_dropWhile_le le_imp_less_Suc)
  with p(1) length_dropWhile_le [of blank s] show "(dropWhile (\<lambda>c. \<not> blank c) p, s) \<in> measure length" by simp
qed simp

declare fields.simps [simp del]

lemma fields_unfold:
  "fields s = (if dropWhile blank s = [] then []
     else takeWhile (\<lambda>c. \<not> blank c) (dropWhile blank s) # fields (dropWhile (\<lambda>c. \<not> blank c) (dropWhile blank s)))"
  by (subst fields.simps) (simp add: Let_def)

definition line_defines :: "u32 \<Rightarrow> string \<Rightarrow> (u32 \<times> u32 \<times> string) option" where
  "line_defines shl32 line =
     (case fields (strip_end line) of
        net # rack # rest \<Rightarrow>
          (if at net \<noteq> CHR ''#'' \<and> at rack \<noteq> CHR ''#'' \<and> (rest = [] \<or> at (hd rest) = CHR ''#'')
           then map_option (\<lambda>(f, t). (f, t, rack)) (topology_parsenet shl32 net) else None)
      | _ \<Rightarrow> None)"

lemma at_takeWhile: "\<lbrakk>p \<noteq> []; \<not> blank (hd p)\<rbrakk> \<Longrightarrow> at (takeWhile (\<lambda>c. \<not> blank c) p) = at p"
  by (cases p) auto

lemma not_blank_dropWhile: "dropWhile blank s \<noteq> [] \<Longrightarrow> \<not> blank (hd (dropWhile blank s))"
  by (rule hd_dropWhile)

lemma dropWhile_tl: "dropWhile (\<lambda>c. \<not> blank c) p \<noteq> [] \<Longrightarrow>
    dropWhile blank (tl (dropWhile (\<lambda>c. \<not> blank c) p)) = dropWhile blank (dropWhile (\<lambda>c. \<not> blank c) p)"
  using hd_dropWhile [of "\<lambda>c. \<not> blank c" p] by (cases "dropWhile (\<lambda>c. \<not> blank c) p") auto

lemma parseline_fields:
  "topology_parseline shl32 line rn =
     (case fields line of
        net # rack # rest \<Rightarrow>
          (if at net = CHR ''#'' then (None, rn)
           else case topology_parsenet shl32 net of
             None \<Rightarrow> (None, rn)
           | Some (f, t) \<Rightarrow>
               (if at rack = CHR ''#'' then (None, rn)
                else let (rid, rn') = topology_rackname_to_rackid rack rn
                     in (if rest \<noteq> [] \<and> at (hd rest) \<noteq> CHR ''#'' then None else Some (f, t, rid), rn')))
      | _ \<Rightarrow> (None, rn))"
proof -
  define p1 where "p1 = dropWhile blank line"
  define p2 where "p2 = dropWhile (\<lambda>c. \<not> blank c) p1"
  define p3 where "p3 = dropWhile blank p2"
  define p4 where "p4 = dropWhile blank (dropWhile (\<lambda>c. \<not> blank c) p3)"
  have f1: "fields line = (if p1 = [] then [] else takeWhile (\<lambda>c. \<not> blank c) p1 # fields p2)"
    unfolding p2_def p1_def by (rule fields_unfold)
  have f2: "fields p2 = (if p3 = [] then [] else takeWhile (\<lambda>c. \<not> blank c) p3 # fields (dropWhile (\<lambda>c. \<not> blank c) p3))"
    unfolding p3_def by (rule fields_unfold)
  have f3: "fields (dropWhile (\<lambda>c. \<not> blank c) p3) = (if p4 = [] then [] else takeWhile (\<lambda>c. \<not> blank c) p4 # fields (dropWhile (\<lambda>c. \<not> blank c) p4))"
    unfolding p4_def by (rule fields_unfold)
  have at: "p1 \<noteq> [] \<Longrightarrow> at (takeWhile (\<lambda>c. \<not> blank c) p1) = at p1" "p3 \<noteq> [] \<Longrightarrow> at (takeWhile (\<lambda>c. \<not> blank c) p3) = at p3"
    "p4 \<noteq> [] \<Longrightarrow> at (takeWhile (\<lambda>c. \<not> blank c) p4) = at p4"
    using at_takeWhile not_blank_dropWhile by (auto simp: p1_def p3_def p4_def)
  have p3: "p2 \<noteq> [] \<Longrightarrow> dropWhile blank (tl p2) = p3" "p2 = [] \<Longrightarrow> p3 = []"
    using dropWhile_tl [of p1, folded p2_def, folded p3_def] by (simp_all add: p3_def)
  show ?thesis
    unfolding topology_parseline_def Let_def p1_def [symmetric] p2_def [symmetric]
    using p3 at unfolding f1 f2 f3
    by (cases "p1 = []"; cases "p2 = []"; cases "p3 = []"; cases "p4 = []") (simp_all add: p4_def [symmetric] split: option.split)
qed

subsection \<open>Loading\<close>

text \<open>
  After some lines: the tree comes from a list of ranges with numbers, which are the defined ranges with the numbers of their
  names.
\<close>

definition named :: "racknames \<Rightarrow> u32 \<times> u32 \<times> u32 \<Rightarrow> u32 \<times> u32 \<times> string \<Rightarrow> bool" where
  "named rn = (\<lambda>(f, t, i) (f', t', s). f = f' \<and> t = t' \<and> topology_rackid_to_rackname rn i = Some s)"

definition loaded :: "(u32 \<times> u32 \<times> string) list \<Rightarrow> nat \<Rightarrow> itree \<times> racknames \<Rightarrow> bool" where
  "loaded defs k = (\<lambda>(tree, rn). names_ok rn \<and> unat (rackidnext rn) \<le> 2 * k \<and>
     (\<exists>rs. tree = ia.add_all Leaf rs \<and> list_all2 (named rn) rs defs))"

lemma named_keeps: "\<lbrakk>keeps_names rn rn'; list_all2 (named rn) rs defs\<rbrakk> \<Longrightarrow> list_all2 (named rn') rs defs"
  by (erule list_all2_mono) (auto simp: named_def keeps_names_def)

lemma fields_Nil: "fields [] = []"
  by (subst fields.simps) simp

lemma parseline_defines:
  assumes "topology_parseline shl32 (strip_end line) rn = (res, rn')" "names_ok rn" "unat (rackidnext rn) < 2 ^ 31"
  shows "names_ok rn' \<and> keeps_names rn rn' \<and> unat (rackidnext rn') \<le> unat (rackidnext rn) + 2 \<and>
    rel_option (named rn') res (line_defines shl32 line)"
proof (cases "fields (strip_end line)" rule: remdups_adj.cases)
  case (3 net rack rest)
  note parse = assms(1) [unfolded parseline_fields 3 list.case]
  have same: ?thesis if "rn' = rn" "res = None" "line_defines shl32 line = None"
    using that assms(2) by (simp add: keeps_names_def)
  show ?thesis
  proof (cases "at net = CHR ''#'' \<or> topology_parsenet shl32 net = None \<or> at rack = CHR ''#''")
    case True
    with parse 3 show ?thesis by (intro same) (auto simp: line_defines_def split: if_splits option.splits)
  next
    case False
    then obtain f t where net: "topology_parsenet shl32 net = Some (f, t)" by auto
    obtain i rn1 where id: "topology_rackname_to_rackid rack rn = (i, rn1)" by fastforce
    from parse False net id have "rn' = rn1" "res = (if rest \<noteq> [] \<and> at (hd rest) \<noteq> CHR ''#'' then None else Some (f, t, i))" by auto
    with rackname_to_rackid [OF id assms(2,3)] False net 3 show ?thesis by (simp add: line_defines_def named_def)
  qed
qed (use assms in \<open>auto simp: parseline_fields line_defines_def keeps_names_def\<close>)

lemma load_line:
  assumes "loaded defs k st" "2 * k < 2 ^ 31"
  shows "loaded (defs @ (case line_defines shl32 line of None \<Rightarrow> [] | Some d \<Rightarrow> [d])) (Suc k) (topology_load_line shl32 line st)"
proof -
  obtain tree rn where st: "st = (tree, rn)" by fastforce
  with assms(1) obtain rs where rs: "tree = ia.add_all Leaf rs" "list_all2 (named rn) rs defs"
    and ok: "names_ok rn" "unat (rackidnext rn) \<le> 2 * k" by (auto simp: loaded_def)
  obtain res rn' where p: "topology_parseline shl32 (strip_end line) rn = (res, rn')" by fastforce
  have "unat (rackidnext rn) < 2 ^ 31" using ok(2) assms(2) by linarith
  note d = parseline_defines [OF p ok(1) this]
  show ?thesis
  proof (cases "strip_end line = []")
    case True
    then show ?thesis using rs ok by (auto simp: topology_load_line_def st loaded_def line_defines_def fields_Nil)
  next
    case False
    then have line: "topology_load_line shl32 line st = ((case res of None \<Rightarrow> tree | Some (f, t, i) \<Rightarrow> itree_add_interval tree f t i), rn')"
      by (simp add: topology_load_line_def st p split: option.split)
    from d rs(2) have "list_all2 (named rn') rs defs" using named_keeps by blast
    with d ok(2) rs(1) show ?thesis
      by (cases res; cases "line_defines shl32 line") (auto simp: line loaded_def ia.add_all_def intro!: exI list_all2_appendI)
  qed
qed

lemma load_lines:
  "\<lbrakk>loaded defs k st; 2 * (k + length ls) \<le> 2 ^ 31\<rbrakk> \<Longrightarrow>
   loaded (defs @ List.map_filter (line_defines shl32) ls) (k + length ls) (fold (topology_load_line shl32) ls st)"
proof (induction ls arbitrary: defs k st)
  case (Cons l ls)
  have "loaded (defs @ (case line_defines shl32 l of None \<Rightarrow> [] | Some d \<Rightarrow> [d])) (Suc k) (topology_load_line shl32 l st)"
    by (rule load_line) (use Cons.prems in auto)
  from Cons.IH [OF this] Cons.prems(2) show ?case by (auto simp: map_filter_simps split: option.splits)
qed (simp add: map_filter_simps)

lemma find_named:
  assumes "list_all2 (named rn) rs defs"
  shows "rel_option (named rn) (List.find (\<lambda>(f, t, i). between f t v) rs) (List.find (\<lambda>(f, t, s). between f t v) defs)"
  using assms by induction (auto simp: named_def)

lemma rackname_zero: "topology_rackid_to_rackname rn 0 = Some []"
  by (simp add: topology_rackid_to_rackname_def)

lemma rebalance_Leaf: "itree_rebalance Leaf = Leaf"
  by (simp add: itree_rebalance_def)

lemma racks_loaded:
  assumes "length ls \<le> 2 ^ 30"
  shows "topology_rackid_to_rackname (names (topology_load shl32 (Some (ls, False)) tp))
      (topology_get_rackid (topology_load shl32 (Some (ls, False)) tp) ip) =
    Some (case List.find (\<lambda>(f, t, s). min f t \<le> ip \<and> ip \<le> max f t) (rev (List.map_filter (line_defines shl32) ls)) of
        Some (f, t, s) \<Rightarrow> s | None \<Rightarrow> '''')"
proof -
  obtain tree rn where f: "fold (topology_load_line shl32) ls (Leaf, topology_rackname_init) = (tree, rn)" by fastforce
  have "loaded [] 0 (Leaf, topology_rackname_init)"
    using names_ok_init by (simp add: loaded_def ia.add_all_def topology_rackname_init_def)
  from load_lines [OF this, of ls shl32] assms f obtain rs where rs: "tree = ia.add_all Leaf rs"
    "list_all2 (named rn) rs (List.map_filter (line_defines shl32) ls)" by (auto simp: loaded_def)
  have tp: "topology_load shl32 (Some (ls, False)) tp = \<lparr>racktree = itree_rebalance tree, names = rn\<rparr>"
    by (simp add: topology_load_def f rebalance_Leaf)
  have "list_all2 (named rn) (rev rs) (rev (List.map_filter (line_defines shl32) ls))" using rs(2) by simp
  from find_named [OF this, of ip] show ?thesis
    by (auto simp: tp topology_get_rackid_def rs(1) ia.find_table between_def named_def rackname_zero
        split: option.splits elim!: option.rel_cases)
qed

text \<open>
  C30. Loading a topology: after \<^verbatim>\<open>topology_load\<close> of a file of at most \<open>2^30\<close> lines that could be read, the
  rack of an address is the one of the last line that defines a rack for a range with this address, whatever was loaded before,
  and the empty name where no line does. A line defines a rack when its first two fields are a range and a name and
  only a comment follows.
\<close>

theorem topology_load_racks:
  assumes "length ls \<le> 2 ^ 30"
  shows "topology_rackid_to_rackname (names (topology_load shl32 (Some (ls, False)) tp))
      (topology_get_rackid (topology_load shl32 (Some (ls, False)) tp) ip) =
    Some (case List.find (\<lambda>(f, t, s). min f t \<le> ip \<and> ip \<le> max f t) (rev (List.map_filter (line_defines shl32) ls)) of
        Some (f, t, s) \<Rightarrow> s | None \<Rightarrow> '''')"
  using assms by (rule racks_loaded)

theorem topology_load_racks_witness:
  "topology_rackid_to_rackname (names (topology_load 0 (Some ([''10.0.0.0/8 a|b''], False)) topology_init))
     (topology_get_rackid (topology_load 0 (Some ([''10.0.0.0/8 a|b''], False)) topology_init) 0x0A010203) = Some ''a|b''"
proof -
  have "line_defines 0 ''10.0.0.0/8 a|b'' = Some (0x0A000000, 0x0AFFFFFF, ''a|b'')"
    by code_simp
  then show ?thesis using topology_load_racks [of "[''10.0.0.0/8 a|b'']" 0 topology_init "0x0A010203"]
    by (simp add: map_filter_simps min_def max_def)
qed

subsection \<open>Distances follow the paths of the racks\<close>

text \<open>The components of a path, and how many two paths have in common.\<close>

fun path :: "string \<Rightarrow> string list" where
  "path [] = [[]]"
| "path (c # s) = (if c = CHR ''|'' then [] # path s else (c # hd (path s)) # tl (path s))"

fun common :: "'a list \<Rightarrow> 'a list \<Rightarrow> nat" where
  "common (x # xs) (y # ys) = (if x = y then Suc (common xs ys) else 0)"
| "common xs ys = 0"

lemma path_nonempty [simp]: "path s \<noteq> []"
  by (cases s) simp_all

lemma path_bars: "length (path s) = Suc (length (filter (\<lambda>c. c = CHR ''|'') s))"
  by (induction s) auto

text \<open>What remains of a name behind the last common bar.\<close>

definition rest_at :: "nat \<Rightarrow> nat \<Rightarrow> string \<Rightarrow> bool" where
  "rest_at L k r \<longleftrightarrow> (if length (path r) = k then drop L r = [] else \<exists>t. drop L r = CHR ''|'' # t \<and> path t = drop k (path r))"

lemma rest_at_step:
  "rest_at L k r \<Longrightarrow> 0 < k \<Longrightarrow> rest_at (Suc L) (if c = CHR ''|'' then Suc k else k) (c # r)"
  by (cases "path r") (auto simp: rest_at_def drop_tl [symmetric] drop_Cons')

lemma common_split: "common (path (c # r1)) (path (d # r2)) =
    (if c \<noteq> d then 0 else if c = CHR ''|'' then Suc (common (path r1) (path r2)) else common (path r1) (path r2))"
  by (cases "path r1"; cases "path r2") auto

lemma last_common_bar:
  assumes "r1 \<noteq> r2"
  shows "\<exists>L. last_common_bar pos lastbar r1 r2 = Some L \<and>
    (if common (path r1) (path r2) = 0 then L = lastbar
     else pos \<le> L \<and> rest_at (L - pos) (common (path r1) (path r2)) r1 \<and> rest_at (L - pos) (common (path r1) (path r2)) r2)"
  using assms
proof (induction pos lastbar r1 r2 rule: last_common_bar.induct)
  case (4 pos lastbar c r1 d r2)
  show ?case
  proof (cases "c = d")
    case False
    then show ?thesis by (simp add: common_split del: path.simps)
  next
    case True
    let ?k = "common (path r1) (path r2)" let ?lb = "if c = CHR ''|'' then pos else lastbar"
    from 4 True obtain L where L: "last_common_bar (Suc pos) ?lb r1 r2 = Some L"
      "if ?k = 0 then L = ?lb else Suc pos \<le> L \<and> rest_at (L - Suc pos) ?k r1 \<and> rest_at (L - Suc pos) ?k r2" by auto
    have step: "rest_at (L - pos) (if c = CHR ''|'' then Suc ?k else ?k) (c # r)"
      if "Suc pos \<le> L" "rest_at (L - Suc pos) ?k r" "0 < ?k" for r
      using rest_at_step [OF that(2,3), of c] that(1) by (simp add: Suc_diff_Suc Suc_le_eq)
    have zero: "rest_at 0 (Suc 0) (CHR ''|'' # r)" for r by (simp add: rest_at_def)
    show ?thesis using L True step zero
      by (cases "?k = 0"; cases "c = CHR ''|''") (simp_all add: common_split del: path.simps)
  qed
qed (auto simp: rest_at_def)

text \<open>The number of components behind the common part, less one where there is any.\<close>

definition levels :: "nat \<Rightarrow> string \<Rightarrow> nat" where
  "levels k s = length (drop k (path s)) - 1"

lemma bars_after_levels:
  assumes "if k = 0 then L = 0 \<and> at s \<noteq> CHR ''|'' else rest_at L k s" "levels k s < 254"
  shows "unat (bars_after L s) = levels k s"
proof -
  have "length (filter (\<lambda>c. c = CHR ''|'') (drop (if at (drop L s) = CHR ''|'' then L + 1 else L) s)) = levels k s"
  proof (cases "k = 0")
    case True
    with assms(1) show ?thesis by (simp add: levels_def path_bars)
  next
    case False
    with assms(1) have rest: "rest_at L k s" by simp
    show ?thesis
    proof (cases "length (path s) = k")
      case True
      with rest show ?thesis by (simp add: rest_at_def levels_def)
    next
      case F: False
      with rest obtain t where t: "drop L s = CHR ''|'' # t" "path t = drop k (path s)" by (auto simp: rest_at_def)
      then have "drop (Suc L) s = t" by (metis drop_Suc list.sel(3) tl_drop)
      with t show ?thesis using path_bars [of t] by (simp add: levels_def)
    qed
  qed
  with assms(2) show ?thesis by (simp add: bars_after_def Let_def unat_of_nat take_bit_nat_eq_self)
qed

lemma distance_levels:
  assumes n1: "topology_rackid_to_rackname (names tp) (topology_get_rackid tp ip1) = Some s1"
    and n2: "topology_rackid_to_rackname (names tp) (topology_get_rackid tp ip2) = Some s2"
    and ne: "s1 \<noteq> s2" and bars: "at s1 \<noteq> CHR ''|''" "at s2 \<noteq> CHR ''|''"
    and few: "levels (common (path s1) (path s2)) s1 < 254" "levels (common (path s1) (path s2)) s2 < 254"
  shows "unat (topology_distance tp ip1 ip2) =
    2 + max (levels (common (path s1) (path s2)) s1) (levels (common (path s1) (path s2)) s2)"
proof -
  let ?k = "common (path s1) (path s2)"
  from last_common_bar [OF ne, of 0 0] obtain L where L: "last_common_bar 0 0 s1 s2 = Some L"
    "if ?k = 0 then L = 0 else rest_at L ?k s1 \<and> rest_at L ?k s2" by (auto split: if_splits)
  have b1: "unat (bars_after L s1) = levels ?k s1" by (rule bars_after_levels) (use L(2) bars few in \<open>auto split: if_splits\<close>)
  have b2: "unat (bars_after L s2) = levels ?k s2" by (rule bars_after_levels) (use L(2) bars few in \<open>auto split: if_splits\<close>)
  have m: "unat (max (bars_after L s1) (bars_after L s2)) = max (levels ?k s1) (levels ?k s2)"
    using b1 b2 by (simp add: max_def word_le_nat_alt)
  have "ip1 \<noteq> ip2" "topology_get_rackid tp ip1 \<noteq> topology_get_rackid tp ip2" using n1 n2 ne by auto
  then have "topology_distance tp ip1 ip2 = 2 + max (bars_after L s1) (bars_after L s2)"
    using n1 n2 L(1) by (simp add: topology_distance_def topology_get_rackid_def Let_def)
  then show ?thesis using m few by (simp add: unat_word_ariths)
qed

lemma common_sym: "common xs ys = common ys xs"
  by (induction xs ys rule: common.induct) auto

text \<open>The elements of a path after the part that it shares with another one.\<close>

definition after_common :: "string \<Rightarrow> string \<Rightarrow> nat" where
  "after_common s1 s2 = length (drop (common (path s1) (path s2)) (path s1))"

lemma path_inj: "path s = path t \<Longrightarrow> s = t"
proof (induction s arbitrary: t)
  case Nil
  then show ?case using path_nonempty by (cases t) (auto split: if_splits dest: sym)
next
  case (Cons c s)
  then obtain d u where t: "t = d # u" by (cases t) (auto split: if_splits)
  have "path s = path u \<and> c = d"
    using Cons.prems unfolding t by (cases "path s"; cases "path u") (auto split: if_splits)
  with Cons.IH t show ?case by blast
qed

lemma common_all: "length xs \<le> common xs ys \<Longrightarrow> length ys \<le> common xs ys \<Longrightarrow> xs = ys"
  by (induction xs ys rule: common.induct) (auto split: if_splits)

lemma max_levels:
  assumes "s1 \<noteq> s2"
  shows "2 + max (levels (common (path s1) (path s2)) s1) (levels (common (path s1) (path s2)) s2) =
    1 + max (after_common s1 s2) (after_common s2 s1)"
proof -
  have "\<not> (length (path s1) \<le> common (path s1) (path s2) \<and> length (path s2) \<le> common (path s1) (path s2))"
    using common_all path_inj assms by blast
  then show ?thesis by (auto simp: levels_def after_common_def common_sym [of "path s2"])
qed

lemma last_common_bar_same: "last_common_bar pos lastbar s s = None"
  by (induction s arbitrary: pos lastbar) auto

text \<open>
  A leading bar is not counted as an empty first element: the distance of \<^verbatim>\<open>|a\<close> and \<^verbatim>\<open>b\<close> is two, although
  two elements of the first path follow the (empty) common part.
\<close>

theorem leading_bar_distance:
  assumes "topology_rackid_to_rackname (names tp) (topology_get_rackid tp ip1) = Some ''|a''"
    and "topology_rackid_to_rackname (names tp) (topology_get_rackid tp ip2) = Some ''b''"
  shows "topology_distance tp ip1 ip2 = 2" "1 + max (after_common ''|a'' ''b'') (after_common ''b'' ''|a'') = 3"
proof -
  have "ip1 \<noteq> ip2" "topology_get_rackid tp ip1 \<noteq> topology_get_rackid tp ip2" using assms by auto
  then show "topology_distance tp ip1 ip2 = 2"
    using assms by (simp add: topology_distance_def topology_get_rackid_def bars_after_def Let_def)
  show "1 + max (after_common ''|a'' ''b'') (after_common ''b'' ''|a'') = 3" by (simp add: after_common_def)
qed

text \<open>
  C32. Distances, as \<^verbatim>\<open>mfstopology.cfg(5)\<close> defines them: \<^verbatim>\<open>topology_distance\<close> is zero for the same address, one for
  different addresses with the same path, and for different paths one more than the larger number of
  elements that the two paths have after their common starting part; it does not depend on the
  order of the addresses. This is for paths that do not start with a bar
  (\<open>leading_bar_distance\<close> shows one that does) and with at most 254 elements after the common part,
  so that the result fits into its 8 bits. The comment above the function knows only the values up
  to two.
\<close>

theorem topology_distance_levels:
  assumes "topology_rackid_to_rackname (names tp) (topology_get_rackid tp ip1) = Some s1"
    and "topology_rackid_to_rackname (names tp) (topology_get_rackid tp ip2) = Some s2"
    and "at s1 \<noteq> CHR ''|''" "at s2 \<noteq> CHR ''|''" "after_common s1 s2 \<le> 254" "after_common s2 s1 \<le> 254"
  shows "unat (topology_distance tp ip1 ip2) =
      (if ip1 = ip2 then 0 else if s1 = s2 then 1 else 1 + max (after_common s1 s2) (after_common s2 s1)) \<and>
    topology_distance tp ip2 ip1 = topology_distance tp ip1 ip2"
proof (cases "s1 = s2")
  case True
  then show ?thesis
    using assms(1,2) last_common_bar_same
    by (auto simp: topology_distance_def topology_get_rackid_def Let_def)
next
  case False
  let ?k = "common (path s1) (path s2)"
  have few: "levels ?k s1 < 254" "levels ?k s2 < 254"
    using assms(5,6) by (auto simp: levels_def after_common_def common_sym [of "path s2"])
  note d = distance_levels [OF assms(1,2) False assms(3,4) few]
  have "unat (topology_distance tp ip2 ip1) = unat (topology_distance tp ip1 ip2)"
    unfolding d using distance_levels [OF assms(2,1) False [symmetric] assms(4,3)] few
    by (simp add: common_sym [of "path s2"] max.commute)
  moreover have "ip1 \<noteq> ip2" using assms(1,2) False by auto
  ultimately show ?thesis using d max_levels [OF False] False by (simp add: word_unat_eq_iff)
qed

definition two_racks :: topology where
  "two_racks = topology_load 0 (Some ([''10.0.0.1 a|b|c'', ''10.0.0.2 a|d''], False)) topology_init"

theorem topology_distance_levels_witness: "unat (topology_distance two_racks 0x0A000001 0x0A000002) = 3"
proof -
  have "line_defines 0 ''10.0.0.1 a|b|c'' = Some (0x0A000001, 0x0A000001, ''a|b|c'')"
    "line_defines 0 ''10.0.0.2 a|d'' = Some (0x0A000002, 0x0A000002, ''a|d'')" by code_simp+
  then have "topology_rackid_to_rackname (names two_racks) (topology_get_rackid two_racks 0x0A000001) = Some ''a|b|c''"
    "topology_rackid_to_rackname (names two_racks) (topology_get_rackid two_racks 0x0A000002) = Some ''a|d''"
    using racks_loaded [of "[''10.0.0.1 a|b|c'', ''10.0.0.2 a|d'']" 0 topology_init]
    by (simp_all add: two_racks_def map_filter_simps)
  from topology_distance_levels [OF this] show ?thesis by (simp add: after_common_def)
qed

end
