(* ===== verification/Spec2Isabelle.thy ===== *)
theory Spec2Isabelle
  imports Posix_Replay Open_Storage Changelog_Errors Changelog_Merge Topology
begin

text \<open>
  Verification of parts of the MooseFS master (\<^verbatim>\<open>src/mfsmaster\<close>): the lock service, from the packets of a client
  (\<^verbatim>\<open>src/mfsclient\<close>) to the metadata file; the text of the changelog and its replay; and the network topology.

  \<^bold>\<open>The program.\<close> The master keeps the metadata of the file system in memory. Clients ask it for BSD and POSIX locks and tell
  it which files they have open. Each change is written as a line of text to the changelog; a metalogger, a follower or a
  restarted master repeats the lines on its own copy. From time to time the state is stored in sections of a metadata file. To
  choose chunkservers close to a client, the master reads the racks of the network from a file.

  \<^bold>\<open>Conventions.\<close> A C struct is a record, an enumeration a datatype, a machine integer a word of its width, so sums wrap as in
  C. Hash tables of intrusive chains are functions from positions to lists in the order of the chain. An operation takes the
  state and returns the new state with what it sends: changelog lines and wake-up packets, in order. A failed
  \<^verbatim>\<open>massert\<close> is the output \<open>Abort\<close>; the assertion of \<^verbatim>\<open>flocklocks.c\<close> that a lock belongs to its record has none, since a lock is
  an element of the lists of its record here. An access outside of an array and a signed overflow are \<^const>\<open>None\<close>. Allocation does
  not fail, and log messages are left out.

  \<^bold>\<open>Shared theories.\<close>
  \<^item> \<open>MFS_Prelude\<close>: word types, status codes, outputs, the interface \<open>inode_dict\<close> of the tables by inode.
  \<^item> \<open>Datapack\<close>: \<^verbatim>\<open>mfscommon/datapack.h\<close>, in both variants; the fast one is the portable one (C16) and reading inverts
    writing between machines of any byte order (C17).
  \<^item> \<open>C_Text\<close>: C strings, \<^verbatim>\<open>printf\<close> of numbers, \<^verbatim>\<open>strtoul\<close> and \<^verbatim>\<open>strtoll\<close>.
  \<^item> \<open>Binary_Heap\<close>: the array heap, with the interface \<open>min_heap\<close>.

  \<^bold>\<open>POSIX locks\<close> (\<^verbatim>\<open>mfsmaster/posixlocks.c\<close>).
  \<^item> \<open>Posix_Ranges\<close>: the range list of one owner; setting a range changes exactly its bytes and keeps the unique normal form (C3).
  \<^item> \<open>Posix_Locks\<close>: the table, the command, the queue, closing, disconnecting and the replay function.
  \<^item> \<open>Posix_Spec\<close>: the specification by bytes, which the command refines (C1); the query (C7).
  \<^item> \<open>Posix_Close\<close>: closing on the specification; runs of commands, closed files and lost connections, in which nobody waits without
    being blocked (C2), unless an owner mixes reading and writing of one byte, for which the code loses wake-ups.
  \<^item> \<open>Posix_Safety\<close>: the invariant that survives any request, also with an empty range or an unknown command; which sessions use a file.
  \<^item> \<open>Posix_Replay\<close>: the lines of a command give a replica the same locks (C8).

  \<^bold>\<open>BSD locks\<close> (\<^verbatim>\<open>mfsmaster/flocklocks.c\<close>).
  \<^item> \<open>Flock_Locks\<close>: the table with its three queueing modes and all operations.
  \<^item> \<open>Flock_Replay\<close>: replay of whole histories (C4), without the two conversions that the code does not log and without owners that wait
    on two connections; hand-over of a lock to the queue (C5) and fairness in the default mode (C6).

  \<^bold>\<open>Open files and the lock service\<close> (\<^verbatim>\<open>mfsmaster/openfiles.c\<close>, lock handlers of \<^verbatim>\<open>mfsmaster/matoclserv.c\<close>).
  \<^item> \<open>Lock_Users\<close>: the interface \<open>lock_manager\<close>, what the open-file table relies on in both lock managers.
  \<^item> \<open>Open_Files\<close> and \<open>Open_Sync\<close>: the table with its two chains; the binary search ends and is correct (C9), synchronising a
    session (C10) and its replay (C11).
  \<^item> \<open>Lock_Service\<close>: the step relation of all three components. Its argument says which POSIX requests arrive. Mutual exclusion (C13)
    and that no assertion fails (C14) hold for all requests; that locks belong to open files (C12) and the clean removal of a
    session (C15) for requests with one of the four command codes, of any type and range. The handler does not check the code, and
    the theory shows that another one leaves a lock behind.
  \<^item> \<open>Lock_Protocol\<close>: requests from the client function to the master's handler and back (C18 to C20); the sizes in the headers are
    the constants of the source.
  \<^item> \<open>Lock_Storage\<close>, \<open>Posix_Storage\<close>, \<open>Flock_Storage\<close>, \<open>Open_Storage\<close>: storing and loading the sections (C21 to C23), and the
    size of the packet that lists the locks (C24).

  \<^bold>\<open>Changelog\<close> (\<^verbatim>\<open>mfsmaster/restore.c\<close>, \<^verbatim>\<open>mfsmaster/merger.c\<close>, the text of \<^verbatim>\<open>mfsmaster/changelog.c\<close>).
  \<^item> \<open>Restore_Macros\<close>, \<open>Restore_Calls\<close>: the reading macros and all functions \<^verbatim>\<open>do_...\<close>; a repeated change is a value of
    \<^typ>\<open>mr_call\<close>.
  \<^item> \<open>Changelog_Lines\<close>: one definition for each format string of the master's modules, and \<^verbatim>\<open>restore_line\<close>.
  \<^item> \<open>Changelog_Roundtrip\<close>: every printed line is read back (C25). \<open>Changelog_Errors\<close>: a cut line has no effect (C26), also where the
    code reads on behind its end: what stands there is an argument of the result.
  \<^item> \<open>Changelog_Replay\<close>: \<^verbatim>\<open>restore_net\<close>, \<^verbatim>\<open>restore_file\<close> and the merger; the functions that repeat a change are a parameter.
  \<^item> \<open>Changelog_Merge\<close>: overlapping files of a history are merged and each change is repeated once, in order (C27), as long as the
    signed numbers do not overflow and the progress report does not divide by zero.

  \<^bold>\<open>Topology\<close> (\<^verbatim>\<open>mfsmaster/topology.c\<close>, \<^verbatim>\<open>mfsmaster/itree.c\<close>).
  \<^item> \<open>Interval_Tree\<close>: the tree of disjoint intervals behind the interface \<open>address_map\<close>; adding (C28) and rebalancing (C29).
  \<^item> \<open>Topology\<close>: names of racks, loading of the file (C30), notations of ranges (C31) and distances as the manual
    defines them (C32).

  \<^bold>\<open>Bounds.\<close> There is no fuel. The loop of the binary search is a \<^theory_text>\<open>partial_function\<close>, and C9 and C10 show
  that it returns; arrays have at most \<open>2^30\<close> elements there, so that the signed middle does not overflow. Every other loop is a total
  function. The bound of C24 keeps the 32-bit size of the packet from wrapping, that of C30 the numbers of racks, that of C32 the 8-bit
  distance, that of C27 the 64-bit numbers of the changes. C25 is about lines that are shorter than the line buffer of the master. C1, C2
  and C8 are about commands on non-empty ranges, which keep the range lists in normal form.

  \<^bold>\<open>Parameters.\<close> The byte order of a machine; the mode of the BSD locks; the functions that repeat changes, with the
  version of the metadata, in the replay; the contents of files; the text behind the end of a cut line; and the two values that C does not define: the connection of a loaded BSD
  lock and a shift by the width of its operand.

  \<^bold>\<open>Not modelled.\<close> The tree of files, chunks and their copies, sessions, storage classes and quotas appear with their changelog
  lines only. Sockets, threads, files, configuration and timers are input and output. The chunkserver, the mount client except
  for its two lock requests, the command-line tools and the web interface are not modelled.
\<close>

end
